(* ===== verification/Bee_Prelude.thy ===== *)
theory Bee_Prelude
  imports Main "HOL-Library.Word" "HOL-Library.AList" "HOL-Library.Sublist"
begin

unbundle bit_operations_syntax

text \<open>
  Shared by every component of the Bee backend: C++ exceptions as values, the two ways a
  function can use them (a pure result, and an action on a state that keeps the state when
  it throws), loops over a range that may throw, and the byte-string helpers of the C++
  standard library that the sources call.  A \<open>std::string\<close> is a list of bytes, that
  is HOL's \<open>string\<close>.
\<close>

named_theorems res_simps \<open>unfolding rules of the result monad\<close>
named_theorems act_simps \<open>unfolding rules of the state and exception monad\<close>

subsection \<open>Exceptions\<close>

text \<open>
  The three families of exception that \<open>dispatch\<close> tells apart: \<open>bee::Error\<close>
  (platform/Errors.hpp) with its HTTP status, code and message; a failed database statement
  (\<open>DrogonDbException\<close>); any other \<open>std::exception\<close>, with its text.
\<close>

datatype exn =
    Error (status: int) (code: string) (message: string)
  | DbError string
  | StdError string

type_synonym 'a res = "exn + 'a"
type_synonym ('s, 'a) act = "'s \<Rightarrow> 'a res \<times> 's"

text \<open>The result monad, over any type of errors (a SQL error is not yet a C++ exception).\<close>

definition bind_res :: "'e + 'a \<Rightarrow> ('a \<Rightarrow> 'e + 'b) \<Rightarrow> 'e + 'b" where
  "bind_res r f = (case r of Inl e \<Rightarrow> Inl e | Inr x \<Rightarrow> f x)"

text \<open>\<open>if (b) throw e;\<close>\<close>

definition throw_if :: "bool \<Rightarrow> 'e \<Rightarrow> 'e + unit" where
  "throw_if b e = (if b then Inl e else Inr ())"

definition ok :: "'e + 'a \<Rightarrow> bool" where
  "ok r \<longleftrightarrow> (case r of Inl _ \<Rightarrow> False | Inr _ \<Rightarrow> True)"

lemma bind_res_Inl [simp, res_simps]: "bind_res (Inl e) f = Inl e"
  by (simp add: bind_res_def)

lemma bind_res_Inr [simp, res_simps]: "bind_res (Inr x) f = f x"
  by (simp add: bind_res_def)

lemma bind_res_eq_Inr [res_simps]:
  "bind_res r f = Inr y \<longleftrightarrow> (\<exists>x. r = Inr x \<and> f x = Inr y)"
  by (cases r) auto

lemma bind_res_eq_Inl [res_simps]:
  "bind_res r f = Inl e \<longleftrightarrow> r = Inl e \<or> (\<exists>x. r = Inr x \<and> f x = Inl e)"
  by (cases r) auto

lemma bind_unit_eq_Inr:
  fixes r :: "'e + unit"
  shows "bind_res r f = Inr y \<longleftrightarrow> r = Inr () \<and> f () = Inr y"
  by (auto simp: bind_res_eq_Inr)

lemma bind_res_assoc: "bind_res (bind_res r f) g = bind_res r (\<lambda>x. bind_res (f x) g)"
  by (cases r) auto

text \<open>For evaluation: leave the continuation alone until the result is known.\<close>

lemma bind_res_weak: "r = r' \<Longrightarrow> bind_res r f = bind_res r' f"
  by simp

lemma throw_if_eq_Inr [simp, res_simps]: "throw_if b e = Inr u \<longleftrightarrow> \<not> b"
  by (auto simp: throw_if_def)

lemma throw_if_eq_Inl [simp, res_simps]: "throw_if b e = Inl d \<longleftrightarrow> b \<and> d = e"
  by (auto simp: throw_if_def)

lemma throw_if_simps [simp, res_simps]: "throw_if False e = Inr ()" "throw_if True e = Inl e"
  by (simp_all add: throw_if_def)

lemma ok_Inl [simp]: "\<not> ok (Inl e)"
  by (simp add: ok_def)

lemma ok_Inr [simp]: "ok (Inr x)"
  by (simp add: ok_def)

lemma ok_iff: "ok r \<longleftrightarrow> (\<exists>x. r = Inr x)"
  by (cases r) auto

lemma ok_bind_res: "ok (bind_res r f) \<longleftrightarrow> (\<exists>x. r = Inr x \<and> ok (f x))"
  by (cases r) auto

lemma ok_throw_if [simp]: "ok (throw_if b e) \<longleftrightarrow> \<not> b"
  by (simp add: throw_if_def)

subsection \<open>Loops that may throw\<close>

text \<open>\<open>for (x : xs) body(x);\<close> where the body only checks.\<close>

fun each :: "('a \<Rightarrow> 'e + unit) \<Rightarrow> 'a list \<Rightarrow> 'e + unit" where
  "each f [] = Inr ()"
| "each f (x # xs) = bind_res (f x) (\<lambda>_. each f xs)"

text \<open>\<open>for (x : xs) body(x);\<close> where the body updates local variables.\<close>

fun fold_res :: "('a \<Rightarrow> 'b \<Rightarrow> 'e + 'b) \<Rightarrow> 'a list \<Rightarrow> 'b \<Rightarrow> 'e + 'b" where
  "fold_res f [] acc = Inr acc"
| "fold_res f (x # xs) acc = bind_res (f x acc) (fold_res f xs)"

text \<open>\<open>for (auto& x : xs) x = f(x);\<close> where the conversion may throw.\<close>

fun map_res :: "('a \<Rightarrow> 'e + 'b) \<Rightarrow> 'a list \<Rightarrow> 'e + 'b list" where
  "map_res f [] = Inr []"
| "map_res f (x # xs) = bind_res (f x) (\<lambda>y. bind_res (map_res f xs) (\<lambda>ys. Inr (y # ys)))"

lemma each_eq_Inr: "each f xs = Inr u \<longleftrightarrow> (\<forall>x \<in> set xs. f x = Inr ())"
  by (induction xs) (auto simp: bind_res_eq_Inr)

lemma each_ok: "ok (each f xs) \<longleftrightarrow> (\<forall>x \<in> set xs. ok (f x))"
proof (induction xs)
  case (Cons a xs)
  then show ?case by (cases "f a") auto
qed simp

lemma map_res_map: "map_res f (map g xs) = map_res (f \<circ> g) xs"
  by (induction xs) auto

lemma map_res_Inr_length: "map_res f xs = Inr ys \<Longrightarrow> length ys = length xs"
  by (induction xs arbitrary: ys) (auto simp: bind_res_eq_Inr)

lemma map_res_Inr_nth:
  "map_res f xs = Inr ys \<Longrightarrow> i < length xs \<Longrightarrow> f (xs ! i) = Inr (ys ! i)"
  by (induction xs arbitrary: ys i) (auto simp: bind_res_eq_Inr less_Suc_eq_0_disj)

lemma map_res_Inr_set:
  "map_res f xs = Inr ys \<Longrightarrow> y \<in> set ys \<Longrightarrow> \<exists>x \<in> set xs. f x = Inr y"
  by (induction xs arbitrary: ys) (auto simp: bind_res_eq_Inr)

lemma map_res_total: "(\<And>x. x \<in> set xs \<Longrightarrow> f x = Inr (g x)) \<Longrightarrow> map_res f xs = Inr (map g xs)"
  by (induction xs) auto

text \<open>A key among the keys of a table.\<close>

lemma list_ex_key: "list_ex (\<lambda>r. f r = x) xs \<longleftrightarrow> x \<in> f ` set xs"
  by (auto simp: list_ex_iff)

subsection \<open>Actions on a state\<close>

definition ret :: "'a \<Rightarrow> ('s, 'a) act" where
  "ret x s = (Inr x, s)"

definition throw :: "exn \<Rightarrow> ('s, 'a) act" where
  "throw e s = (Inl e, s)"

definition lift_res :: "'a res \<Rightarrow> ('s, 'a) act" where
  "lift_res r s = (r, s)"

definition bind_act :: "('s, 'a) act \<Rightarrow> ('a \<Rightarrow> ('s, 'b) act) \<Rightarrow> ('s, 'b) act" where
  "bind_act m f s = (case m s of (Inl e, t) \<Rightarrow> (Inl e, t) | (Inr x, t) \<Rightarrow> f x t)"

lemma ret_simp [simp, act_simps]: "ret x s = (Inr x, s)"
  by (simp add: ret_def)

lemma throw_simp [simp, act_simps]: "throw e s = (Inl e, s)"
  by (simp add: throw_def)

lemma lift_res_simp [simp, act_simps]: "lift_res r s = (r, s)"
  by (simp add: lift_res_def)

lemma bind_act_simp [act_simps]:
  "bind_act m f s = (case fst (m s) of Inl e \<Rightarrow> (Inl e, snd (m s)) | Inr x \<Rightarrow> f x (snd (m s)))"
  by (simp add: bind_act_def split: prod.splits sum.splits)

lemma bind_act_Inr:
  "bind_act m f s = (Inr y, u) \<longleftrightarrow> (\<exists>x t. m s = (Inr x, t) \<and> f x t = (Inr y, u))"
  by (auto simp: bind_act_def split: prod.splits sum.splits)

lemma bind_act_Inl:
  "bind_act m f s = (Inl e, u) \<longleftrightarrow>
     m s = (Inl e, u) \<or> (\<exists>x t. m s = (Inr x, t) \<and> f x t = (Inl e, u))"
  by (auto simp: bind_act_def split: prod.splits sum.splits)

lemma bind_act_cases:
  "bind_act m f s = (r, u) \<Longrightarrow> (\<exists>e. m s = (Inl e, u) \<and> r = Inl e) \<or> (\<exists>x t. m s = (Inr x, t) \<and> f x t = (r, u))"
  by (auto simp: bind_act_def split: prod.splits sum.splits)

lemma bind_act_ret [simp]: "bind_act (ret x) f = f x"
  by (rule ext) (simp add: bind_act_simp)

lemma bind_act_throw [simp]: "bind_act (throw e) f = throw e"
  by (rule ext) (simp add: bind_act_simp)

lemma bind_act_lift_Inl [simp]: "bind_act (lift_res (Inl e)) f = throw e"
  by (rule ext) (simp add: bind_act_simp)

lemma bind_act_lift_Inr [simp]: "bind_act (lift_res (Inr x)) f = f x"
  by (rule ext) (simp add: bind_act_simp)

text \<open>An action keeps a predicate of the state, whether it returns or throws.\<close>

definition keeps :: "('s \<Rightarrow> bool) \<Rightarrow> ('s, 'a) act \<Rightarrow> bool" where
  "keeps P m \<longleftrightarrow> (\<forall>s. P s \<longrightarrow> P (snd (m s)))"

lemma keepsI: "(\<And>s. P s \<Longrightarrow> P (snd (m s))) \<Longrightarrow> keeps P m"
  by (simp add: keeps_def)

lemma keepsD: "keeps P m \<Longrightarrow> P s \<Longrightarrow> P (snd (m s))"
  by (simp add: keeps_def)

lemma keeps_ret [simp, intro]: "keeps P (ret x)"
  by (simp add: keeps_def)

lemma keeps_throw [simp, intro]: "keeps P (throw e)"
  by (simp add: keeps_def)

lemma keeps_lift_res [simp, intro]: "keeps P (lift_res r)"
  by (simp add: keeps_def)

lemma keeps_bind_act [intro]:
  assumes "keeps P m" and "\<And>x. keeps P (f x)"
  shows "keeps P (bind_act m f)"
  using assms by (auto simp: keeps_def bind_act_simp split: sum.splits)

lemma keeps_lift_bind:
  "(\<And>x. r = Inr x \<Longrightarrow> keeps P (f x)) \<Longrightarrow> keeps P (bind_act (lift_res r) f)"
  by (cases r) auto

text \<open>A triple: from a state with the predicate an action returns, if it does, a value with a
  property, in a state with the predicate.\<close>

definition returns :: "('s \<Rightarrow> bool) \<Rightarrow> ('a \<Rightarrow> bool) \<Rightarrow> ('s, 'a) act \<Rightarrow> bool" where
  "returns P C m \<longleftrightarrow> (\<forall>s x t. P s \<longrightarrow> m s = (Inr x, t) \<longrightarrow> P t \<and> C x)"

lemma returnsI: "(\<And>s x t. P s \<Longrightarrow> m s = (Inr x, t) \<Longrightarrow> P t \<and> C x) \<Longrightarrow> returns P C m"
  by (simp add: returns_def)

lemma returnsD: "returns P C m \<Longrightarrow> P s \<Longrightarrow> m s = (Inr x, t) \<Longrightarrow> P t \<and> C x"
  unfolding returns_def by blast

lemma returns_ret: "C x \<Longrightarrow> returns P C (ret x)"
  by (simp add: returns_def)

lemma returns_throw: "returns P C (throw e)"
  by (simp add: returns_def)

lemma returns_lift_res: "(\<And>x. r = Inr x \<Longrightarrow> C x) \<Longrightarrow> returns P C (lift_res r)"
  by (simp add: returns_def)

lemma returns_bind: "returns P B m \<Longrightarrow> (\<And>x. B x \<Longrightarrow> returns P C (f x)) \<Longrightarrow> returns P C (bind_act m f)"
  unfolding returns_def bind_act_Inr by blast

lemma returns_keeps: "keeps P m \<Longrightarrow> returns P (\<lambda>_. True) m"
  unfolding keeps_def returns_def by (metis snd_conv)

subsection \<open>Byte strings\<close>

definition byte :: "char \<Rightarrow> 8 word" where
  "byte c = of_char c"

definition starts_with :: "string \<Rightarrow> string \<Rightarrow> bool" where
  "starts_with s p \<longleftrightarrow> take (length p) s = p"

definition ends_with :: "string \<Rightarrow> string \<Rightarrow> bool" where
  "ends_with s p \<longleftrightarrow> starts_with (rev s) (rev p)"

text \<open>A \<open>const char*\<close> made from a \<open>std::string\<close> ends at the first NUL byte.\<close>

definition c_str :: "string \<Rightarrow> string" where
  "c_str s = takeWhile (\<lambda>c. c \<noteq> CHR 0x00) s"

text \<open>\<open>std::tolower\<close> in the C locale, byte by byte.\<close>

definition to_lower :: "char \<Rightarrow> char" where
  "to_lower c = (let n = (of_char c :: nat) in
     if 65 \<le> n \<and> n \<le> 90 then char_of (n + 32) else c)"

definition lower :: "string \<Rightarrow> string" where
  "lower s = map to_lower s"

text \<open>\<open>std::to_string\<close> of a non-negative number.\<close>

fun digits :: "nat \<Rightarrow> string" where
  "digits n = (if n < 10 then [char_of (48 + n)] else digits (n div 10) @ [char_of (48 + n mod 10)])"

declare digits.simps [simp del]

lemma starts_with_prefix: "starts_with s p \<longleftrightarrow> prefix p s"
  unfolding starts_with_def prefix_def by (metis append_take_drop_id append_eq_conv_conj)

lemma ends_with_suffix: "ends_with s p \<longleftrightarrow> suffix p s"
  by (simp add: ends_with_def starts_with_prefix suffix_to_prefix)

lemma c_str_no_nul [simp]: "CHR 0x00 \<notin> set s \<Longrightarrow> c_str s = s"
  unfolding c_str_def by (rule takeWhile_eq_all_conv [THEN iffD2]) auto

lemma of_char_less: "(of_char c :: nat) < 256"
  by (metis char_of_mod_256 mod_less_divisor of_char_mod_256 zero_less_numeral of_char_of)

lemma to_lower_idem [simp]: "to_lower (to_lower c) = to_lower c"
  by (auto simp: to_lower_def Let_def of_char_of)

lemma lower_idem [simp]: "lower (lower s) = lower s"
  by (simp add: lower_def)

lemma length_lower [simp]: "length (lower s) = length s"
  by (simp add: lower_def)

lemma digits_not_Nil [simp]: "digits n \<noteq> []"
  by (subst digits.simps) simp

end
