(* ===== verification/Regex.thy ===== *)
theory Regex
  imports Bee_Prelude
begin

text \<open>
  The part of C++ \<open>std::regex\<close> (ECMAScript grammar) that the sources use: character
  classes, sequences, alternatives, \<open>*\<close>, \<open>+\<close>, \<open>{n}\<close> and \<open>{m,n}\<close>, always applied with
  \<open>std::regex_match\<close>, which matches the whole string (so that the anchors of the
  patterns are redundant).  The matcher computes Brzozowski derivatives; \<open>lang\<close> is
  what an expression denotes, and \<open>regex_match_iff\<close> says the two agree.  The patterns
  of the program follow: UUIDs, slugs, attribute codes and bucket names, each with a
  characterisation that does not mention regular expressions.
\<close>

subsection \<open>Expressions, their language, and the matcher\<close>

datatype rx =
    Zero
  | One
  | Cls "(char \<times> char) list"
  | Alt rx rx
  | Seq rx rx
  | Star rx

definition in_cls :: "(char \<times> char) list \<Rightarrow> char \<Rightarrow> bool" where
  "in_cls rs c \<longleftrightarrow>
     list_ex (\<lambda>(a, b). (of_char a :: nat) \<le> of_char c \<and> (of_char c :: nat) \<le> of_char b) rs"

definition conc :: "string set \<Rightarrow> string set \<Rightarrow> string set" where
  "conc A B = {u @ v |u v. u \<in> A \<and> v \<in> B}"

inductive_set starof :: "string set \<Rightarrow> string set" for A where
  starof_Nil [intro]: "[] \<in> starof A"
| starof_app [intro]: "u \<in> A \<Longrightarrow> v \<in> starof A \<Longrightarrow> u @ v \<in> starof A"

primrec lang :: "rx \<Rightarrow> string set" where
  "lang Zero = {}"
| "lang One = {[]}"
| "lang (Cls rs) = {[c] |c. in_cls rs c}"
| "lang (Alt r s) = lang r \<union> lang s"
| "lang (Seq r s) = conc (lang r) (lang s)"
| "lang (Star r) = starof (lang r)"

primrec nullable :: "rx \<Rightarrow> bool" where
  "nullable Zero = False"
| "nullable One = True"
| "nullable (Cls rs) = False"
| "nullable (Alt r s) = (nullable r \<or> nullable s)"
| "nullable (Seq r s) = (nullable r \<and> nullable s)"
| "nullable (Star r) = True"

primrec deriv :: "char \<Rightarrow> rx \<Rightarrow> rx" where
  "deriv c Zero = Zero"
| "deriv c One = Zero"
| "deriv c (Cls rs) = (if in_cls rs c then One else Zero)"
| "deriv c (Alt r s) = Alt (deriv c r) (deriv c s)"
| "deriv c (Seq r s) =
     (if nullable r then Alt (Seq (deriv c r) s) (deriv c s) else Seq (deriv c r) s)"
| "deriv c (Star r) = Seq (deriv c r) (Star r)"

text \<open>\<open>std::regex_match(s, r)\<close>\<close>

definition regex_match :: "string \<Rightarrow> rx \<Rightarrow> bool" where
  "regex_match s r = nullable (fold deriv s r)"

definition Deriv :: "char \<Rightarrow> string set \<Rightarrow> string set" where
  "Deriv c A = {s. c # s \<in> A}"

lemma nullable_iff: "nullable r \<longleftrightarrow> [] \<in> lang r"
  by (induction r) (auto simp: conc_def)

lemma Deriv_empty [simp]: "Deriv c {} = {}"
  by (simp add: Deriv_def)

lemma Deriv_Nil [simp]: "Deriv c {[]} = {}"
  by (simp add: Deriv_def)

lemma Deriv_union [simp]: "Deriv c (A \<union> B) = Deriv c A \<union> Deriv c B"
  by (auto simp: Deriv_def)

lemma Deriv_conc: "Deriv c (conc A B) = conc (Deriv c A) B \<union> (if [] \<in> A then Deriv c B else {})"
  by (auto simp: Deriv_def conc_def Cons_eq_append_conv)

lemma starof_Cons:
  "w \<in> starof A \<Longrightarrow> w = c # s \<Longrightarrow> \<exists>u v. s = u @ v \<and> c # u \<in> A \<and> v \<in> starof A"
proof (induction arbitrary: s rule: starof.induct)
  case (starof_app u v)
  then show ?case by (cases u) auto
qed simp

lemma Deriv_starof: "Deriv c (starof A) = conc (Deriv c A) (starof A)"
proof (intro subset_antisym subsetI)
  fix s assume "s \<in> Deriv c (starof A)"
  then show "s \<in> conc (Deriv c A) (starof A)"
    using starof_Cons [of "c # s" A c s] by (fastforce simp: Deriv_def conc_def)
next
  fix s assume "s \<in> conc (Deriv c A) (starof A)"
  then obtain u v where "s = u @ v" "c # u \<in> A" "v \<in> starof A"
    by (auto simp: Deriv_def conc_def)
  then have "(c # u) @ v \<in> starof A" by blast
  with \<open>s = u @ v\<close> show "s \<in> Deriv c (starof A)" by (simp add: Deriv_def)
qed

lemma lang_deriv: "lang (deriv c r) = Deriv c (lang r)"
proof (induction r)
  case (Cls rs)
  then show ?case by (auto simp: Deriv_def)
next
  case (Seq r s)
  then show ?case by (simp add: Deriv_conc nullable_iff)
next
  case (Star r)
  then show ?case by (simp add: Deriv_starof)
qed simp_all

theorem regex_match_iff: "regex_match s r \<longleftrightarrow> s \<in> lang r"
proof (induction s arbitrary: r)
  case Nil
  then show ?case by (simp add: regex_match_def nullable_iff)
next
  case (Cons c s)
  have "regex_match (c # s) r = regex_match s (deriv c r)"
    by (simp add: regex_match_def)
  with Cons show ?case by (simp add: lang_deriv Deriv_def)
qed

subsection \<open>Derived operators\<close>

definition Lit :: "char \<Rightarrow> rx" where
  "Lit c = Cls [(c, c)]"

definition Plus :: "rx \<Rightarrow> rx" where
  "Plus r = Seq r (Star r)"

primrec Rep :: "nat \<Rightarrow> rx \<Rightarrow> rx" where
  "Rep 0 r = One"
| "Rep (Suc n) r = Seq r (Rep n r)"

text \<open>\<open>r{0,n}\<close>\<close>

primrec UpTo :: "nat \<Rightarrow> rx \<Rightarrow> rx" where
  "UpTo 0 r = One"
| "UpTo (Suc n) r = Alt One (Seq r (UpTo n r))"

lemma in_cls_single [simp]: "in_cls [(a, a)] c \<longleftrightarrow> c = a"
  by (auto simp: in_cls_def dest: order_antisym)

lemma lang_Lit [simp]: "lang (Lit a) = {[a]}"
  by (auto simp: Lit_def)

lemma conc_singleton [simp]: "conc {[a]} B = (#) a ` B"
  by (auto simp: conc_def)

lemma conc_Nil [simp]: "conc {[]} B = B"
  by (auto simp: conc_def)

lemma conc_Cls: "s \<in> conc {[c] |c. P c} B \<longleftrightarrow> (\<exists>c w. s = c # w \<and> P c \<and> w \<in> B)"
proof
  assume "\<exists>c w. s = c # w \<and> P c \<and> w \<in> B"
  then obtain c w where "s = [c] @ w" "P c" "w \<in> B" by auto
  then show "s \<in> conc {[c] |c. P c} B" unfolding conc_def by blast
qed (auto simp: conc_def)

lemma conc_Cls_Cons [simp]: "c # w \<in> conc {[c] |c. P c} B \<longleftrightarrow> P c \<and> w \<in> B"
  by (simp add: conc_Cls)

lemma conc_Cls_Nil [simp]: "[] \<notin> conc {[c] |c. P c} B"
  by (simp add: conc_Cls)

lemma lang_Rep_Cls_iff: "s \<in> lang (Rep n (Cls rs)) \<longleftrightarrow> length s = n \<and> list_all (in_cls rs) s"
proof (induction n arbitrary: s)
  case (Suc n)
  then show ?case by (cases s) auto
qed auto

lemma lang_UpTo_Cls_iff: "s \<in> lang (UpTo n (Cls rs)) \<longleftrightarrow> length s \<le> n \<and> list_all (in_cls rs) s"
proof (induction n arbitrary: s)
  case (Suc n)
  then show ?case by (cases s) auto
qed auto

lemma starof_list_all: "w \<in> starof {[c] |c. P c} \<Longrightarrow> list_all P w"
  by (induction rule: starof.induct) auto

lemma list_all_starof: "list_all P w \<Longrightarrow> w \<in> starof {[c] |c. P c}"
proof (induction w)
  case (Cons c w)
  then have "[c] @ w \<in> starof {[c] |c. P c}" by (intro starof_app) auto
  then show ?case by simp
qed auto

lemma lang_Star_Cls_iff: "s \<in> lang (Star (Cls rs)) \<longleftrightarrow> list_all (in_cls rs) s"
  using starof_list_all [of s "in_cls rs"] list_all_starof [of "in_cls rs" s] by auto

lemma lang_Plus_Cls_iff: "s \<in> lang (Plus (Cls rs)) \<longleftrightarrow> s \<noteq> [] \<and> list_all (in_cls rs) s"
  using lang_Star_Cls_iff [of _ rs] unfolding Plus_def by (cases s) auto

text \<open>An expression that starts with a class consumes a byte of the class.\<close>

lemma lang_Seq_Cls_Cons [simp]:
  "c # w \<in> lang (Seq (Cls rs) r) \<longleftrightarrow> in_cls rs c \<and> w \<in> lang r"
  by simp

lemma in_lang_Seq: "s \<in> lang (Seq q r) \<longleftrightarrow> (\<exists>u v. s = u @ v \<and> u \<in> lang q \<and> v \<in> lang r)"
  by (auto simp: conc_def)

end
