(* ===== verification/Patterns.thy ===== *)
theory Patterns
  imports Regex
begin

text \<open>
  The four patterns of the program, as expressions of theory Regex, and what they accept:
  UUIDs and slugs (CatalogService.cpp), attribute codes (CatalogService.cpp) and bucket
  names (S3Storage.cpp).
\<close>

subsection \<open>UUIDs\<close>

definition hex_cls :: "(char \<times> char) list" where
  "hex_cls = [(CHR ''0'', CHR ''9''), (CHR ''a'', CHR ''f''), (CHR ''A'', CHR ''F'')]"

definition uuid_rx :: rx where
  "uuid_rx =
     Seq (Rep 8 (Cls hex_cls)) (Seq (Lit CHR ''-'')
     (Seq (Rep 4 (Cls hex_cls)) (Seq (Lit CHR ''-'')
     (Seq (Rep 4 (Cls hex_cls)) (Seq (Lit CHR ''-'')
     (Seq (Rep 4 (Cls hex_cls)) (Seq (Lit CHR ''-'')
     (Rep 12 (Cls hex_cls)))))))))"

definition uuid :: "string \<Rightarrow> bool" where
  "uuid value = regex_match value uuid_rx"

text \<open>The positions of a UUID: \<open>True\<close> for a hyphen, \<open>False\<close> for a hexadecimal digit.\<close>

definition uuid_template :: "bool list" where
  "uuid_template = replicate 8 False @ [True] @ replicate 4 False @ [True] @
     replicate 4 False @ [True] @ replicate 4 False @ [True] @ replicate 12 False"

definition fits :: "bool \<Rightarrow> char \<Rightarrow> bool" where
  "fits hyphen c = (if hyphen then c = CHR ''-'' else in_cls hex_cls c)"

lemma list_all2_replicate_fits:
  "list_all2 fits (replicate n False) s \<longleftrightarrow> length s = n \<and> list_all (in_cls hex_cls) s"
proof (induction n arbitrary: s)
  case (Suc n)
  then show ?case by (cases s) (auto simp: fits_def)
qed auto

lemma in_lang_Rep_hex:
  "s \<in> lang (Seq (Rep n (Cls hex_cls)) r) \<longleftrightarrow>
     (\<exists>u v. s = u @ v \<and> list_all2 fits (replicate n False) u \<and> v \<in> lang r)"
  unfolding in_lang_Seq lang_Rep_Cls_iff list_all2_replicate_fits by blast

lemma in_lang_hyphen:
  "s \<in> lang (Seq (Lit CHR ''-'') r) \<longleftrightarrow> (\<exists>u v. s = u @ v \<and> list_all2 fits [True] u \<and> v \<in> lang r)"
  unfolding in_lang_Seq by (auto simp: list_all2_Cons1 fits_def)

lemma list_all2_app:
  "list_all2 P (xs @ ys) s \<longleftrightarrow> (\<exists>u v. s = u @ v \<and> list_all2 P xs u \<and> list_all2 P ys v)"
proof
  assume "\<exists>u v. s = u @ v \<and> list_all2 P xs u \<and> list_all2 P ys v"
  then show "list_all2 P (xs @ ys) s" by (blast intro: list_all2_appendI)
qed (auto simp: list_all2_append1)

lemma uuid_iff_template: "uuid s \<longleftrightarrow> list_all2 fits uuid_template s"
  unfolding uuid_def regex_match_iff uuid_rx_def uuid_template_def list_all2_app
    in_lang_Rep_hex in_lang_hyphen lang_Rep_Cls_iff list_all2_replicate_fits [symmetric]
  by (rule refl)

lemma uuid_length: "uuid s \<Longrightarrow> length s = 36"
  by (drule uuid_iff_template [THEN iffD1], drule list_all2_lengthD) (simp add: uuid_template_def)

lemma uuid_nonempty: "uuid s \<Longrightarrow> s \<noteq> []"
  using uuid_length by fastforce

text \<open>Every byte of a UUID is a hexadecimal digit or a hyphen.\<close>

lemma uuid_bytes: "uuid s \<Longrightarrow> c \<in> set s \<Longrightarrow> c = CHR ''-'' \<or> in_cls hex_cls c"
  by (auto simp: uuid_iff_template list_all2_conv_all_nth in_set_conv_nth fits_def split: if_splits)

lemma to_lower_hex: "in_cls hex_cls c \<Longrightarrow> in_cls hex_cls (to_lower c)"
  by (auto simp: in_cls_def hex_cls_def to_lower_def Let_def of_char_of split: if_splits)

lemma to_lower_hyphen [simp]: "to_lower (CHR ''-'') = CHR ''-''"
  by (simp add: to_lower_def)

lemma uuid_lower: "uuid s \<Longrightarrow> uuid (lower s)"
proof -
  assume "uuid s"
  then have "list_all2 fits uuid_template s" by (simp add: uuid_iff_template)
  then have "list_all2 fits uuid_template (map to_lower s)"
    unfolding list.rel_map by (rule list_all2_mono) (auto simp: fits_def to_lower_hex split: if_splits)
  then show ?thesis by (simp add: uuid_iff_template lower_def)
qed

text \<open>The form in which PostgreSQL prints a UUID.\<close>

lemma uuid_no_nul: "uuid s \<Longrightarrow> CHR 0x00 \<notin> set s"
  using uuid_bytes [of s "CHR 0x00"] by (auto simp: in_cls_def hex_cls_def)

definition canonical :: "string \<Rightarrow> bool" where
  "canonical k \<longleftrightarrow> uuid k \<and> lower k = k"

lemma canonical_lower [simp]: "uuid s \<Longrightarrow> canonical (lower s)"
  by (simp add: canonical_def uuid_lower)

subsection \<open>Slugs\<close>

definition slug_cls :: "(char \<times> char) list" where
  "slug_cls = [(CHR ''a'', CHR ''z''), (CHR ''0'', CHR ''9'')]"

definition slug_rx :: rx where
  "slug_rx = Seq (Plus (Cls slug_cls)) (Star (Seq (Lit CHR ''-'') (Plus (Cls slug_cls))))"

definition slug :: "string \<Rightarrow> bool" where
  "slug value = regex_match value slug_rx"

text \<open>
  A reference scanner with two states: at the start or after a hyphen a letter or digit
  must follow; after a letter or digit anything of the alphabet may follow, or the end.
\<close>

fun slug_scan :: "bool \<Rightarrow> string \<Rightarrow> bool" where
  "slug_scan inside [] = inside"
| "slug_scan inside (c # cs) =
     (if inside \<and> c = CHR ''-'' then slug_scan False cs else in_cls slug_cls c \<and> slug_scan True cs)"

definition slug_tail :: rx where
  "slug_tail = Star (Seq (Lit CHR ''-'') (Plus (Cls slug_cls)))"

lemma hyphen_not_slug_cls [simp]: "\<not> in_cls slug_cls CHR ''-''"
  by (simp add: in_cls_def slug_cls_def)

lemma conc_assoc: "conc (conc A B) C = conc A (conc B C)"
  unfolding conc_def by (auto 0 4) (metis append_assoc)+

text \<open>What can still follow inside a word: more letters and digits, then the tail.\<close>

definition slug_inside :: rx where
  "slug_inside = Seq (Star (Cls slug_cls)) slug_tail"

lemma lang_slug_Cons: "c # w \<in> lang slug_rx \<longleftrightarrow> in_cls slug_cls c \<and> w \<in> lang slug_inside"
proof -
  have "lang slug_rx = conc (lang (Cls slug_cls)) (lang slug_inside)"
    by (simp add: slug_rx_def slug_inside_def slug_tail_def Plus_def conc_assoc)
  then show ?thesis by simp
qed

lemma lang_slug_Nil: "[] \<notin> lang slug_rx"
  by (simp add: slug_rx_def Plus_def nullable_iff [symmetric] del: lang.simps)

lemma lang_inside_Nil: "[] \<in> lang slug_inside"
  by (simp add: slug_inside_def slug_tail_def nullable_iff [symmetric] del: lang.simps)

lemma Deriv_slug_tail: "w \<in> Deriv c (lang slug_tail) \<longleftrightarrow> c = CHR ''-'' \<and> w \<in> lang slug_rx"
proof -
  have "Deriv c (lang slug_tail) =
      conc (Deriv c ((#) CHR ''-'' ` lang (Plus (Cls slug_cls)))) (lang slug_tail)"
    by (simp add: slug_tail_def Deriv_starof)
  also have "\<dots> = (if c = CHR ''-'' then lang slug_rx else {})"
    by (auto simp: Deriv_def conc_def slug_rx_def slug_tail_def)
  finally show ?thesis by simp
qed

lemma lang_inside_Cons: "c # w \<in> lang slug_inside \<longleftrightarrow>
  (c = CHR ''-'' \<and> w \<in> lang slug_rx) \<or> (in_cls slug_cls c \<and> w \<in> lang slug_inside)"
proof -
  have "c # w \<in> lang slug_inside \<longleftrightarrow> w \<in> Deriv c (lang slug_inside)"
    by (simp add: Deriv_def)
  also have "Deriv c (lang slug_inside) =
      conc (conc (Deriv c (lang (Cls slug_cls))) (lang (Star (Cls slug_cls)))) (lang slug_tail)
      \<union> Deriv c (lang slug_tail)"
    unfolding slug_inside_def by (auto simp: Deriv_conc Deriv_starof)
  also have "conc (conc (Deriv c (lang (Cls slug_cls))) (lang (Star (Cls slug_cls)))) (lang slug_tail)
      = (if in_cls slug_cls c then lang slug_inside else {})"
    by (auto simp: Deriv_def conc_def slug_inside_def)
  finally show ?thesis by (auto simp: Deriv_slug_tail)
qed

lemma slug_scan_lang: "slug_scan inside s \<longleftrightarrow> s \<in> lang (if inside then slug_inside else slug_rx)"
proof (induction inside s rule: slug_scan.induct)
  case (1 inside)
  then show ?case by (simp add: lang_slug_Nil lang_inside_Nil)
next
  case (2 inside c cs)
  then show ?case by (auto simp: lang_slug_Cons lang_inside_Cons)
qed

lemma slug_iff_scan: "slug s \<longleftrightarrow> slug_scan False s"
  by (simp add: slug_def regex_match_iff slug_scan_lang)

text \<open>No two hyphens in a row, none at either end.\<close>

lemma slug_scan_shape:
  "slug_scan inside s \<longleftrightarrow>
     list_all (\<lambda>c. c = CHR ''-'' \<or> in_cls slug_cls c) s \<and>
     (if s = [] then inside else last s \<noteq> CHR ''-'' \<and> (\<not> inside \<longrightarrow> hd s \<noteq> CHR ''-'')) \<and>
     \<not> sublist ''--'' s"
proof (induction inside s rule: slug_scan.induct)
  case (2 inside c cs)
  have "sublist ''--'' (c # cs) \<longleftrightarrow> c = CHR ''-'' \<and> cs \<noteq> [] \<and> hd cs = CHR ''-'' \<or> sublist ''--'' cs"
    by (cases cs) (auto simp: sublist_Cons_right)
  with 2 show ?case by (cases cs) auto
qed simp

lemma slug_nonempty: "slug s \<Longrightarrow> s \<noteq> []"
  by (auto simp: slug_iff_scan)

subsection \<open>Attribute codes and bucket names\<close>

definition code_head_cls :: "(char \<times> char) list" where
  "code_head_cls = [(CHR ''a'', CHR ''z'')]"

definition code_cls :: "(char \<times> char) list" where
  "code_cls = [(CHR ''a'', CHR ''z''), (CHR ''0'', CHR ''9''), (CHR ''_'', CHR ''_'')]"

definition attribute_code :: "string \<Rightarrow> bool" where
  "attribute_code value = regex_match value (Seq (Cls code_head_cls) (UpTo 39 (Cls code_cls)))"

definition bucket_end_cls :: "(char \<times> char) list" where
  "bucket_end_cls = [(CHR ''a'', CHR ''z''), (CHR ''0'', CHR ''9'')]"

definition bucket_cls :: "(char \<times> char) list" where
  "bucket_cls = [(CHR ''a'', CHR ''z''), (CHR ''0'', CHR ''9''), (CHR ''.'', CHR ''.''), (CHR ''-'', CHR ''-'')]"

definition bucket_name :: "string \<Rightarrow> bool" where
  "bucket_name value = regex_match value
     (Seq (Cls bucket_end_cls)
       (Seq (Seq (Cls bucket_cls) (UpTo 60 (Cls bucket_cls))) (Cls bucket_end_cls)))"

lemma attribute_code_iff:
  "attribute_code s \<longleftrightarrow> (\<exists>c w. s = c # w \<and> in_cls code_head_cls c \<and>
     length w \<le> 39 \<and> list_all (in_cls code_cls) w)"
  unfolding attribute_code_def regex_match_iff by (simp add: conc_Cls lang_UpTo_Cls_iff)

lemma bucket_name_iff:
  "bucket_name s \<longleftrightarrow> (\<exists>a w b. s = a # w @ [b] \<and> in_cls bucket_end_cls a \<and> in_cls bucket_end_cls b \<and>
     1 \<le> length w \<and> length w \<le> 61 \<and> list_all (in_cls bucket_cls) w)"
proof -
  have mid: "w \<in> lang (Seq (Cls bucket_cls) (UpTo 60 (Cls bucket_cls))) \<longleftrightarrow>
      1 \<le> length w \<and> length w \<le> 61 \<and> list_all (in_cls bucket_cls) w" for w
    by (cases w) (auto simp: lang_UpTo_Cls_iff)
  have inner: "v \<in> lang (Seq (Seq (Cls bucket_cls) (UpTo 60 (Cls bucket_cls))) (Cls bucket_end_cls)) \<longleftrightarrow>
      (\<exists>w b. v = w @ [b] \<and> in_cls bucket_end_cls b \<and>
        1 \<le> length w \<and> length w \<le> 61 \<and> list_all (in_cls bucket_cls) w)" for v
    unfolding in_lang_Seq [of v] mid by auto
  show ?thesis
  proof (cases s)
    case Nil
    then show ?thesis by (simp add: bucket_name_def regex_match_def)
  next
    case (Cons a v)
    then show ?thesis
      unfolding bucket_name_def regex_match_iff lang_Seq_Cls_Cons Cons inner by auto
  qed
qed

lemma bucket_name_length: "bucket_name s \<Longrightarrow> 3 \<le> length s \<and> length s \<le> 63"
  by (auto simp: bucket_name_iff)

end
