(* ===== verification/Json.thy ===== *)
theory Json
  imports Bee_Prelude
begin

text \<open>
  JSON values as the program holds them (\<open>Json::Value\<close>), and what it asks of JsonCpp.
  The value is the tagged union of JsonCpp's public \<open>ValueType\<close>: an integer is
  within the 64-bit ranges, a double is its 64 bits, an object is a list of members.
  JsonCpp itself is not part of the repository: every operation that converts, looks up,
  parses or prints is a field of the record \<open>jsoncpp\<close>, an argument of the definitions
  that use it, and \<open>jsoncpp_ok\<close> collects the documented behaviour that some theorems
  assume of it.
\<close>

datatype json =
    JNull
  | JBool bool
  | JInt int
  | JReal "64 word"
  | JStr string
  | JArr "json list"
  | JObj "(string \<times> json) list"

subsection \<open>The tag and the elements of a value\<close>

fun is_null :: "json \<Rightarrow> bool" where
  "is_null JNull = True" | "is_null _ = False"

fun is_bool :: "json \<Rightarrow> bool" where
  "is_bool (JBool _) = True" | "is_bool _ = False"

fun is_string :: "json \<Rightarrow> bool" where
  "is_string (JStr _) = True" | "is_string _ = False"

fun is_array :: "json \<Rightarrow> bool" where
  "is_array (JArr _) = True" | "is_array _ = False"

fun is_object :: "json \<Rightarrow> bool" where
  "is_object (JObj _) = True" | "is_object _ = False"

fun is_number :: "json \<Rightarrow> bool" where
  "is_number (JInt _) = True" | "is_number (JReal _) = True" | "is_number _ = False"

text \<open>\<open>for (const auto& x : value)\<close> visits these, and \<open>value.size()\<close> counts them.\<close>

fun elements :: "json \<Rightarrow> json list" where
  "elements (JArr xs) = xs"
| "elements (JObj m) = map snd m"
| "elements _ = []"

definition jsize :: "json \<Rightarrow> nat" where
  "jsize v = length (elements v)"

definition member :: "(string \<times> json) list \<Rightarrow> string \<Rightarrow> json" where
  "member m k = (case map_of m k of None \<Rightarrow> JNull | Some v \<Rightarrow> v)"

text \<open>Members of an object have distinct names, at every depth.\<close>

fun wf_json :: "json \<Rightarrow> bool" where
  "wf_json (JArr xs) = list_all wf_json xs"
| "wf_json (JObj m) = (distinct (map fst m) \<and> list_all (\<lambda>(_, v). wf_json v) m)"
| "wf_json (JInt i) = (- (2 ^ 63) \<le> i \<and> i < 2 ^ 64)"
| "wf_json _ = True"

lemma is_string_iff: "is_string v \<longleftrightarrow> (\<exists>s. v = JStr s)"
  by (cases v) auto

lemma is_array_iff: "is_array v \<longleftrightarrow> (\<exists>xs. v = JArr xs)"
  by (cases v) auto

lemma is_object_iff: "is_object v \<longleftrightarrow> (\<exists>m. v = JObj m)"
  by (cases v) auto

lemma is_bool_iff: "is_bool v \<longleftrightarrow> (\<exists>b. v = JBool b)"
  by (cases v) auto

lemma is_null_iff: "is_null v \<longleftrightarrow> v = JNull"
  by (cases v) auto

lemmas tag_iffs = is_string_iff is_array_iff is_object_iff is_bool_iff is_null_iff

subsection \<open>JsonCpp\<close>

record jsoncpp =
  get_at :: "json \<Rightarrow> string \<Rightarrow> json res"            \<comment> \<open>\<open>value[key]\<close>\<close>
  set_at :: "json \<Rightarrow> string \<Rightarrow> json \<Rightarrow> json res" \<comment> \<open>\<open>value[key] = x\<close>\<close>
  as_string :: "json \<Rightarrow> string res"
  as_bool :: "json \<Rightarrow> bool res"
  is_int :: "json \<Rightarrow> bool"
  as_int :: "json \<Rightarrow> int res"
  is_int64 :: "json \<Rightarrow> bool"
  as_int64 :: "json \<Rightarrow> int res"
  is_member :: "json \<Rightarrow> string \<Rightarrow> bool res"
  member_names :: "json \<Rightarrow> string list res"
  parse_json :: "string \<Rightarrow> json option"             \<comment> \<open>\<open>parseFromStream\<close>\<close>
  print_json :: "json \<Rightarrow> string"                     \<comment> \<open>\<open>writeString\<close>\<close>

text \<open>
  What JsonCpp documents: members of an object, null for an absent one or for a null value,
  and a \<open>Json::LogicError\<close> (a \<open>std::exception\<close>) when a value of another type is
  indexed; conversions that return the payload of a value of their own type; the range of
  the integer tests on integers.
\<close>

definition jsoncpp_ok :: "jsoncpp \<Rightarrow> bool" where
  "jsoncpp_ok J \<longleftrightarrow>
     (\<forall>m k. get_at J (JObj m) k = Inr (member m k)) \<and>
     (\<forall>k. get_at J JNull k = Inr JNull) \<and>
     (\<forall>v k. \<not> is_object v \<longrightarrow> \<not> is_null v \<longrightarrow> (\<exists>e. get_at J v k = Inl (StdError e))) \<and>
     (\<forall>m k x. set_at J (JObj m) k x = Inr (JObj (AList.update k x m))) \<and>
     (\<forall>s. as_string J (JStr s) = Inr s) \<and>
     (\<forall>b. as_bool J (JBool b) = Inr b) \<and>
     (\<forall>i. is_int J (JInt i) \<longleftrightarrow> - (2 ^ 31) \<le> i \<and> i < 2 ^ 31) \<and>
     (\<forall>i. is_int J (JInt i) \<longrightarrow> as_int J (JInt i) = Inr i) \<and>
     (\<forall>v. is_int J v \<longrightarrow> is_number v \<and> ok (as_int J v)) \<and>
     (\<forall>i. is_int64 J (JInt i) \<longleftrightarrow> - (2 ^ 63) \<le> i \<and> i < 2 ^ 63) \<and>
     (\<forall>i. is_int64 J (JInt i) \<longrightarrow> as_int64 J (JInt i) = Inr i) \<and>
     (\<forall>v. is_int64 J v \<longrightarrow> is_number v \<and> ok (as_int64 J v)) \<and>
     (\<forall>m k. is_member J (JObj m) k = Inr (k \<in> fst ` set m)) \<and>
     (\<forall>m. member_names J (JObj m) = Inr (map fst m)) \<and>
     (\<forall>t v. parse_json J t = Some v \<longrightarrow> wf_json v)"

named_theorems jsoncpp_rules \<open>documented behaviour of JsonCpp\<close>

lemma at_object [jsoncpp_rules]: "jsoncpp_ok J \<Longrightarrow> get_at J (JObj m) k = Inr (member m k)"
  by (simp add: jsoncpp_ok_def)

lemma at_null [jsoncpp_rules]: "jsoncpp_ok J \<Longrightarrow> get_at J JNull k = Inr JNull"
  by (simp add: jsoncpp_ok_def)

lemma at_other: "jsoncpp_ok J \<Longrightarrow> \<not> is_object v \<Longrightarrow> \<not> is_null v \<Longrightarrow> \<exists>e. get_at J v k = Inl (StdError e)"
  by (simp add: jsoncpp_ok_def)

lemma set_at_object [jsoncpp_rules]:
  "jsoncpp_ok J \<Longrightarrow> set_at J (JObj m) k x = Inr (JObj (AList.update k x m))"
  by (simp add: jsoncpp_ok_def)

lemma as_string_JStr [jsoncpp_rules]: "jsoncpp_ok J \<Longrightarrow> as_string J (JStr s) = Inr s"
  by (simp add: jsoncpp_ok_def)

lemma as_bool_JBool [jsoncpp_rules]: "jsoncpp_ok J \<Longrightarrow> as_bool J (JBool b) = Inr b"
  by (simp add: jsoncpp_ok_def)

lemma is_int_JInt [jsoncpp_rules]:
  "jsoncpp_ok J \<Longrightarrow> is_int J (JInt i) \<longleftrightarrow> - (2 ^ 31) \<le> i \<and> i < 2 ^ 31"
  by (simp add: jsoncpp_ok_def)

lemma as_int_JInt: "jsoncpp_ok J \<Longrightarrow> is_int J (JInt i) \<Longrightarrow> as_int J (JInt i) = Inr i"
  unfolding jsoncpp_ok_def by blast

lemma is_int64_JInt [jsoncpp_rules]:
  "jsoncpp_ok J \<Longrightarrow> is_int64 J (JInt i) \<longleftrightarrow> - (2 ^ 63) \<le> i \<and> i < 2 ^ 63"
  by (simp add: jsoncpp_ok_def)

lemma as_int64_JInt: "jsoncpp_ok J \<Longrightarrow> is_int64 J (JInt i) \<Longrightarrow> as_int64 J (JInt i) = Inr i"
  unfolding jsoncpp_ok_def by blast

lemma is_int64_number: "jsoncpp_ok J \<Longrightarrow> is_int64 J v \<Longrightarrow> is_number v"
  unfolding jsoncpp_ok_def by blast

lemma is_int64_as: "jsoncpp_ok J \<Longrightarrow> is_int64 J v \<Longrightarrow> ok (as_int64 J v)"
  unfolding jsoncpp_ok_def by blast

lemma is_int_as: "jsoncpp_ok J \<Longrightarrow> is_int J v \<Longrightarrow> ok (as_int J v)"
  unfolding jsoncpp_ok_def by blast

lemma is_member_object [jsoncpp_rules]:
  "jsoncpp_ok J \<Longrightarrow> is_member J (JObj m) k = Inr (k \<in> fst ` set m)"
  by (simp add: jsoncpp_ok_def)

lemma member_names_object [jsoncpp_rules]:
  "jsoncpp_ok J \<Longrightarrow> member_names J (JObj m) = Inr (map fst m)"
  by (simp add: jsoncpp_ok_def)

lemma parse_wf: "jsoncpp_ok J \<Longrightarrow> parse_json J t = Some v \<Longrightarrow> wf_json v"
  unfolding jsoncpp_ok_def by blast

text \<open>Indexing succeeds on objects and null only.\<close>

lemma at_eq_Inr:
  "jsoncpp_ok J \<Longrightarrow> get_at J v k = Inr x \<longleftrightarrow>
     (\<exists>m. v = JObj m \<and> x = member m k) \<or> (v = JNull \<and> x = JNull)"
  using at_other [of J v k] by (cases v) (auto simp: jsoncpp_rules)

lemma at_cases:
  assumes "jsoncpp_ok J"
  obtains (object) m where "v = JObj m" "get_at J v k = Inr (member m k)"
    | (null) "v = JNull" "get_at J v k = Inr JNull"
    | (other) e where "\<not> is_object v" "\<not> is_null v" "get_at J v k = Inl (StdError e)"
  using at_other [OF assms, of v k] assms by (cases v) (auto simp: jsoncpp_rules)

lemma member_update [simp]:
  "member (AList.update k x m) k' = (if k' = k then x else member m k')"
  by (simp add: member_def update_conv)

lemma member_Nil [simp]: "member [] k = JNull"
  by (simp add: member_def)

lemma member_Cons [simp]: "member ((k', v) # m) k = (if k = k' then v else member m k)"
  by (simp add: member_def)

lemma member_absent: "k \<notin> fst ` set m \<Longrightarrow> member m k = JNull"
  by (simp add: member_def map_of_eq_None_iff [THEN iffD2])

subsection \<open>platform/Json.hpp\<close>

definition encode :: "jsoncpp \<Rightarrow> json \<Rightarrow> string" where
  "encode J value = print_json J value"

definition decode :: "jsoncpp \<Rightarrow> string \<Rightarrow> json res" where
  "decode J text = (case parse_json J text of None \<Rightarrow> Inl (StdError ''Invalid JSON'') | Some value \<Rightarrow> Inr value)"

lemma decode_ok: "decode J t = Inr v \<longleftrightarrow> parse_json J t = Some v"
  by (auto simp: decode_def split: option.splits)

lemma decode_wf: "jsoncpp_ok J \<Longrightarrow> decode J t = Inr v \<Longrightarrow> wf_json v"
  by (auto simp: decode_ok dest: parse_wf)

end
