(* ===== verification/Chars.thy ===== *)
theory Chars
  imports Bee_Prelude
begin

text \<open>
  \<open>std::from_chars\<close> in base 10 and \<open>std::to_string\<close>, as Config.cpp and
  CatalogService.cpp use them: an optional minus sign for a signed type, digits, no
  leading white space and no plus sign; a number that does not fit the type is out of
  range.  The C++ result is the pair of an end pointer and an error code: here the value
  with the unread rest, or the error.
\<close>

datatype from_chars_result = Parsed int string | Invalid_Argument | Result_Out_Of_Range

definition is_digit :: "char \<Rightarrow> bool" where
  "is_digit c \<longleftrightarrow> 48 \<le> (of_char c :: nat) \<and> (of_char c :: nat) \<le> 57"

definition digits_value :: "string \<Rightarrow> nat" where
  "digits_value s = foldl (\<lambda>n c. 10 * n + (of_char c - 48)) 0 s"

definition from_chars :: "bool \<Rightarrow> int \<Rightarrow> int \<Rightarrow> string \<Rightarrow> from_chars_result" where
  "from_chars is_signed lo hi s =
     (let negative = is_signed \<and> s \<noteq> [] \<and> hd s = CHR ''-'';
          body = (if negative then tl s else s);
          ds = takeWhile is_digit body
      in if ds = [] then Invalid_Argument
         else let v = (if negative then - int (digits_value ds) else int (digits_value ds))
              in if lo \<le> v \<and> v \<le> hi then Parsed v (dropWhile is_digit body)
                 else Result_Out_Of_Range)"

definition from_chars_u32 :: "string \<Rightarrow> from_chars_result" where
  "from_chars_u32 = from_chars False 0 (2 ^ 32 - 1)"

definition from_chars_i64 :: "string \<Rightarrow> from_chars_result" where
  "from_chars_i64 = from_chars True (- (2 ^ 63)) (2 ^ 63 - 1)"

text \<open>A decimal numeral: digits only, at least one.\<close>

definition numeral_string :: "string \<Rightarrow> bool" where
  "numeral_string s \<longleftrightarrow> s \<noteq> [] \<and> list_all is_digit s"

lemma digits_value_snoc: "digits_value (s @ [c]) = 10 * digits_value s + (of_char c - 48)"
  by (simp add: digits_value_def)

lemma of_char_digit: "d < 10 \<Longrightarrow> (of_char (char_of (48 + d :: nat)) :: nat) = 48 + d"
  by (simp add: of_char_of)

lemma is_digit_char_of: "d < 10 \<Longrightarrow> is_digit (char_of (48 + d :: nat))"
  by (simp add: is_digit_def of_char_digit)

lemma digits_value_digits: "digits_value (digits n) = n"
proof (induction n rule: digits.induct)
  case (1 n)
  show ?case
  proof (cases "n < 10")
    case True
    then show ?thesis by (subst digits.simps) (simp add: digits_value_def of_char_digit)
  next
    case False
    then have "digits n = digits (n div 10) @ [char_of (48 + n mod 10)]"
      by (subst digits.simps) simp
    with 1 False show ?thesis by (simp add: digits_value_snoc of_char_digit)
  qed
qed

lemma digits_numeral: "numeral_string (digits n)"
proof (induction n rule: digits.induct)
  case (1 n)
  show ?case
  proof (cases "n < 10")
    case True
    then show ?thesis by (subst digits.simps) (simp add: numeral_string_def is_digit_char_of)
  next
    case False
    then have "digits n = digits (n div 10) @ [char_of (48 + n mod 10)]"
      by (subst digits.simps) simp
    with 1 False show ?thesis by (simp add: numeral_string_def is_digit_char_of)
  qed
qed

lemma takeWhile_digits: "list_all is_digit s \<Longrightarrow> takeWhile is_digit s = s"
  by (induction s) auto

lemma dropWhile_digits: "dropWhile is_digit s = [] \<longleftrightarrow> list_all is_digit s"
  by (induction s) auto

text \<open>The whole input is read exactly when nothing but digits follows the sign.\<close>

lemma from_chars_unsigned_all:
  "from_chars False lo hi s = Parsed v [] \<longleftrightarrow>
     numeral_string s \<and> v = int (digits_value s) \<and> lo \<le> v \<and> v \<le> hi"
  by (cases "list_all is_digit s")
    (auto simp: from_chars_def numeral_string_def Let_def takeWhile_digits dropWhile_digits
      simp del: dropWhile_eq_Nil_conv)

lemma is_digit_not_minus [simp]: "\<not> is_digit CHR ''-''"
  by (simp add: is_digit_def)

lemma from_chars_signed_all:
  "from_chars True lo hi s = Parsed v [] \<longleftrightarrow>
     (numeral_string s \<and> v = int (digits_value s) \<or>
      (\<exists>ds. s = CHR ''-'' # ds \<and> numeral_string ds \<and> v = - int (digits_value ds))) \<and>
     lo \<le> v \<and> v \<le> hi"
proof (cases "s \<noteq> [] \<and> hd s = CHR ''-''")
  case True
  then obtain ds where s: "s = CHR ''-'' # ds" by (cases s) auto
  have "from_chars True lo hi s = Parsed v [] \<longleftrightarrow>
      from_chars False (- hi) (- lo) ds = Parsed (- v) []"
    unfolding s by (auto simp: from_chars_def Let_def)
  then show ?thesis
    unfolding from_chars_unsigned_all by (auto simp: s numeral_string_def)
next
  case False
  then have "from_chars True lo hi s = from_chars False lo hi s"
    by (auto simp: from_chars_def Let_def)
  with False show ?thesis by (auto simp: from_chars_unsigned_all)
qed

lemma from_chars_round_trip:
  "from_chars_u32 (digits n) = (if n < 2 ^ 32 then Parsed (int n) [] else Result_Out_Of_Range)"
proof -
  have "list_all is_digit (digits n)" using digits_numeral by (simp add: numeral_string_def)
  then show ?thesis
    by (auto simp: from_chars_u32_def from_chars_def Let_def digits_value_digits takeWhile_digits
        dropWhile_digits simp del: dropWhile_eq_Nil_conv)
qed

end
