(* ===== verification/Sample_Json.thy ===== *)
theory Sample_Json
  imports Json Chars
begin

text \<open>
  A small JSON library that meets \<open>jsoncpp_ok\<close>, to show that the documented behaviour the
  theorems assume of JsonCpp is consistent, and to evaluate examples.  Its text format is a
  tag followed by decimal lengths; it is not JSON text, which no definition depends on.
\<close>

definition number :: "nat \<Rightarrow> string" where
  "number n = digits n @ '';''"

definition read_number :: "string \<Rightarrow> (nat \<times> string) option" where
  "read_number s = (let ds = takeWhile is_digit s in
     if ds = [] then None
     else case dropWhile is_digit s of [] \<Rightarrow> None | _ # rest \<Rightarrow> Some (digits_value ds, rest))"

definition read_chars :: "string \<Rightarrow> (string \<times> string) option" where
  "read_chars s = (case read_number s of None \<Rightarrow> None
     | Some (n, rest) \<Rightarrow> if length rest < n then None else Some (take n rest, drop n rest))"

fun read_times :: "nat \<Rightarrow> (string \<Rightarrow> ('a \<times> string) option) \<Rightarrow> string \<Rightarrow> ('a list \<times> string) option" where
  "read_times 0 r s = Some ([], s)"
| "read_times (Suc n) r s = (case r s of None \<Rightarrow> None
     | Some (x, t) \<Rightarrow> (case read_times n r t of None \<Rightarrow> None | Some (xs, u) \<Rightarrow> Some (x # xs, u)))"

fun show_json :: "json \<Rightarrow> string" where
  "show_json JNull = ''n''"
| "show_json (JBool b) = (if b then ''t'' else ''f'')"
| "show_json (JInt i) = (if i < 0 then ''m'' @ number (nat (- i)) else ''i'' @ number (nat i))"
| "show_json (JReal w) = ''r'' @ number (unat w)"
| "show_json (JStr s) = ''s'' @ number (length s) @ s"
| "show_json (JArr xs) = ''a'' @ number (length xs) @ concat (map show_json xs)"
| "show_json (JObj m) = ''o'' @ number (length m) @ concat (map (\<lambda>(k, v). number (length k) @ k @ show_json v) m)"

fun read_json :: "nat \<Rightarrow> string \<Rightarrow> (json \<times> string) option" where
  "read_json 0 s = None"
| "read_json (Suc n) s = (case s of [] \<Rightarrow> None | c # r \<Rightarrow>
     if c = CHR ''n'' then Some (JNull, r)
     else if c = CHR ''t'' then Some (JBool True, r)
     else if c = CHR ''f'' then Some (JBool False, r)
     else if c = CHR ''s'' then map_option (\<lambda>(x, t). (JStr x, t)) (read_chars r)
     else case read_number r of None \<Rightarrow> None | Some (k, t) \<Rightarrow>
       if c = CHR ''m'' then Some (JInt (- int k), t)
       else if c = CHR ''i'' then Some (JInt (int k), t)
       else if c = CHR ''r'' then Some (JReal (word_of_nat k), t)
       else if c = CHR ''a'' then map_option (\<lambda>(xs, u). (JArr xs, u)) (read_times k (read_json n) t)
       else map_option (\<lambda>(m, u). (JObj m, u)) (read_times k (\<lambda>s. case read_chars s of None \<Rightarrow> None
              | Some (key, v) \<Rightarrow> map_option (\<lambda>(x, u). ((key, x), u)) (read_json n v)) t))"

lemma digits_split:
  "takeWhile is_digit (digits n @ CHR '';'' # rest) = digits n"
  "dropWhile is_digit (digits n @ CHR '';'' # rest) = CHR '';'' # rest"
proof -
  have all: "\<And>c. c \<in> set (digits n) \<Longrightarrow> is_digit c"
    using digits_numeral [of n] by (auto simp: numeral_string_def list_all_iff)
  have stop: "\<not> is_digit CHR '';''" by (simp add: is_digit_def)
  show "takeWhile is_digit (digits n @ CHR '';'' # rest) = digits n" using all stop
    by (subst takeWhile_append2) auto
  show "dropWhile is_digit (digits n @ CHR '';'' # rest) = CHR '';'' # rest" using all stop
    by (subst dropWhile_append2) auto
qed

lemma read_number [simp]: "read_number (number n @ rest) = Some (n, rest)"
  by (simp add: read_number_def number_def digits_split digits_value_digits)

lemma read_chars [simp]: "read_chars (number (length s) @ s @ rest) = Some (s, rest)"
  by (simp add: read_chars_def)

lemma read_times:
  "(\<And>x rest. x \<in> set xs \<Longrightarrow> r (f x @ rest) = Some (x, rest)) \<Longrightarrow>
     read_times (length xs) r (concat (map f xs) @ rest) = Some (xs, rest)"
  by (induction xs) auto

lemma length_concat: "x \<in> set xs \<Longrightarrow> length (f x) \<le> length (concat (map f xs))"
  by (induction xs) auto

lemma read_json: "length (show_json v) \<le> n \<Longrightarrow> read_json n (show_json v @ rest) = Some (v, rest)"
proof (induction v arbitrary: n rest rule: show_json.induct)
  case (6 xs)
  then obtain k where n: "n = Suc k" by (cases n) auto
  have "read_json k (show_json x @ rest') = Some (x, rest')" if "x \<in> set xs" for x rest'
    using 6 that length_concat [of x xs show_json] by (simp add: n)
  then show ?case by (simp add: n read_times)
next
  case (7 m)
  then obtain k where n: "n = Suc k" by (cases n) auto
  have "read_json k (show_json x @ rest') = Some (x, rest')" if "(key, x) \<in> set m" for key x rest'
    using 7 that length_concat [of "(key, x)" m "\<lambda>(k, v). number (length k) @ k @ show_json v"]
    by (force simp: n)
  then show ?case by (auto simp: n intro!: read_times)
next
  case (3 i) then show ?case by (cases n) (auto split: if_splits)
next
  case 1 then show ?case by (cases n) auto
next
  case (2 b) then show ?case by (cases n) (auto split: if_splits)
next
  case (4 w) then show ?case by (cases n) auto
next
  case (5 s) then show ?case by (cases n) auto
qed

definition sample_parse :: "string \<Rightarrow> json option" where
  "sample_parse t = (case read_json (length t) t of
     Some (v, []) \<Rightarrow> if wf_json v then Some v else None | _ \<Rightarrow> None)"

lemma sample_parse_show: "wf_json v \<Longrightarrow> sample_parse (show_json v) = Some v"
  using read_json [of v "length (show_json v)" "[]"] by (simp add: sample_parse_def)

lemma sample_parse_wf: "sample_parse t = Some v \<Longrightarrow> wf_json v"
  by (auto simp: sample_parse_def split: option.splits prod.splits list.splits if_splits)

definition not_object :: exn where
  "not_object = StdError ''not an object''"

definition not_convertible :: exn where
  "not_convertible = StdError ''not convertible''"

definition sample_jsoncpp :: jsoncpp where
  "sample_jsoncpp = \<lparr>
     get_at = (\<lambda>v k. case v of JObj m \<Rightarrow> Inr (member m k) | JNull \<Rightarrow> Inr JNull | _ \<Rightarrow> Inl not_object),
     set_at = (\<lambda>v k x. case v of JObj m \<Rightarrow> Inr (JObj (AList.update k x m)) | JNull \<Rightarrow> Inr (JObj [(k, x)])
                 | _ \<Rightarrow> Inl not_object),
     as_string = (\<lambda>v. case v of JStr s \<Rightarrow> Inr s | JNull \<Rightarrow> Inr [] | JBool b \<Rightarrow> Inr (if b then ''true'' else ''false'')
                 | _ \<Rightarrow> Inl not_convertible),
     as_bool = (\<lambda>v. case v of JBool b \<Rightarrow> Inr b | JNull \<Rightarrow> Inr False | JInt i \<Rightarrow> Inr (i \<noteq> 0) | _ \<Rightarrow> Inl not_convertible),
     is_int = (\<lambda>v. case v of JInt i \<Rightarrow> - (2 ^ 31) \<le> i \<and> i < 2 ^ 31 | _ \<Rightarrow> False),
     as_int = (\<lambda>v. case v of JInt i \<Rightarrow> Inr i | _ \<Rightarrow> Inl not_convertible),
     is_int64 = (\<lambda>v. case v of JInt i \<Rightarrow> - (2 ^ 63) \<le> i \<and> i < 2 ^ 63 | _ \<Rightarrow> False),
     as_int64 = (\<lambda>v. case v of JInt i \<Rightarrow> Inr i | _ \<Rightarrow> Inl not_convertible),
     is_member = (\<lambda>v k. case v of JObj m \<Rightarrow> Inr (list_ex (\<lambda>(k', _). k' = k) m) | JNull \<Rightarrow> Inr False | _ \<Rightarrow> Inl not_object),
     member_names = (\<lambda>v. case v of JObj m \<Rightarrow> Inr (map fst m) | JNull \<Rightarrow> Inr [] | _ \<Rightarrow> Inl not_object),
     parse_json = sample_parse, print_json = show_json\<rparr>"

lemma sample_jsoncpp_ok: "jsoncpp_ok sample_jsoncpp"
  unfolding jsoncpp_ok_def
proof (intro conjI allI)
  fix m :: "(string \<times> json) list" and k :: string
  show "is_member sample_jsoncpp (JObj m) k = Inr (k \<in> fst ` set m)"
    by (force simp: sample_jsoncpp_def list_ex_iff)
next
  fix t v show "parse_json sample_jsoncpp t = Some v \<longrightarrow> wf_json v"
    by (auto simp: sample_jsoncpp_def intro: sample_parse_wf)
qed (auto simp: sample_jsoncpp_def not_object_def split: json.splits)

end
