(* ===== verification/Database.thy ===== *)
theory Database
  imports Patterns Sample_Json "HOL-Library.List_Lexorder" "HOL-Library.Char_ord"
begin

text \<open>
  The PostgreSQL database of database/migrations: one list of rows per table, the clock that
  \<open>now()\<close> reads, and a counter for \<open>gen_random_uuid()\<close>.  A SQL statement is a function
  that returns its result with the new database, or an error that leaves the database as it
  was: every statement the program sends is one transaction.  PostgreSQL's input and output
  routines are not part of the repository: they are fields of the record \<open>postgres\<close>.
\<close>

subsection \<open>Rows\<close>

record user_row =
  u_id :: string
  u_email :: string
  u_password_hash :: string
  u_active :: bool

record session_row =
  s_token_hash :: string
  s_user :: string
  s_expires :: int

record throttle_row =
  th_key :: string
  th_attempts :: int
  th_resets :: int

record brand_row =
  b_id :: string
  b_slug :: string
  b_name :: string

record category_row =
  c_id :: string
  c_parent :: "string option"     \<comment> \<open>\<open>parent_id\<close>: no statement of the program writes it\<close>
  c_slug :: string

record category_text =
  ct_category :: string
  ct_locale :: string
  ct_name :: string

record attribute_row =
  d_code :: string
  d_name_ru :: string
  d_name_ro :: string
  d_unit :: string

record product_row =
  p_id :: string
  p_slug :: string
  p_brand :: "string option"
  p_status :: string
  p_revision :: int
  p_created :: int
  p_updated :: int

record translation_row =
  t_product :: string
  t_locale :: string
  t_name :: string
  t_description :: string
  t_seo_title :: string
  t_seo_description :: string

record variant_row =
  v_id :: string
  v_product :: string
  v_sku :: string
  v_name :: string
  v_price :: int
  v_active :: bool

record value_row =
  a_variant :: string
  a_code :: string
  a_value :: string

record image_row =
  i_product :: string
  i_media :: string
  i_position :: int

record media_row =
  m_id :: string
  m_creator :: string
  m_created :: int
  m_width :: int
  m_height :: int

record audit_row =
  l_actor :: string
  l_action :: string
  l_entity :: string
  l_request :: string
  l_changes :: json
  l_created :: int

record db =
  clock :: int                    \<comment> \<open>microseconds\<close>
  uuid_counter :: nat
  users :: "user_row list"
  user_roles :: "(string \<times> string) list"
  role_permissions :: "(string \<times> string) list"
  session_rows :: "session_row list"
  throttles :: "throttle_row list"
  brands :: "brand_row list"
  categories :: "category_row list"
  category_texts :: "category_text list"
  attributes :: "attribute_row list"
  products :: "product_row list"
  product_categories :: "(string \<times> string) list"
  product_texts :: "translation_row list"
  variants :: "variant_row list"
  attribute_values :: "value_row list"
  media :: "media_row list"
  images :: "image_row list"
  audit :: "audit_row list"

definition empty_db :: db where
  "empty_db = \<lparr>clock = 0, uuid_counter = 0, users = [], user_roles = [],
     role_permissions = [], session_rows = [], throttles = [], brands = [], categories = [],
     category_texts = [], attributes = [], products = [], product_categories = [],
     product_texts = [], variants = [], attribute_values = [], media = [], images = [], audit = []\<rparr>"

subsection \<open>Statements and their errors\<close>

text \<open>
  A text parameter is sent to PostgreSQL as a C string: a statement that compares or stores one
  applies \<open>c_str\<close> to it.  Parameters that the code has checked or made itself (digests, UUIDs, locales,
  orders) and printed JSON have no NUL; \<open>uuid_in\<close> and \<open>jsonb_in\<close> take the string as the code passes it.
\<close>

datatype sql_error =
    Unique_Violation
  | Foreign_Key_Violation
  | Check_Violation
  | Invalid_Text_Representation
  | Invalid_Parameter_Value
  | Not_Null_Violation
  | Other_Sql_Error

type_synonym 'a sql = "sql_error + 'a"
type_synonym 'a statement = "db \<Rightarrow> ('a \<times> db) sql"

text \<open>
  What the client of one statement sees: the reply, a refusal before it ran (no connection, a
  timeout in the queue), or a lost reply to a statement that did run.
\<close>

datatype fate = Served | Refused | Lost

text \<open>
  What libcurl sees of one S3 transfer: no handle, no connection, a connection broken before
  the status line, one broken after some chunks of the answer, or the whole answer.
\<close>

datatype transfer = No_Handle | No_Connection | Cut_Early | Cut_After nat | Answered

record world =
  w_db :: db
  w_fates :: "fate list"          \<comment> \<open>the next statements; after the list all are served\<close>
  w_objects :: "(string \<times> string) list"  \<comment> \<open>the S3 service: objects by URL\<close>
  w_transfers :: "transfer list"  \<comment> \<open>the next S3 transfers; after the list all are answered\<close>
  w_random :: nat                 \<comment> \<open>random values and UUIDs drawn so far\<close>

definition exec_sql :: "'a statement \<Rightarrow> (world, 'a) act" where
  "exec_sql stmt w =
     (let fate = (case w_fates w of [] \<Rightarrow> Served | f # _ \<Rightarrow> f);
          w' = w\<lparr>w_fates := drop 1 (w_fates w)\<rparr>
      in if fate = Refused then (Inl (DbError ''refused''), w')
         else case stmt (w_db w) of
                Inl _ \<Rightarrow> (Inl (DbError ''failed''), w')
              | Inr (x, d) \<Rightarrow>
                  (if fate = Lost then Inl (DbError ''lost'') else Inr x, w'\<lparr>w_db := d\<rparr>))"

text \<open>The next random value, from a generator that is an argument.\<close>

definition draw :: "(nat \<Rightarrow> 'a) \<Rightarrow> (world, 'a) act" where
  "draw generator w = (Inr (generator (w_random w)), w\<lparr>w_random := Suc (w_random w)\<rparr>)"

subsection \<open>PostgreSQL's own functions\<close>

record postgres =
  jsonb_in :: "string \<Rightarrow> json option"     \<comment> \<open>\<open>$1::jsonb\<close>\<close>
  jsonb_out :: "json \<Rightarrow> string"           \<comment> \<open>\<open>x::text\<close>\<close>
  uuid_in :: "string \<Rightarrow> string option"    \<comment> \<open>\<open>x::uuid\<close>, canonical text\<close>
  bigint_in :: "string \<Rightarrow> int sql"        \<comment> \<open>\<open>x::bigint\<close>: not a number, or out of range\<close>
  boolean_in :: "string \<Rightarrow> bool option"
  lower_text :: "string \<Rightarrow> string"         \<comment> \<open>\<open>lower(x)\<close>\<close>
  random_uuid :: "nat \<Rightarrow> string"           \<comment> \<open>\<open>gen_random_uuid()\<close>, n-th call\<close>
  collation_key :: "string \<Rightarrow> string"      \<comment> \<open>sort key of the database's collation\<close>
  fold_case :: "string \<Rightarrow> string"          \<comment> \<open>case folding of \<open>ILIKE\<close>\<close>
  text_search :: "string \<Rightarrow> string \<Rightarrow> bool"  \<comment> \<open>\<open>to_tsvector('simple', x) @@ plainto_tsquery('simple', q)\<close>\<close>

fun decimal_text :: "int \<Rightarrow> string" where
  "decimal_text i = (if i < 0 then CHR ''-'' # digits (nat (- i)) else digits (nat i))"

text \<open>Strings that a jsonb value can hold: no NUL character anywhere.\<close>

fun storable :: "json \<Rightarrow> bool" where
  "storable (JStr s) = (CHR 0x00 \<notin> set s)"
| "storable (JArr xs) = list_all storable xs"
| "storable (JObj m) = list_all (\<lambda>(k, v). CHR 0x00 \<notin> set k \<and> storable v) m"
| "storable _ = True"

text \<open>
  Documented behaviour: a jsonb value keeps the JSON document sent to it, a document with a NUL
  character is refused, and a value prints as a document that reads back; a UUID in its usual form is
  normalised to lower case; numbers and booleans are read back from their text.  Three details are
  taken as kept that PostgreSQL and JsonCpp do not keep: the order of an object's members, which
  nothing observes; the bytes of a string that is not UTF-8, which JsonCpp prints as replacement
  characters; and doubles that print differently as \<open>numeric\<close> (a negative zero, integral
  values beyond 64 bits) or are not JSON numbers.  No string or number that PostgreSQL itself
  produces is of that kind, and the only number a draft may hold is a price from 0 to 100000000.
\<close>

definition postgres_ok :: "jsoncpp \<Rightarrow> postgres \<Rightarrow> bool" where
  "postgres_ok J P \<longleftrightarrow>
     (\<forall>v. wf_json v \<longrightarrow> jsonb_in P (print_json J v) = (if storable v then Some v else None)) \<and>
     (\<forall>v. wf_json v \<longrightarrow> parse_json J (jsonb_out P v) = Some v) \<and>
     (\<forall>s. uuid s \<longrightarrow> uuid_in P s = Some (lower s)) \<and>
     (\<forall>i. - (2 ^ 63) \<le> i \<longrightarrow> i < 2 ^ 63 \<longrightarrow> bigint_in P (decimal_text i) = Inr i) \<and>
     boolean_in P ''true'' = Some True \<and> boolean_in P ''false'' = Some False"

text \<open>\<open>gen_random_uuid()\<close> returns UUIDs.\<close>

definition uuids_ok :: "postgres \<Rightarrow> bool" where
  "uuids_ok P \<longleftrightarrow> (\<forall>n. canonical (random_uuid P n))"

lemma jsonb_in_print:
  "postgres_ok J P \<Longrightarrow> wf_json v \<Longrightarrow> jsonb_in P (print_json J v) = (if storable v then Some v else None)"
  by (simp add: postgres_ok_def)

subsection \<open>Reading jsonb values\<close>

text \<open>\<open>value -> key\<close> and \<open>value ->> key\<close>; \<open>None\<close> is SQL's NULL.\<close>

fun field :: "json \<Rightarrow> string \<Rightarrow> json option" where
  "field (JObj m) k = map_of m k"
| "field _ k = None"

fun json_text :: "postgres \<Rightarrow> json \<Rightarrow> string option" where
  "json_text P JNull = None"
| "json_text P (JStr s) = Some s"
| "json_text P (JBool b) = Some (if b then ''true'' else ''false'')"
| "json_text P (JInt i) = Some (decimal_text i)"
| "json_text P v = Some (jsonb_out P v)"

definition field_text :: "postgres \<Rightarrow> json \<Rightarrow> string \<Rightarrow> string option" where
  "field_text P v k = (case field v k of None \<Rightarrow> None | Some x \<Rightarrow> json_text P x)"

text \<open>
  A cast: NULL stays NULL, text that does not parse is an error.  For a \<open>bigint\<close> the error is
  PostgreSQL's: a number out of range is not the error of a text that is no number.
\<close>

definition cast :: "(string \<Rightarrow> 'a option) \<Rightarrow> string option \<Rightarrow> 'a option sql" where
  "cast parser t = (case t of None \<Rightarrow> Inr None
     | Some s \<Rightarrow> (case parser s of None \<Rightarrow> Inl Invalid_Text_Representation | Some x \<Rightarrow> Inr (Some x)))"

definition cast_bigint :: "postgres \<Rightarrow> string option \<Rightarrow> int option sql" where
  "cast_bigint P t = (case t of None \<Rightarrow> Inr None | Some s \<Rightarrow> bind_res (bigint_in P s) (\<lambda>i. Inr (Some i)))"

definition not_null :: "'a option \<Rightarrow> 'a sql" where
  "not_null x = (case x of None \<Rightarrow> Inl Not_Null_Violation | Some y \<Rightarrow> Inr y)"

text \<open>\<open>jsonb_array_elements_text\<close>, \<open>jsonb_array_elements\<close> and \<open>jsonb_each\<close>.\<close>

definition array_elements :: "json option \<Rightarrow> json list sql" where
  "array_elements v = (case v of None \<Rightarrow> Inr [] | Some (JArr xs) \<Rightarrow> Inr xs | _ \<Rightarrow> Inl Invalid_Parameter_Value)"

definition object_members :: "json option \<Rightarrow> (string \<times> json) list sql" where
  "object_members v = (case v of None \<Rightarrow> Inr [] | Some (JObj m) \<Rightarrow> Inr m | _ \<Rightarrow> Inl Invalid_Parameter_Value)"

text \<open>\<open>value ? key\<close>: a member of an object, a string among the elements of an array, the string itself.\<close>

fun has_key :: "json \<Rightarrow> string \<Rightarrow> bool" where
  "has_key (JObj m) k \<longleftrightarrow> map_of m k \<noteq> None"
| "has_key (JArr xs) k \<longleftrightarrow> JStr k \<in> set xs"
| "has_key (JStr s) k \<longleftrightarrow> s = k"
| "has_key v k \<longleftrightarrow> False"

lemma no_key_no_field: "\<not> has_key v k \<Longrightarrow> field v k = None"
  by (cases v) auto

lemma cast_bigint_eq_Inr: "cast_bigint P t = Inr r \<longleftrightarrow>
    (t = None \<and> r = None) \<or> (\<exists>s i. t = Some s \<and> bigint_in P s = Inr i \<and> r = Some i)"
  by (auto simp: cast_bigint_def bind_res_eq_Inr split: option.splits)

lemma cast_eq_Inr: "cast parser t = Inr r \<longleftrightarrow>
    (t = None \<and> r = None) \<or> (\<exists>s x. t = Some s \<and> parser s = Some x \<and> r = Some x)"
  by (auto simp: cast_def split: option.splits)

lemma not_null_eq_Inr [simp]: "not_null x = Inr y \<longleftrightarrow> x = Some y"
  by (auto simp: not_null_def split: option.splits)

lemma exec_sql_served:
  "w_fates w = [] \<Longrightarrow> exec_sql stmt w =
     (case stmt (w_db w) of Inl _ \<Rightarrow> (Inl (DbError ''failed''), w)
      | Inr (x, d) \<Rightarrow> (Inr x, w\<lparr>w_db := d\<rparr>))"
  by (simp add: exec_sql_def split: sum.splits prod.splits)

text \<open>A result comes only from a statement that succeeded; a failure changes nothing, or all.\<close>

lemma exec_sql_Inr:
  "exec_sql stmt w = (Inr x, w') \<Longrightarrow>
     \<exists>d. stmt (w_db w) = Inr (x, d) \<and> w' = w\<lparr>w_fates := drop 1 (w_fates w), w_db := d\<rparr>"
  by (auto simp: exec_sql_def Let_def split: sum.splits prod.splits if_splits list.splits)

lemma exec_sql_Inl:
  "exec_sql stmt w = (Inl e, w') \<Longrightarrow>
     (\<exists>m. e = DbError m) \<and> w_objects w' = w_objects w \<and>
     (w_db w' = w_db w \<or> (\<exists>x. stmt (w_db w) = Inr (x, w_db w')))"
  by (auto simp: exec_sql_def Let_def split: sum.splits prod.splits if_splits list.splits)

lemma exec_sql_fst_Inl: "fst (exec_sql stmt w) = Inl e \<Longrightarrow> \<exists>m. e = DbError m"
  using exec_sql_Inl [of stmt w e "snd (exec_sql stmt w)"] by (cases "exec_sql stmt w") auto

lemma exec_sql_keeps:
  assumes "\<And>d x d'. P d \<Longrightarrow> stmt d = Inr (x, d') \<Longrightarrow> P d'"
  shows "keeps (\<lambda>w. P (w_db w)) (exec_sql stmt)"
proof (rule keepsI)
  fix w :: world assume "P (w_db w)"
  then show "P (w_db (snd (exec_sql stmt w)))"
    by (auto simp: exec_sql_def Let_def split: sum.splits prod.splits if_splits list.splits intro: assms)
qed

lemma exec_sql_objects: "w_objects (snd (exec_sql stmt w)) = w_objects w"
  by (auto simp: exec_sql_def Let_def split: sum.splits prod.splits if_splits list.splits)

subsection \<open>A sample instance\<close>

text \<open>
  PostgreSQL functions that meet \<open>postgres_ok\<close> with the sample JSON library: the n-th random
  UUID ends in the last twelve digits of the n-th numeral, sort keys and case folding are those of the C locale, and a
  search finds a word in the list of words.
\<close>

fun words :: "string \<Rightarrow> string \<Rightarrow> string list" where
  "words w [] = [w]"
| "words w (c # s) = (if c = CHR '' '' then w # words [] s else words (w @ [c]) s)"

definition sample_uuid :: "nat \<Rightarrow> string" where
  "sample_uuid n = (let ds = digits n in
     ''00000000-0000-4000-8000-'' @ replicate (12 - length ds) CHR ''0'' @ drop (length ds - 12) ds)"

definition sample_postgres :: postgres where
  "sample_postgres = \<lparr>
     jsonb_in = (\<lambda>s. case sample_parse s of Some v \<Rightarrow> if storable v then Some v else None | None \<Rightarrow> None), jsonb_out = show_json,
     uuid_in = (\<lambda>s. if uuid s then Some (lower s) else None),
     bigint_in = (\<lambda>s. case from_chars_i64 s of Parsed i [] \<Rightarrow> Inr i
       | Result_Out_Of_Range \<Rightarrow> Inl Other_Sql_Error | _ \<Rightarrow> Inl Invalid_Text_Representation),
     boolean_in = (\<lambda>s. if s = ''true'' then Some True else if s = ''false'' then Some False else None),
     lower_text = lower, random_uuid = sample_uuid, collation_key = (\<lambda>s. s), fold_case = lower,
     text_search = (\<lambda>t q. q \<in> set (words [] t))\<rparr>"

lemma from_chars_decimal:
  assumes "- (2 ^ 63) \<le> i" "i < 2 ^ 63"
  shows "from_chars_i64 (decimal_text i) = Parsed i []"
  unfolding from_chars_i64_def from_chars_signed_all
  using assms by (auto simp: digits_numeral digits_value_digits)

lemma sample_postgres_ok: "postgres_ok sample_jsoncpp sample_postgres"
  unfolding postgres_ok_def
  by (auto simp: sample_postgres_def sample_jsoncpp_def sample_parse_show from_chars_decimal
      simp del: decimal_text.simps)

lemma sample_uuids_ok: "uuids_ok sample_postgres"
proof -
  have "canonical (sample_uuid n)" for n
  proof -
    let ?ds = "digits n"
    let ?tail = "replicate (12 - length ?ds) CHR ''0'' @ drop (length ?ds - 12) ?ds"
    have ds: "list_all is_digit ?tail"
      using digits_numeral [of n] by (auto simp: numeral_string_def list_all_iff is_digit_def dest: in_set_dropD)
    have hex: "is_digit c \<Longrightarrow> in_cls hex_cls c" "is_digit c \<Longrightarrow> to_lower c = c" for c
      by (auto simp: is_digit_def in_cls_def hex_cls_def to_lower_def Let_def)
    have "list_all2 fits (replicate 12 False) ?tail"
      unfolding list_all2_replicate_fits using ds hex(1) by (auto simp: list_all_iff)
    moreover have "list_all2 fits (take 24 uuid_template) ''00000000-0000-4000-8000-''"
      by code_simp
    moreover have "uuid_template = take 24 uuid_template @ replicate 12 False" by code_simp
    ultimately have "uuid (sample_uuid n)"
      unfolding uuid_iff_template sample_uuid_def Let_def by (metis list_all2_appendI)
    moreover have "map to_lower ?tail = ?tail"
      using ds hex(2) by (intro map_idI) (auto simp: list_all_iff)
    then have "lower (sample_uuid n) = sample_uuid n"
      by (simp add: sample_uuid_def lower_def Let_def to_lower_def)
    ultimately show ?thesis by (simp add: canonical_def)
  qed
  then show ?thesis by (simp add: uuids_ok_def sample_postgres_def)
qed

end
