(* ===== verification/Executor.thy ===== *)
theory Executor
  imports Bee_Prelude "HOL-Library.Multiset"
begin

text \<open>
  platform/Executor.hpp: a queue of at most 64 tasks, served by worker threads.  The mutex
  makes each critical section one step: \<open>submit\<close>; a worker's wait, which ends by taking
  the first task or by returning; the end of a task; the destructor raising \<open>stopping\<close>.
  The condition variable always waits with its predicate, so a worker that could go on is
  one whose step is enabled.  The fields \<open>accepted\<close>, \<open>taken\<close> and \<open>finished\<close> are
  history: they record the tasks in the order of these events and no step reads them.
\<close>

datatype 'a worker = Waiting | Running 'a | Returned

record 'a executor =
  queue :: "'a list"
  stopping :: bool
  workers :: "'a worker list"
  accepted :: "'a list"
  taken :: "'a list"
  finished :: "'a list"

definition executor_init :: "nat \<Rightarrow> 'a executor" where
  "executor_init n = \<lparr>queue = [], stopping = False, workers = replicate n Waiting,
     accepted = [], taken = [], finished = []\<rparr>"

definition submit :: "'a \<Rightarrow> 'a executor \<Rightarrow> bool \<times> 'a executor" where
  "submit task e =
     (if stopping e \<or> 64 \<le> length (queue e) then (False, e)
      else (True, e\<lparr>queue := queue e @ [task], accepted := accepted e @ [task]\<rparr>))"

text \<open>One turn of worker \<open>i\<close>; \<open>None\<close> when it is blocked on the condition or has returned.\<close>

definition worker_step :: "nat \<Rightarrow> 'a executor \<Rightarrow> 'a executor option" where
  "worker_step i e =
     (case workers e ! i of
        Waiting \<Rightarrow>
          (case queue e of
             [] \<Rightarrow> if stopping e then Some (e\<lparr>workers := (workers e)[i := Returned]\<rparr>) else None
           | task # rest \<Rightarrow> Some (e\<lparr>queue := rest, taken := taken e @ [task],
                                  workers := (workers e)[i := Running task]\<rparr>))
      | Running task \<Rightarrow> Some (e\<lparr>finished := finished e @ [task], workers := (workers e)[i := Waiting]\<rparr>)
      | Returned \<Rightarrow> None)"

definition destroy :: "'a executor \<Rightarrow> 'a executor" where
  "destroy e = e\<lparr>stopping := True\<rparr>"

inductive exec_step :: "'a executor \<Rightarrow> 'a executor \<Rightarrow> bool" where
  submits: "exec_step e (snd (submit task e))"
| works: "i < length (workers e) \<Longrightarrow> worker_step i e = Some e' \<Longrightarrow> exec_step e e'"
| stops: "exec_step e (destroy e)"

inductive exec_reachable :: "nat \<Rightarrow> 'a executor \<Rightarrow> bool" for n where
  init: "exec_reachable n (executor_init n)"
| step: "exec_reachable n e \<Longrightarrow> exec_step e e' \<Longrightarrow> exec_reachable n e'"

inductive_cases exec_stepE: "exec_step e e'"

subsection \<open>The queue as an interface\<close>

text \<open>
  What \<open>dispatch\<close> relies on: an offer is refused exactly when the queue is closed or
  full, a refusal changes nothing, and an accepted task goes to the end.
\<close>

text \<open>A burst of offers: the refused tasks, in order, and the queue after it.\<close>

primrec offer_all :: "('t \<Rightarrow> 'q \<Rightarrow> bool \<times> 'q) \<Rightarrow> 't list \<Rightarrow> 'q \<Rightarrow> 't list \<times> 'q" where
  "offer_all offer [] q = ([], q)"
| "offer_all offer (t # ts) q =
     (case offer t q of (b, q') \<Rightarrow> case offer_all offer ts q' of (refused, r) \<Rightarrow>
        (if b then refused else t # refused, r))"

locale work_queue =
  fixes offer :: "'t \<Rightarrow> 'q \<Rightarrow> bool \<times> 'q"
    and pending :: "'q \<Rightarrow> 't list"
    and closed :: "'q \<Rightarrow> bool"
    and capacity :: nat
  assumes offer_accepts: "fst (offer t q) \<longleftrightarrow> \<not> closed q \<and> length (pending q) < capacity"
    and offer_appends: "fst (offer t q) \<Longrightarrow> pending (snd (offer t q)) = pending q @ [t]"
    and offer_refuses: "\<not> fst (offer t q) \<Longrightarrow> snd (offer t q) = q"
    and offer_closed: "closed (snd (offer t q)) = closed q"
begin

lemma offer_full: "closed q \<or> capacity \<le> length (pending q) \<Longrightarrow> offer t q = (False, q)"
  using offer_accepts [of t q] offer_refuses [of t q] by (cases "offer t q") auto

lemma offer_all_full:
  "closed q \<or> capacity \<le> length (pending q) \<Longrightarrow> offer_all offer ts q = (ts, q)"
  by (induction ts) (auto simp: offer_full)

text \<open>A burst of offers: the first ones fill the free places in order, the others are refused.\<close>

lemma offer_all_open:
  "\<not> closed q \<Longrightarrow> free = capacity - length (pending q) \<Longrightarrow>
     fst (offer_all offer ts q) = drop free ts \<and>
     pending (snd (offer_all offer ts q)) = pending q @ take free ts \<and> \<not> closed (snd (offer_all offer ts q))"
proof (induction ts arbitrary: q free)
  case (Cons t ts)
  show ?case
  proof (cases "length (pending q) < capacity")
    case True
    obtain q' where q': "offer t q = (True, q')" "pending q' = pending q @ [t]" "\<not> closed q'"
      using True Cons.prems(1) offer_accepts [of t q] offer_appends [of t q] offer_closed [of t q]
      by (cases "offer t q") auto
    with True Cons.prems(2) obtain k where "free = Suc k" "k = capacity - length (pending q')"
      by (cases free) auto
    with Cons.IH [OF q'(3)] q' show ?thesis by (simp split: prod.splits)
  next
    case False
    with Cons.prems show ?thesis by (simp add: offer_all_full offer_full)
  qed
qed simp

end

interpretation executor_queue: work_queue submit queue stopping 64
  by unfold_locales (auto simp: submit_def)

subsection \<open>Invariant\<close>

fun running :: "'a worker \<Rightarrow> 'a multiset" where
  "running (Running t) = {#t#}"
| "running _ = {#}"

definition in_progress :: "'a executor \<Rightarrow> 'a multiset" where
  "in_progress e = sum_list (map running (workers e))"

definition exec_inv :: "nat \<Rightarrow> 'a executor \<Rightarrow> bool" where
  "exec_inv n e \<longleftrightarrow>
     length (workers e) = n \<and> length (queue e) \<le> 64 \<and> accepted e = taken e @ queue e \<and>
     mset (taken e) = mset (finished e) + in_progress e \<and>
     (Returned \<in> set (workers e) \<longrightarrow> stopping e \<and> queue e = [])"

lemma sum_list_update_mset:
  fixes f :: "'b \<Rightarrow> 'a multiset"
  shows "i < length xs \<Longrightarrow>
     sum_list (map f (xs[i := y])) + f (xs ! i) = sum_list (map f xs) + f y"
proof (induction xs arbitrary: i)
  case (Cons x xs)
  then show ?case by (cases i) (auto simp: ac_simps)
qed simp

lemma in_progress_update:
  assumes "i < length (workers e)"
  shows "in_progress (e\<lparr>workers := (workers e)[i := w]\<rparr>) + running (workers e ! i) =
    in_progress e + running w"
  using sum_list_update_mset [OF assms, of running w] by (simp add: in_progress_def)

lemma set_update_Returned:
  "w \<noteq> Returned \<Longrightarrow> Returned \<in> set (xs[i := w]) \<Longrightarrow> Returned \<in> set xs"
  by (metis insert_iff set_update_subset_insert subset_iff)

lemma in_progress_cong: "workers e = workers e' \<Longrightarrow> in_progress e = in_progress e'"
  by (simp add: in_progress_def)

lemma worker_step_inv:
  assumes inv: "exec_inv n e" and i: "i < length (workers e)" and ws: "worker_step i e = Some e'"
  shows "exec_inv n e'"
proof (cases "workers e ! i")
  case Waiting
  show ?thesis
  proof (cases "queue e")
    case Nil
    with Waiting ws inv in_progress_update [OF i, of Returned] show ?thesis
      by (auto simp: worker_step_def exec_inv_def split: if_splits)
  next
    case (Cons t ts)
    with Waiting ws have e': "e' = e\<lparr>queue := ts, taken := taken e @ [t],
        workers := (workers e)[i := Running t]\<rparr>" by (simp add: worker_step_def)
    have "in_progress e' = in_progress (e\<lparr>workers := (workers e)[i := Running t]\<rparr>)"
      by (rule in_progress_cong) (simp add: e')
    with Waiting Cons inv in_progress_update [OF i, of "Running t"] show ?thesis
      by (auto simp: e' exec_inv_def dest: set_update_Returned [rotated])
  qed
next
  case (Running t)
  with ws have e': "e' = e\<lparr>finished := finished e @ [t], workers := (workers e)[i := Waiting]\<rparr>"
    by (simp add: worker_step_def)
  have "in_progress e' = in_progress (e\<lparr>workers := (workers e)[i := Waiting]\<rparr>)"
    by (rule in_progress_cong) (simp add: e')
  with Running inv in_progress_update [OF i, of Waiting] show ?thesis
    by (auto simp: e' exec_inv_def dest: set_update_Returned [rotated])
next
  case Returned
  with ws show ?thesis by (simp add: worker_step_def)
qed

lemma exec_step_inv: "exec_step e e' \<Longrightarrow> exec_inv n e \<Longrightarrow> exec_inv n e'"
proof (induction rule: exec_step.induct)
  case (submits e task)
  then show ?case by (auto simp: submit_def exec_inv_def in_progress_def)
next
  case (works i e e')
  then show ?case by (blast intro: worker_step_inv)
next
  case (stops e)
  then show ?case by (auto simp: destroy_def exec_inv_def in_progress_def)
qed

lemma exec_inv_init: "exec_inv n (executor_init n)"
  by (induction n) (auto simp: exec_inv_def executor_init_def in_progress_def)

lemma exec_reachable_inv: "exec_reachable n e \<Longrightarrow> exec_inv n e"
  by (induction rule: exec_reachable.induct) (blast intro: exec_inv_init exec_step_inv)+

subsection \<open>The destructor\<close>

text \<open>
  The destructor raises \<open>stopping\<close> and joins every worker.  A schedule is the sequence of
  the workers that move; \<open>work_left\<close> bounds how long one can be.
\<close>

fun run_schedule :: "nat list \<Rightarrow> 'a executor \<Rightarrow> 'a executor option" where
  "run_schedule [] e = Some e"
| "run_schedule (i # is) e =
     (if i < length (workers e)
      then (case worker_step i e of None \<Rightarrow> None | Some e' \<Rightarrow> run_schedule is e')
      else None)"

fun turns :: "'a worker \<Rightarrow> nat" where
  "turns Waiting = 1"
| "turns (Running _) = 2"
| "turns Returned = 0"

definition work_left :: "'a executor \<Rightarrow> nat" where
  "work_left e = 3 * length (queue e) + sum_list (map turns (workers e))"

lemma sum_list_update_turns:
  "i < length xs \<Longrightarrow> sum_list (map turns (xs[i := y])) + turns (xs ! i) = sum_list (map turns xs) + turns y"
proof (induction xs arbitrary: i)
  case (Cons x xs)
  then show ?case by (cases i) auto
qed simp

lemma worker_step_work_left:
  assumes "i < length (workers e)" "worker_step i e = Some e'"
  shows "work_left e' < work_left e"
proof -
  note upd = sum_list_update_turns [OF assms(1)]
  show ?thesis
    using assms(2) upd [of Waiting] upd [of Returned] upd [of "Running (hd (queue e))"]
    by (auto simp: worker_step_def work_left_def split: worker.splits list.splits if_splits)
qed

lemma worker_step_stopping: "worker_step i e = Some e' \<Longrightarrow> stopping e' = stopping e"
  by (auto simp: worker_step_def split: worker.splits list.splits if_splits)

lemma worker_step_workers: "worker_step i e = Some e' \<Longrightarrow> length (workers e') = length (workers e)"
  by (auto simp: worker_step_def split: worker.splits list.splits if_splits)

lemma worker_step_accepted: "worker_step i e = Some e' \<Longrightarrow> accepted e' = accepted e"
  by (auto simp: worker_step_def split: worker.splits list.splits if_splits)

lemmas worker_step_frame = worker_step_stopping worker_step_workers worker_step_accepted

text \<open>With \<open>stopping\<close> raised no worker is blocked: one that cannot move has returned.\<close>

lemma stopped_progress:
  "stopping e \<Longrightarrow> worker_step i e = None \<Longrightarrow> workers e ! i = Returned"
  by (auto simp: worker_step_def split: worker.splits list.splits if_splits)

lemma run_schedule_facts:
  "run_schedule is e = Some e' \<Longrightarrow> exec_inv n e \<Longrightarrow>
     exec_inv n e' \<and> stopping e' = stopping e \<and> accepted e' = accepted e \<and>
     length is + work_left e' \<le> work_left e"
proof (induction "is" e rule: run_schedule.induct)
  case (2 i "is" e)
  then obtain f where i: "i < length (workers e)" and f: "worker_step i e = Some f"
    and run: "run_schedule is f = Some e'"
    by (auto split: if_splits option.splits)
  from f have frame: "stopping f = stopping e" "accepted f = accepted e"
    by (simp_all add: worker_step_frame)
  have "exec_inv n e' \<and> stopping e' = stopping f \<and> accepted e' = accepted f \<and>
      length is + work_left e' \<le> work_left f"
    by (rule "2.IH" [OF i f run worker_step_inv [OF "2.prems"(2) i f]])
  with frame worker_step_work_left [OF i f] show ?case by simp
qed simp

lemma stopped_finishes:
  "stopping e \<Longrightarrow> \<exists>is e'. run_schedule is e = Some e' \<and> (\<forall>w \<in> set (workers e'). w = Returned)"
proof (induction "work_left e" arbitrary: e rule: less_induct)
  case less
  show ?case
  proof (cases "\<forall>w \<in> set (workers e). w = Returned")
    case True
    then have "run_schedule [] e = Some e \<and> (\<forall>w \<in> set (workers e). w = Returned)" by simp
    then show ?thesis by blast
  next
    case False
    then obtain i where i: "i < length (workers e)" "workers e ! i \<noteq> Returned"
      by (auto simp: in_set_conv_nth)
    with less.prems obtain f where f: "worker_step i e = Some f"
      using stopped_progress by (cases "worker_step i e") blast+
    with less.prems i obtain "is" e' where "run_schedule is f = Some e'"
        "\<forall>w \<in> set (workers e'). w = Returned"
      using less.hyps [OF worker_step_work_left [OF i(1) f]] worker_step_stopping by blast
    with i f have "run_schedule (i # is) e = Some e' \<and> (\<forall>w \<in> set (workers e'). w = Returned)"
      by simp
    then show ?thesis by blast
  qed
qed

lemma sum_list_replicate_empty: "sum_list (replicate n {#}) = {#}"
  by (induction n) auto

lemma all_returned_drained:
  assumes "exec_inv n e" "0 < n" "\<forall>w \<in> set (workers e). w = Returned"
  shows "queue e = [] \<and> mset (finished e) = mset (accepted e)"
proof -
  from assms have "workers e = replicate n Returned"
    by (metis exec_inv_def replicate_length_same)
  then have "Returned \<in> set (workers e)" "in_progress e = {#}"
    using assms(2) by (simp_all add: in_progress_def sum_list_replicate_empty)
  with assms(1) show ?thesis by (simp add: exec_inv_def)
qed

subsection \<open>Properties\<close>

text \<open>
  C21. Every accepted task is executed exactly once and tasks start in the order they were
  accepted: in every state the executor can reach, the accepted tasks are the ones taken by
  workers followed by the ones still queued, each is queued, running or finished (counted
  with multiplicity), and the queue never holds more than 64.
\<close>

theorem executor_exactly_once:
  assumes "exec_reachable n e"
  shows "accepted e = taken e @ queue e \<and>
    mset (accepted e) = mset (queue e) + in_progress e + mset (finished e) \<and>
    length (queue e) \<le> 64 \<and> length (workers e) = n"
  using exec_reachable_inv [OF assms] by (auto simp: exec_inv_def)

text \<open>
  C22. The destructor returns and loses nothing: once \<open>stopping\<close> is raised, with at least
  one worker, some schedule of the workers ends with all of them returned, no schedule is
  longer than \<open>work_left\<close>, and where no worker can move any more all have returned and
  exactly the accepted tasks have been executed.
\<close>

theorem executor_shutdown_drains:
  assumes "exec_reachable n e" and "0 < n" and "stopping e"
  shows "(\<exists>is e'. run_schedule is e = Some e' \<and> (\<forall>w \<in> set (workers e'). w = Returned)) \<and>
    (\<forall>is e'. run_schedule is e = Some e' \<longrightarrow>
       length is \<le> work_left e \<and>
       ((\<forall>i < n. worker_step i e' = None) \<longrightarrow>
          (\<forall>w \<in> set (workers e'). w = Returned) \<and> queue e' = [] \<and>
          mset (finished e') = mset (accepted e)))"
proof (intro conjI allI impI ballI)
  note inv = exec_reachable_inv [OF assms(1)]
  show "\<exists>is e'. run_schedule is e = Some e' \<and> (\<forall>w \<in> set (workers e'). w = Returned)"
    by (rule stopped_finishes [OF assms(3)])
  fix "is" e' assume run: "run_schedule is e = Some e'"
  note facts = run_schedule_facts [OF run inv]
  from facts show "length is \<le> work_left e" by linarith
  assume stuck: "\<forall>i < n. worker_step i e' = None"
  have "length (workers e') = n" using facts by (simp add: exec_inv_def)
  then have returned: "\<forall>w \<in> set (workers e'). w = Returned"
    using stuck stopped_progress facts assms(3) by (metis in_set_conv_nth)
  then show "w = Returned" if "w \<in> set (workers e')" for w
    using that by blast
  from all_returned_drained [OF _ assms(2) returned] facts
  show "queue e' = []" "mset (finished e') = mset (accepted e)" by auto
qed

text \<open>
  Backpressure: of a burst of submissions to a running executor exactly the first ones that
  fit in the free places are accepted, in order, and the rest is refused; a stopping executor
  refuses everything.
\<close>

lemma executor_backpressure:
  "fst (offer_all submit ts e) =
     (if stopping e then ts else drop (64 - length (queue e)) ts) \<and>
   queue (snd (offer_all submit ts e)) =
     (if stopping e then queue e else queue e @ take (64 - length (queue e)) ts)"
  by (simp add: executor_queue.offer_all_open executor_queue.offer_all_full)

subsection \<open>Witnesses\<close>

definition sample_executor :: "nat executor" where
  "sample_executor = destroy (snd (submit 7 (executor_init 1)))"

lemma sample_executor_reachable: "exec_reachable 1 sample_executor"
  unfolding sample_executor_def
  by (rule exec_reachable.step [OF exec_reachable.step [OF exec_reachable.init exec_step.submits] exec_step.stops])

theorem executor_exactly_once_witness:
  "accepted sample_executor = [7] \<and> accepted sample_executor = taken sample_executor @ queue sample_executor"
  using executor_exactly_once [OF sample_executor_reachable]
  by (simp add: sample_executor_def destroy_def submit_def executor_init_def)

theorem executor_shutdown_drains_witness:
  "stopping sample_executor \<and>
   (\<exists>is e'. run_schedule is sample_executor = Some e' \<and> (\<forall>w \<in> set (workers e'). w = Returned))"
  using executor_shutdown_drains [OF sample_executor_reachable]
  by (simp add: sample_executor_def destroy_def submit_def executor_init_def)

end
