(* ===== verification/Http.thy ===== *)
theory Http
  imports Json Executor
begin

text \<open>
  platform/Http.cpp, Endpoint.hpp and Logging.cpp: requests and responses, request
  identifiers, error bodies, the advices around every request, structured logging, and
  \<open>dispatch\<close>, which runs a handler on the executor and turns its exceptions into responses.
  Drogon is not part of the repository: a request is the record of what its accessors
  return, and what it generates or measures (\<open>getUuid\<close>, the clock, the formatted date)
  is an argument.
\<close>

subsection \<open>Requests and responses\<close>

record request =
  method_string :: string
  path :: string
  get_header :: "string \<Rightarrow> string"
  get_cookie :: "string \<Rightarrow> string"
  get_parameter :: "string \<Rightarrow> string"
  body :: string
  json_object :: "json option"
  peer_ip :: string
  attr_request_id :: string          \<comment> \<open>attribute \<open>requestId\<close>, empty when absent\<close>
  attr_started :: "int option"       \<comment> \<open>attribute \<open>started\<close>\<close>

record cookie =
  cookie_name :: string
  cookie_value :: string
  cookie_path :: string
  http_only :: bool
  cookie_secure :: bool
  same_site_strict :: bool
  max_age :: int

datatype content = Json_Body json | Raw_Body string string | No_Body

record response =
  resp_status :: int
  resp_content :: content
  resp_headers :: "(string \<times> string) list"
  resp_cookies :: "cookie list"

definition json_response :: "json \<Rightarrow> response" where
  "json_response v = \<lparr>resp_status = 200, resp_content = Json_Body v, resp_headers = [], resp_cookies = []\<rparr>"

subsection \<open>Http.cpp\<close>

text \<open>\<open>uuid\<close> is what \<open>getUuid\<close> would return now.\<close>

definition request_id :: "string \<Rightarrow> request \<Rightarrow> string \<times> request" where
  "request_id uuid request =
     (if attr_request_id request = [] then (uuid, request\<lparr>attr_request_id := uuid\<rparr>)
      else (attr_request_id request, request))"

definition error_body :: "string \<Rightarrow> string \<Rightarrow> string \<Rightarrow> json" where
  "error_body c m rid =
     JObj [(''error'', JObj [(''code'', JStr c), (''message'', JStr m), (''requestId'', JStr rid)])]"

definition api_error :: "string \<Rightarrow> request \<Rightarrow> int \<Rightarrow> string \<Rightarrow> string \<Rightarrow> response" where
  "api_error uuid request st c m =
     (json_response (error_body c m (fst (request_id uuid request))))\<lparr>resp_status := st\<rparr>"

definition pre_routing :: "string \<Rightarrow> int \<Rightarrow> request \<Rightarrow> request" where
  "pre_routing uuid now request = (snd (request_id uuid request))\<lparr>attr_started := Some now\<rparr>"

text \<open>Logging.cpp: the record written to standard output.\<close>

definition log_record ::
  "string \<Rightarrow> string \<Rightarrow> string \<Rightarrow> string \<Rightarrow> (string \<times> json) list \<Rightarrow> json" where
  "log_record date service level event members =
     JObj (AList.update ''event'' (JStr event) (AList.update ''level'' (JStr level)
       (AList.update ''service'' (JStr service)
         (AList.update ''timestamp'' (JStr (date @ ''Z'')) members))))"

definition add_header :: "string \<Rightarrow> string \<Rightarrow> response \<Rightarrow> response" where
  "add_header name value response =
     response\<lparr>resp_headers := AList.update name value (resp_headers response)\<rparr>"

definition known_endpoint :: "string \<Rightarrow> string" where
  "known_endpoint p = (if p = ''/api/v1/health/live'' \<or> p = ''/api/v1/health/ready'' then p else ''unmatched'')"

text \<open>\<open>milliseconds\<close> turns two readings of the steady clock into the double that is logged.\<close>

definition pre_sending ::
  "(int \<Rightarrow> int \<Rightarrow> 64 word) \<Rightarrow> string \<Rightarrow> string \<Rightarrow> int \<Rightarrow> request \<Rightarrow> response \<Rightarrow> response \<times> json" where
  "pre_sending milliseconds date uuid now request response =
     (let id = fst (request_id uuid request);
          sent = add_header ''X-Content-Type-Options'' ''nosniff''
                   (add_header ''Cache-Control'' ''no-store'' (add_header ''X-Request-Id'' id response));
          members = [(''requestId'', JStr id), (''method'', JStr (method_string request)),
                    (''endpoint'', JStr (known_endpoint (path request))),
                    (''status'', JInt (resp_status sent))] @
                   (case attr_started request of None \<Rightarrow> []
                    | Some start \<Rightarrow> [(''durationMs'', JReal (milliseconds start now))])
      in (sent, log_record date ''bee-api'' (if 500 \<le> resp_status sent then ''error'' else ''info'')
                  ''http_request'' members))"

definition custom_error :: "string \<Rightarrow> int \<Rightarrow> request \<Rightarrow> response" where
  "custom_error uuid st request =
     api_error uuid request st (if st = 404 then ''NOT_FOUND'' else ''HTTP_ERROR'')
       (if st = 404 then ''Resource not found'' else ''Request could not be processed'')"

definition exception_handler :: "string \<Rightarrow> request \<Rightarrow> response" where
  "exception_handler uuid request =
     api_error uuid request 500 ''INTERNAL_ERROR'' ''An unexpected error occurred''"

subsection \<open>Endpoint.hpp\<close>

definition json_body :: "request \<Rightarrow> json res" where
  "json_body request =
     (if \<not> starts_with (get_header request ''content-type'') ''application/json'' \<or>
         json_object request = None
      then Inl (Error 400 ''INVALID_BODY'' ''A JSON object is required'')
      else Inr (the (json_object request)))"

text \<open>The \<open>try\<close> block of the task that \<open>dispatch\<close> submits.\<close>

definition reply_of :: "string \<Rightarrow> request \<Rightarrow> response res \<Rightarrow> response" where
  "reply_of uuid request result =
     (case result of
        Inr response \<Rightarrow> response
      | Inl (Error st c m) \<Rightarrow> api_error uuid request st c m
      | Inl (DbError _) \<Rightarrow> api_error uuid request 503 ''DATABASE_UNAVAILABLE''
          ''The operation could not be completed. Refresh before retrying.''
      | Inl (StdError _) \<Rightarrow> api_error uuid request 500 ''INTERNAL_ERROR''
          ''The operation could not be completed'')"

definition dispatch_task ::
  "string \<Rightarrow> request \<Rightarrow> ('w, response) act \<Rightarrow> 'w \<Rightarrow> response \<times> 'w" where
  "dispatch_task uuid request work w =
     (case work w of (result, w') \<Rightarrow> (reply_of uuid request result, w'))"

text \<open>
  The callback is called at once when the task is refused; otherwise the task calls it when
  a worker runs it (\<open>None\<close>: no reply yet).
\<close>

definition dispatch ::
  "('w \<Rightarrow> response \<times> 'w) executor \<Rightarrow> string \<Rightarrow> request \<Rightarrow> ('w, response) act \<Rightarrow>
     response option \<times> ('w \<Rightarrow> response \<times> 'w) executor" where
  "dispatch executor uuid request work =
     (case submit (dispatch_task uuid request work) executor of
        (taken_in, executor') \<Rightarrow>
          (if taken_in then None
           else Some (api_error uuid request 503 ''BUSY'' ''Please try again shortly''), executor'))"

subsection \<open>Lemmas\<close>

lemma request_id_set: "attr_request_id request \<noteq> [] \<Longrightarrow> request_id uuid request = (attr_request_id request, request)"
  by (simp add: request_id_def)

lemma request_id_pre_routing:
  "uuid \<noteq> [] \<Longrightarrow> request_id uuid' (pre_routing uuid now request) =
     (fst (request_id uuid request), pre_routing uuid now request)"
  by (simp add: pre_routing_def request_id_def)

lemma resp_status_api_error [simp]: "resp_status (api_error uuid request st c m) = st"
  by (simp add: api_error_def)

lemma resp_status_json_response [simp]: "resp_status (json_response v) = 200"
  by (simp add: json_response_def)

lemma resp_cookies_api_error [simp]: "resp_cookies (api_error uuid request st c m) = []"
  by (simp add: api_error_def json_response_def)

lemma resp_status_add_header [simp]: "resp_status (add_header n v r) = resp_status r"
  by (simp add: add_header_def)

lemma resp_content_add_header [simp]: "resp_content (add_header n v r) = resp_content r"
  by (simp add: add_header_def)

lemma resp_cookies_add_header [simp]: "resp_cookies (add_header n v r) = resp_cookies r"
  by (simp add: add_header_def)

lemma header_add_header [simp]:
  "map_of (resp_headers (add_header n v r)) k = (if k = n then Some v else map_of (resp_headers r) k)"
  by (simp add: add_header_def update_conv)

lemma reply_of_Inr [simp]: "reply_of uuid request (Inr r) = r"
  by (simp add: reply_of_def)

lemma reply_of_Error [simp]: "reply_of uuid request (Inl (Error st c m)) = api_error uuid request st c m"
  by (simp add: reply_of_def)

lemma json_body_eq_Inr:
  "json_body request = Inr v \<longleftrightarrow>
     starts_with (get_header request ''content-type'') ''application/json'' \<and> json_object request = Some v"
  by (auto simp: json_body_def)

lemma json_body_Inl:
  "json_body request = Inl e \<Longrightarrow> e = Error 400 ''INVALID_BODY'' ''A JSON object is required''"
  by (auto simp: json_body_def split: if_splits)

lemma error_body_inj: "error_body c m i = error_body c' m' i' \<longleftrightarrow> c = c' \<and> m = m' \<and> i = i'"
  by (auto simp: error_body_def)

subsection \<open>Properties\<close>

text \<open>
  Every dispatched request gets exactly one reply.  If the executor is stopping or full
  the reply is \<open>503 BUSY\<close>, at once, and the queue is unchanged; otherwise there is no
  immediate reply, and the task at the end of the queue produces the handler's response, or
  the response that stands for its exception: the status, code and message of a
  \<open>bee::Error\<close>, and for a database failure or any other exception a fixed 503 or 500 body
  in which nothing of the exception's text appears.
\<close>

lemma dispatch_replies_once:
  "dispatch executor uuid request work =
     (if stopping executor \<or> 64 \<le> length (queue executor)
      then (Some (api_error uuid request 503 ''BUSY'' ''Please try again shortly''), executor)
      else (None, executor\<lparr>queue := queue executor @ [dispatch_task uuid request work],
                           accepted := accepted executor @ [dispatch_task uuid request work]\<rparr>)) \<and>
   dispatch_task uuid request work w =
     ((case fst (work w) of
         Inr response \<Rightarrow> response
       | Inl (Error st c m) \<Rightarrow> api_error uuid request st c m
       | Inl (DbError _) \<Rightarrow> api_error uuid request 503 ''DATABASE_UNAVAILABLE''
           ''The operation could not be completed. Refresh before retrying.''
       | Inl (StdError _) \<Rightarrow> api_error uuid request 500 ''INTERNAL_ERROR''
           ''The operation could not be completed''), snd (work w))"
  by (simp add: dispatch_def dispatch_task_def submit_def reply_of_def split: prod.splits)

text \<open>
  One identifier follows a request.  It is fixed before routing and never taken from the
  client's headers; whatever UUID the generator would give later, the error body, the
  \<open>X-Request-Id\<close> header and the access-log record carry the same identifier; the response
  is marked uncacheable, and the log shows a known route or \<open>unmatched\<close>, never the path.
\<close>

lemma request_id_correlates:
  assumes "uuid \<noteq> []" and "attr_request_id request = []"
    and "response = api_error uuid1 (pre_routing uuid t0 request) st c m"
    and "pre_sending ms date uuid2 t1 (pre_routing uuid t0 request) response = (sent, record)"
  shows "resp_content sent = Json_Body (error_body c m uuid) \<and> resp_status sent = st \<and>
    map_of (resp_headers sent) ''X-Request-Id'' = Some uuid \<and>
    map_of (resp_headers sent) ''Cache-Control'' = Some ''no-store'' \<and>
    (\<exists>members. record = JObj members \<and> member members ''requestId'' = JStr uuid \<and>
       member members ''level'' = JStr (if 500 \<le> st then ''error'' else ''info'') \<and>
       member members ''endpoint'' \<in>
         {JStr ''/api/v1/health/live'', JStr ''/api/v1/health/ready'', JStr ''unmatched''})"
proof -
  have id: "fst (request_id u (pre_routing uuid t0 request)) = uuid" for u
    using request_id_pre_routing [OF assms(1), of u t0 request] assms(2) by (simp add: request_id_def)
  from assms(4) have sent: "sent = add_header ''X-Content-Type-Options'' ''nosniff''
        (add_header ''Cache-Control'' ''no-store'' (add_header ''X-Request-Id'' uuid response))"
    by (auto simp: pre_sending_def Let_def id)
  from assms(4) have "\<exists>members. record = JObj members \<and> member members ''requestId'' = JStr uuid \<and>
       member members ''level'' = JStr (if 500 \<le> st then ''error'' else ''info'') \<and>
       member members ''endpoint'' = JStr (known_endpoint (path (pre_routing uuid t0 request)))"
    by (auto simp: pre_sending_def Let_def id log_record_def assms(3))
  then show ?thesis
    by (auto simp: sent assms(3) api_error_def id known_endpoint_def json_response_def)
qed

subsection \<open>An example\<close>

definition sample_request :: request where
  "sample_request = \<lparr>method_string = ''GET'', path = ''/api/v1/products'', get_header = (\<lambda>_. []),
     get_cookie = (\<lambda>_. []), get_parameter = (\<lambda>k. if k = ''page'' then ''3'' else if k = ''sort'' then ''name'' else []),
     body = [], json_object = None, peer_ip = ''10.0.0.1'', attr_request_id = [], attr_started = None\<rparr>"

lemma request_id_correlates_witness:
  "\<exists>sent entry. pre_sending (\<lambda>a b. word_of_int (b - a)) ''20260101 00:00:00'' ''u2'' 7
       (pre_routing ''u0'' 3 sample_request)
       (api_error ''u1'' (pre_routing ''u0'' 3 sample_request) 503 ''BUSY'' ''Please try again shortly'') = (sent, entry) \<and>
     map_of (resp_headers sent) ''X-Request-Id'' = Some ''u0'' \<and>
     resp_content sent = Json_Body (error_body ''BUSY'' ''Please try again shortly'' ''u0'')"
proof -
  obtain sent entry where *: "pre_sending (\<lambda>a b. word_of_int (b - a)) ''20260101 00:00:00'' ''u2'' 7
       (pre_routing ''u0'' 3 sample_request)
       (api_error ''u1'' (pre_routing ''u0'' 3 sample_request) 503 ''BUSY'' ''Please try again shortly'') = (sent, entry)"
    by (metis surj_pair)
  have "''u0'' \<noteq> []" "attr_request_id sample_request = []" by (simp_all add: sample_request_def)
  from request_id_correlates [OF this refl *] * show ?thesis by blast
qed

end
