(* ===== verification/Catalog_Validation.thy ===== *)
theory Catalog_Validation
  imports Patterns Sample_Json Http
begin

text \<open>
  The checks of modules/catalog/CatalogService.cpp: text fields, reference lists, numeric
  filters, product drafts, search filters, and the public view of a product.  Each check is
  a result whose error is the exception of the source; what JsonCpp throws when a value of
  the wrong type is indexed is passed on.  \<open>valid_draft\<close> states what a draft must look
  like; the main lemma says the code accepts exactly those.
\<close>

definition validation_failed :: "string \<Rightarrow> exn" where
  "validation_failed m = Error 422 ''VALIDATION_FAILED'' m"

definition invalid_filter :: "string \<Rightarrow> exn" where
  "invalid_filter m = Error 400 ''INVALID_FILTER'' m"

subsection \<open>Text fields and reference lists\<close>

text \<open>The bytes that begin a character of UTF-8: all but the continuation bytes.\<close>

definition leading :: "char \<Rightarrow> bool" where
  "leading c \<longleftrightarrow> byte c AND 0xC0 \<noteq> 0x80"

definition char_count :: "string \<Rightarrow> nat" where
  "char_count s = length (filter leading s)"

definition blank :: "char \<Rightarrow> bool" where
  "blank c \<longleftrightarrow> c = CHR '' '' \<or> c = CHR 0x09 \<or> c = CHR 0x0D \<or> c = CHR 0x0A"

definition text_field :: "jsoncpp \<Rightarrow> json \<Rightarrow> string \<Rightarrow> nat \<Rightarrow> nat \<Rightarrow> unit res" where
  "text_field J value field mn mx =
    bind_res (get_at J value field) (\<lambda>v.
    bind_res (throw_if (\<not> is_string v) (validation_failed (''Invalid field: '' @ field))) (\<lambda>_.
    bind_res (as_string J v) (\<lambda>raw.
    throw_if (char_count raw < mn \<or> mx < char_count raw \<or> 0 < mn \<and> list_all blank raw)
      (validation_failed (''Invalid field: '' @ field)))))"

text \<open>One element of the loop of \<open>ids\<close>; the set of the strings seen is a list.\<close>

definition ids_step :: "jsoncpp \<Rightarrow> json \<Rightarrow> string list \<Rightarrow> string list res" where
  "ids_step J value unique =
    bind_res (throw_if (\<not> is_string value) (validation_failed ''Invalid or duplicate reference'')) (\<lambda>_.
    bind_res (as_string J value) (\<lambda>s.
    if \<not> uuid s \<or> s \<in> set unique then Inl (validation_failed ''Invalid or duplicate reference'')
    else Inr (s # unique)))"

definition ids :: "jsoncpp \<Rightarrow> json \<Rightarrow> nat \<Rightarrow> nat \<Rightarrow> unit res" where
  "ids J values mn mx =
    bind_res (throw_if (\<not> is_array values \<or> jsize values < mn \<or> mx < jsize values)
      (validation_failed ''Invalid reference list'')) (\<lambda>_.
    bind_res (fold_res (ids_step J) (elements values) []) (\<lambda>_. Inr ()))"

definition integer :: "string \<Rightarrow> int \<Rightarrow> int \<Rightarrow> int res" where
  "integer input fallback mx =
     (if input = [] then Inr fallback
      else case from_chars_i64 input of
             Parsed v rest \<Rightarrow>
               if rest \<noteq> [] \<or> v < 0 \<or> mx < v then Inl (invalid_filter ''Invalid numeric filter'') else Inr v
           | _ \<Rightarrow> Inl (invalid_filter ''Invalid numeric filter''))"

subsection \<open>Drafts\<close>

text \<open>The local variables of the loop over the variants: \<open>skus\<close>, \<open>variantIds\<close>, \<open>active\<close>.\<close>

type_synonym variant_acc = "string list \<times> string list \<times> bool"

definition variant_id :: "jsoncpp \<Rightarrow> json \<Rightarrow> string list \<Rightarrow> string list res" where
  "variant_id J variant ids_seen =
    bind_res (is_member J variant ''id'') (\<lambda>present.
    if \<not> present then Inr ids_seen else
    bind_res (get_at J variant ''id'') (\<lambda>v.
    bind_res (throw_if (\<not> is_string v) (validation_failed ''Invalid variant ID'')) (\<lambda>_.
    bind_res (as_string J v) (\<lambda>s.
    if \<not> uuid s \<or> s \<in> set ids_seen then Inl (validation_failed ''Invalid variant ID'')
    else Inr (s # ids_seen)))))"

definition price_check :: "jsoncpp \<Rightarrow> json \<Rightarrow> unit res" where
  "price_check J variant =
    bind_res (get_at J variant ''priceMinor'') (\<lambda>price.
    bind_res (throw_if (\<not> is_int64 J price) (validation_failed ''Invalid price or availability flag'')) (\<lambda>_.
    bind_res (as_int64 J price) (\<lambda>p.
    bind_res (throw_if (p < 0 \<or> 100000000 < p) (validation_failed ''Invalid price or availability flag'')) (\<lambda>_.
    bind_res (get_at J variant ''active'') (\<lambda>flag.
    throw_if (\<not> is_bool flag) (validation_failed ''Invalid price or availability flag''))))))"

definition variant_step :: "jsoncpp \<Rightarrow> json \<Rightarrow> variant_acc \<Rightarrow> variant_acc res" where
  "variant_step J variant acc = (case acc of (skus, variantIds, active) \<Rightarrow>
    bind_res (text_field J variant ''sku'' 1 64) (\<lambda>_.
    bind_res (text_field J variant ''name'' 1 160) (\<lambda>_.
    bind_res (get_at J variant ''sku'') (\<lambda>v.
    bind_res (as_string J v) (\<lambda>sku.
    bind_res (throw_if (sku \<in> set skus) (validation_failed ''Duplicate SKU'')) (\<lambda>_.
    bind_res (variant_id J variant variantIds) (\<lambda>variantIds'.
    bind_res (price_check J variant) (\<lambda>_.
    bind_res (if active then Inr True else bind_res (get_at J variant ''active'') (as_bool J)) (\<lambda>active'.
    bind_res (get_at J variant ''attributes'') (\<lambda>attributes.
    bind_res (throw_if (\<not> is_object attributes \<or> 30 < jsize attributes)
      (validation_failed ''Invalid attributes'')) (\<lambda>_.
    bind_res (member_names J attributes) (\<lambda>keys.
    bind_res (each (\<lambda>key. text_field J attributes (c_str key) 1 300) keys) (\<lambda>_.
    Inr (sku # skus, variantIds', active'))))))))))))))"

definition locale_texts :: "jsoncpp \<Rightarrow> json \<Rightarrow> string \<Rightarrow> unit res" where
  "locale_texts J translations loc =
    bind_res (get_at J translations loc) (\<lambda>t.
    bind_res (text_field J t ''name'' 1 200) (\<lambda>_.
    bind_res (text_field J t ''description'' 0 20000) (\<lambda>_.
    bind_res (text_field J t ''seoTitle'' 0 200) (\<lambda>_.
    text_field J t ''seoDescription'' 0 500))))"

definition validate_draft :: "jsoncpp \<Rightarrow> json \<Rightarrow> unit res" where
  "validate_draft J draft =
    bind_res (throw_if (\<not> is_object draft) (validation_failed ''A product object is required'')) (\<lambda>_.
    bind_res (text_field J draft ''slug'' 1 160) (\<lambda>_.
    bind_res (text_field J draft ''status'' 1 20) (\<lambda>_.
    bind_res (bind_res (get_at J draft ''slug'') (as_string J)) (\<lambda>s.
    bind_res (throw_if (\<not> slug s) (validation_failed ''Invalid slug'')) (\<lambda>_.
    bind_res (bind_res (get_at J draft ''status'') (as_string J)) (\<lambda>st.
    bind_res (throw_if (st \<noteq> ''draft'' \<and> st \<noteq> ''active'' \<and> st \<noteq> ''archived'')
      (validation_failed ''Invalid product status'')) (\<lambda>_.
    bind_res (get_at J draft ''brandId'') (\<lambda>brand.
    bind_res (if is_null brand then Inr ()
              else bind_res (throw_if (\<not> is_string brand) (validation_failed ''Invalid brand'')) (\<lambda>_.
                   bind_res (as_string J brand) (\<lambda>b.
                   throw_if (\<not> uuid b) (validation_failed ''Invalid brand'')))) (\<lambda>_.
    bind_res (bind_res (get_at J draft ''categoryIds'') (\<lambda>v. ids J v 1 10)) (\<lambda>_.
    bind_res (bind_res (get_at J draft ''mediaIds'') (\<lambda>v. ids J v 0 10)) (\<lambda>_.
    bind_res (get_at J draft ''translations'') (\<lambda>translations.
    bind_res (throw_if (\<not> is_object translations \<or> jsize translations \<noteq> 2)
      (validation_failed ''Russian and Romanian translations are required'')) (\<lambda>_.
    bind_res (each (locale_texts J translations) [''ru'', ''ro'']) (\<lambda>_.
    bind_res (get_at J draft ''variants'') (\<lambda>variants.
    bind_res (throw_if (\<not> is_array variants \<or> jsize variants = 0 \<or> 50 < jsize variants)
      (validation_failed ''Between 1 and 50 variants are required'')) (\<lambda>_.
    bind_res (fold_res (variant_step J) (elements variants) ([], [], False)) (\<lambda>(_, _, active).
    throw_if (st = ''active'' \<and> \<not> active)
      (validation_failed ''An active product needs an active variant''))))))))))))))))))"

subsection \<open>Search filters\<close>

record search_filter =
  f_locale :: string
  f_query :: string
  f_category :: string
  f_brand :: string
  f_sort :: string
  f_page :: int
  f_limit :: int
  f_min_price :: int
  f_max_price :: int

definition parse_filter :: "request \<Rightarrow> search_filter res" where
  "parse_filter req =
    (let loc = (if get_parameter req ''locale'' \<noteq> [] then get_parameter req ''locale'' else ''ru'') in
    bind_res (throw_if (loc \<noteq> ''ru'' \<and> loc \<noteq> ''ro'') (invalid_filter ''Unsupported locale'')) (\<lambda>_.
    let query = get_parameter req ''q''; category = get_parameter req ''category'';
        brand = get_parameter req ''brand'' in
    bind_res (throw_if (200 < length query \<or> category \<noteq> [] \<and> \<not> uuid category \<or>
        brand \<noteq> [] \<and> \<not> uuid brand) (invalid_filter ''Invalid search filter'')) (\<lambda>_.
    let sort_by = (if get_parameter req ''sort'' \<noteq> [] then get_parameter req ''sort'' else ''newest'') in
    bind_res (throw_if (sort_by \<noteq> ''newest'' \<and> sort_by \<noteq> ''price_asc'' \<and> sort_by \<noteq> ''price_desc'' \<and>
        sort_by \<noteq> ''name'') (invalid_filter ''Invalid sorting'')) (\<lambda>_.
    bind_res (integer (get_parameter req ''page'') 1 10000) (\<lambda>pg.
    bind_res (integer (get_parameter req ''limit'') 12 48) (\<lambda>lim.
    bind_res (integer (get_parameter req ''minPrice'') 0 100000000) (\<lambda>minp.
    bind_res (integer (get_parameter req ''maxPrice'') 100000000 100000000) (\<lambda>maxp.
    bind_res (throw_if (pg = 0 \<or> lim = 0 \<or> maxp < minp) (invalid_filter ''Invalid page or price range'')) (\<lambda>_.
    Inr \<lparr>f_locale = loc, f_query = query, f_category = category, f_brand = brand, f_sort = sort_by,
         f_page = pg, f_limit = lim, f_min_price = minp, f_max_price = maxp\<rparr>)))))))))"

subsection \<open>The public view\<close>

definition keep_active :: "jsoncpp \<Rightarrow> json \<Rightarrow> json list \<Rightarrow> json list res" where
  "keep_active J variant kept =
    bind_res (get_at J variant ''active'') (\<lambda>flag.
    bind_res (as_bool J flag) (\<lambda>b. Inr (if b then kept @ [variant] else kept)))"

definition public_document :: "jsoncpp \<Rightarrow> json \<Rightarrow> json res" where
  "public_document J product =
    bind_res (get_at J product ''variants'') (\<lambda>all.
    bind_res (fold_res (keep_active J) (elements all) []) (\<lambda>variants.
    set_at J product ''variants'' (JArr variants)))"

subsection \<open>What the checks accept\<close>

definition valid_text :: "nat \<Rightarrow> nat \<Rightarrow> json \<Rightarrow> bool" where
  "valid_text mn mx v \<longleftrightarrow> (\<exists>s. v = JStr s \<and> mn \<le> char_count s \<and> char_count s \<le> mx \<and>
     (0 < mn \<longrightarrow> \<not> list_all blank s))"

definition valid_ids :: "nat \<Rightarrow> nat \<Rightarrow> json \<Rightarrow> bool" where
  "valid_ids mn mx v \<longleftrightarrow> (\<exists>ss. v = JArr (map JStr ss) \<and> mn \<le> length ss \<and> length ss \<le> mx \<and>
     list_all uuid ss \<and> distinct ss)"

definition valid_price :: "jsoncpp \<Rightarrow> json \<Rightarrow> bool" where
  "valid_price J v \<longleftrightarrow> is_int64 J v \<and> (\<exists>p. as_int64 J v = Inr p \<and> 0 \<le> p \<and> p \<le> 100000000)"

definition valid_attributes :: "json \<Rightarrow> bool" where
  "valid_attributes v \<longleftrightarrow> (\<exists>m. v = JObj m \<and> length m \<le> 30 \<and>
     (\<forall>key \<in> fst ` set m. valid_text 1 300 (member m (c_str key))))"

definition valid_variant :: "jsoncpp \<Rightarrow> json \<Rightarrow> bool" where
  "valid_variant J v \<longleftrightarrow> (\<exists>m. v = JObj m \<and> valid_text 1 64 (member m ''sku'') \<and>
     valid_text 1 160 (member m ''name'') \<and>
     (''id'' \<in> fst ` set m \<longrightarrow> (\<exists>s. member m ''id'' = JStr s \<and> uuid s)) \<and>
     valid_price J (member m ''priceMinor'') \<and> is_bool (member m ''active'') \<and>
     valid_attributes (member m ''attributes''))"

text \<open>The SKU, the identifier if there is one, and the flag of a variant.\<close>

fun str_of :: "json \<Rightarrow> string" where
  "str_of (JStr s) = s" | "str_of _ = []"

fun members_of :: "json \<Rightarrow> (string \<times> json) list" where
  "members_of (JObj m) = m" | "members_of _ = []"

definition sku_of :: "json \<Rightarrow> string" where
  "sku_of v = str_of (member (members_of v) ''sku'')"

definition id_of :: "json \<Rightarrow> string option" where
  "id_of v = (if ''id'' \<in> fst ` set (members_of v) then Some (str_of (member (members_of v) ''id'')) else None)"

definition active_of :: "json \<Rightarrow> bool" where
  "active_of v \<longleftrightarrow> member (members_of v) ''active'' = JBool True"

definition ids_of :: "json list \<Rightarrow> string list" where
  "ids_of vs = List.map_filter id_of vs"

definition valid_variants :: "jsoncpp \<Rightarrow> json list \<Rightarrow> bool" where
  "valid_variants J vs \<longleftrightarrow> list_all (valid_variant J) vs \<and> distinct (map sku_of vs) \<and> distinct (ids_of vs)"

definition valid_translation :: "json \<Rightarrow> bool" where
  "valid_translation v \<longleftrightarrow> (\<exists>m. v = JObj m \<and> valid_text 1 200 (member m ''name'') \<and>
     valid_text 0 20000 (member m ''description'') \<and> valid_text 0 200 (member m ''seoTitle'') \<and>
     valid_text 0 500 (member m ''seoDescription''))"

definition valid_draft :: "jsoncpp \<Rightarrow> json \<Rightarrow> bool" where
  "valid_draft J d \<longleftrightarrow> (\<exists>m ts vs. d = JObj m \<and>
     valid_text 1 160 (member m ''slug'') \<and> slug (str_of (member m ''slug'')) \<and>
     member m ''status'' \<in> {JStr ''draft'', JStr ''active'', JStr ''archived''} \<and>
     (member m ''brandId'' = JNull \<or> (\<exists>b. member m ''brandId'' = JStr b \<and> uuid b)) \<and>
     valid_ids 1 10 (member m ''categoryIds'') \<and> valid_ids 0 10 (member m ''mediaIds'') \<and>
     member m ''translations'' = JObj ts \<and> length ts = 2 \<and>
     valid_translation (member ts ''ru'') \<and> valid_translation (member ts ''ro'') \<and>
     member m ''variants'' = JArr vs \<and> 1 \<le> length vs \<and> length vs \<le> 50 \<and> valid_variants J vs \<and>
     (member m ''status'' = JStr ''active'' \<longrightarrow> list_ex active_of vs))"

lemma valid_text_not_null [simp]: "\<not> valid_text mn mx JNull"
  by (simp add: valid_text_def)

lemma text_field_object:
  "jsoncpp_ok J \<Longrightarrow> text_field J (JObj m) k mn mx =
     (if valid_text mn mx (member m k) then Inr () else Inl (validation_failed (''Invalid field: '' @ k)))"
  by (cases "member m k")
    (auto simp: text_field_def jsoncpp_rules valid_text_def throw_if_def)

lemma text_field_null:
  "jsoncpp_ok J \<Longrightarrow> text_field J JNull k mn mx = Inl (validation_failed (''Invalid field: '' @ k))"
  by (simp add: text_field_def jsoncpp_rules throw_if_def)

lemma text_field_other:
  assumes "jsoncpp_ok J" "\<not> is_object v" "\<not> is_null v"
  shows "\<exists>e. text_field J v k mn mx = Inl (StdError e)"
  using at_other [OF assms, of k] by (auto simp: text_field_def)

lemma text_field_Inr:
  assumes "jsoncpp_ok J"
  shows "text_field J v k mn mx = Inr u \<longleftrightarrow> (\<exists>m. v = JObj m \<and> valid_text mn mx (member m k))"
proof (cases "is_object v")
  case True
  with assms show ?thesis by (auto simp: is_object_iff text_field_object split: if_splits)
next
  case False
  then obtain e where "text_field J v k mn mx = Inl e"
    using assms text_field_other [OF assms False, of k mn mx]
    by (cases "is_null v") (auto simp: is_null_iff text_field_null)
  with False show ?thesis by auto
qed

lemma map_JStr_inject [simp]: "map JStr xs = map JStr ys \<longleftrightarrow> xs = ys"
  by (rule inj_map_eq_map) (simp add: inj_def)

lemma ids_fold:
  assumes "jsoncpp_ok J"
  shows "(\<exists>acc'. fold_res (ids_step J) xs acc = Inr acc') \<longleftrightarrow>
    (\<exists>ss. xs = map JStr ss \<and> list_all uuid ss \<and> distinct ss \<and> set ss \<inter> set acc = {})"
proof (induction xs arbitrary: acc)
  case (Cons x xs)
  show ?case
  proof (cases "\<exists>s. x = JStr s \<and> uuid s \<and> s \<notin> set acc")
    case True
    then obtain s where s: "x = JStr s" "uuid s" "s \<notin> set acc" by blast
    then have "ids_step J x acc = Inr (s # acc)"
      using assms by (simp add: ids_step_def jsoncpp_rules throw_if_def)
    with s Cons [of "s # acc"] show ?thesis by (fastforce simp: Cons_eq_map_conv)
  next
    case False
    then have "\<exists>e. ids_step J x acc = Inl e"
      using assms by (cases x) (auto simp: ids_step_def jsoncpp_rules throw_if_def)
    with False show ?thesis by (auto simp: Cons_eq_map_conv)
  qed
qed simp

lemma ids_Inr:
  assumes "jsoncpp_ok J"
  shows "ids J v mn mx = Inr u \<longleftrightarrow> valid_ids mn mx v"
proof (cases "is_array v")
  case True
  then obtain xs where v: "v = JArr xs" by (auto simp: is_array_iff)
  have "ids J v mn mx = Inr u \<longleftrightarrow>
      mn \<le> length xs \<and> length xs \<le> mx \<and> (\<exists>acc. fold_res (ids_step J) xs [] = Inr acc)"
    by (auto simp: v ids_def jsize_def bind_res_eq_Inr)
  then show ?thesis by (auto simp: ids_fold [OF assms] v valid_ids_def)
next
  case False
  then show ?thesis by (auto simp: ids_def valid_ids_def bind_res_eq_Inr)
qed

lemma price_check_Inr:
  "jsoncpp_ok J \<Longrightarrow> price_check J (JObj m) = Inr u \<longleftrightarrow>
     valid_price J (member m ''priceMinor'') \<and> is_bool (member m ''active'')"
  by (auto simp: price_check_def jsoncpp_rules bind_res_eq_Inr valid_price_def)

lemma variant_id_Inr:
  assumes "jsoncpp_ok J"
  shows "variant_id J (JObj m) seen = Inr r \<longleftrightarrow>
    (case id_of (JObj m) of None \<Rightarrow> r = seen
     | Some i \<Rightarrow> member m ''id'' = JStr i \<and> uuid i \<and> i \<notin> set seen \<and> r = i # seen)"
  using assms
  by (cases "member m ''id''")
    (auto simp: variant_id_def jsoncpp_rules bind_res_eq_Inr id_of_def throw_if_def)

lemma attribute_texts_Inr:
  "jsoncpp_ok J \<Longrightarrow> each (\<lambda>key. text_field J (JObj m) (c_str key) 1 300) (map fst m) = Inr u \<longleftrightarrow>
     (\<forall>key \<in> fst ` set m. valid_text 1 300 (member m (c_str key)))"
  by (auto simp: each_eq_Inr text_field_Inr)

lemma variant_step_Inr:
  assumes J: "jsoncpp_ok J"
  shows "variant_step J v (skus, seen, act) = Inr acc \<longleftrightarrow>
    valid_variant J v \<and> sku_of v \<notin> set skus \<and> (\<forall>i. id_of v = Some i \<longrightarrow> i \<notin> set seen) \<and>
    acc = (sku_of v # skus, (case id_of v of None \<Rightarrow> seen | Some i \<Rightarrow> i # seen), act \<or> active_of v)"
proof (cases v)
  case (JObj m)
  have sku: "valid_text 1 64 (member m ''sku'') \<Longrightarrow> \<exists>s. member m ''sku'' = JStr s"
    by (auto simp: valid_text_def)
  have flag: "is_bool (member m ''active'') \<Longrightarrow>
      (if act then Inr True else bind_res (get_at J (JObj m) ''active'') (as_bool J)) = Inr (act \<or> active_of v)"
    using J by (auto simp: is_bool_iff jsoncpp_rules active_of_def JObj)
  have attrs: "valid_attributes a \<longleftrightarrow> is_object a \<and> jsize a \<le> 30 \<and>
      (\<exists>keys. member_names J a = Inr keys \<and>
         each (\<lambda>key. text_field J a (c_str key) 1 300) keys = Inr ())" for a
    using J by (cases a) (auto simp: valid_attributes_def jsize_def jsoncpp_rules attribute_texts_Inr [simplified])
  show ?thesis
    using J sku flag
    by (auto simp: JObj variant_step_def text_field_Inr bind_res_eq_Inr price_check_Inr variant_id_Inr
        jsoncpp_rules valid_variant_def sku_of_def attrs id_of_def is_bool_iff ex_bool_eq
        split: option.splits)
next
qed (auto simp: variant_step_def bind_res_eq_Inr text_field_Inr [OF J] valid_variant_def)

lemma ids_of_simps [simp]:
  "ids_of [] = []"
  "ids_of (v # vs) = (case id_of v of None \<Rightarrow> ids_of vs | Some i \<Rightarrow> i # ids_of vs)"
  by (simp_all add: ids_of_def List.map_filter_simps split: option.splits)

lemma variants_fold:
  assumes J: "jsoncpp_ok J"
  shows "fold_res (variant_step J) vs (skus, seen, act) = Inr acc \<longleftrightarrow>
    valid_variants J vs \<and> set (map sku_of vs) \<inter> set skus = {} \<and> set (ids_of vs) \<inter> set seen = {} \<and>
    acc = (rev (map sku_of vs) @ skus, rev (ids_of vs) @ seen, act \<or> list_ex active_of vs)"
proof (induction vs arbitrary: skus seen act)
  case Nil
  then show ?case by (auto simp: valid_variants_def)
next
  case (Cons v vs)
  show ?case
    unfolding fold_res.simps bind_res_eq_Inr variant_step_Inr [OF J]
    by (auto simp: Cons valid_variants_def split: option.splits)
qed

lemma locale_texts_Inr:
  assumes J: "jsoncpp_ok J"
  shows "locale_texts J (JObj ts) l = Inr u \<longleftrightarrow> valid_translation (member ts l)"
proof -
  have *: "(\<exists>x. P x) \<Longrightarrow> (\<exists>x::unit. P x)" for P by simp
  show ?thesis
    using J by (auto simp: locale_texts_def jsoncpp_rules bind_res_eq_Inr text_field_Inr valid_translation_def)
qed

lemma brand_check:
  assumes J: "jsoncpp_ok J"
  shows "(if is_null b then Inr ()
      else bind_res (throw_if (\<not> is_string b) (validation_failed ''Invalid brand'')) (\<lambda>_.
           bind_res (as_string J b) (\<lambda>s. throw_if (\<not> uuid s) (validation_failed ''Invalid brand'')))) = Inr u
    \<longleftrightarrow> b = JNull \<or> (\<exists>s. b = JStr s \<and> uuid s)"
  using J by (cases b) (auto simp: jsoncpp_rules bind_res_eq_Inr)

lemma valid_draftE:
  assumes "valid_draft J (JObj m)"
  obtains ts vs s st where "valid_text 1 160 (member m ''slug'')" "member m ''slug'' = JStr s" "slug s"
    "member m ''status'' = JStr st" "st \<in> {''draft'', ''active'', ''archived''}"
    "member m ''brandId'' = JNull \<or> (\<exists>b. member m ''brandId'' = JStr b \<and> uuid b)"
    "valid_ids 1 10 (member m ''categoryIds'')" "valid_ids 0 10 (member m ''mediaIds'')"
    "member m ''translations'' = JObj ts" "length ts = 2"
    "valid_translation (member ts ''ru'')" "valid_translation (member ts ''ro'')"
    "member m ''variants'' = JArr vs" "1 \<le> length vs" "length vs \<le> 50" "valid_variants J vs"
    "st = ''active'' \<longrightarrow> list_ex active_of vs"
  using assms unfolding valid_draft_def by (elim exE conjE) (auto simp: valid_text_def)

text \<open>The conditions of \<open>validate_draft\<close> on an object, in the order of the code.\<close>

lemma draft_strings:
  assumes J: "jsoncpp_ok J"
  shows "text_field J (JObj m) k mn mx = Inr u \<and> bind_res (get_at J (JObj m) k) (as_string J) = Inr s \<longleftrightarrow>
    valid_text mn mx (member m k) \<and> member m k = JStr s"
  using J by (auto simp: text_field_Inr jsoncpp_rules valid_text_def)

lemma status_text: "s \<in> {''draft'', ''active'', ''archived''} \<Longrightarrow> valid_text 1 20 (JStr s)"
  by (auto simp: valid_text_def char_count_def leading_def byte_def blank_def)

text \<open>The checks of a draft that is an object, one conjunct for each.\<close>

lemma validate_draft_object:
  assumes J: "jsoncpp_ok J"
  shows "validate_draft J (JObj m) = Inr u \<longleftrightarrow> (\<exists>s st acc.
      (valid_text 1 160 (member m ''slug'') \<and> member m ''slug'' = JStr s) \<and> slug s \<and>
      (valid_text 1 20 (member m ''status'') \<and> member m ''status'' = JStr st) \<and>
      \<not> (st \<noteq> ''draft'' \<and> st \<noteq> ''active'' \<and> st \<noteq> ''archived'') \<and>
      (member m ''brandId'' = JNull \<or> (\<exists>b. member m ''brandId'' = JStr b \<and> uuid b)) \<and>
      valid_ids 1 10 (member m ''categoryIds'') \<and> valid_ids 0 10 (member m ''mediaIds'') \<and>
      (\<exists>ts. member m ''translations'' = JObj ts \<and> length ts = 2 \<and>
        valid_translation (member ts ''ru'') \<and> valid_translation (member ts ''ro'')) \<and>
      (\<exists>vs. member m ''variants'' = JArr vs \<and> 1 \<le> length vs \<and> length vs \<le> 50 \<and> valid_variants J vs \<and>
        acc = (rev (map sku_of vs), rev (ids_of vs), list_ex active_of vs)) \<and>
      \<not> (st = ''active'' \<and> \<not> snd (snd acc)))"
proof -
  have obj: "(is_object (JObj m) \<and> P) = P" for P by simp
  have trans: "\<not> (\<not> is_object t \<or> jsize t \<noteq> 2) \<and> each (locale_texts J t) [''ru'', ''ro''] = Inr v \<longleftrightarrow>
      (\<exists>ts. t = JObj ts \<and> length ts = 2 \<and> valid_translation (member ts ''ru'') \<and>
        valid_translation (member ts ''ro''))" for t v
    using J by (cases t) (auto simp: jsize_def bind_res_eq_Inr locale_texts_Inr)
  have vars: "\<not> (\<not> is_array w \<or> jsize w = 0 \<or> 50 < jsize w) \<and>
      fold_res (variant_step J) (elements w) ([], [], False) = Inr acc \<longleftrightarrow>
      (\<exists>vs. w = JArr vs \<and> 1 \<le> length vs \<and> length vs \<le> 50 \<and> valid_variants J vs \<and>
        acc = (rev (map sku_of vs), rev (ids_of vs), list_ex active_of vs))" for w acc
    by (cases w) (auto simp: jsize_def variants_fold [OF J] Suc_le_eq)
  have "validate_draft J (JObj m) = Inr u \<longleftrightarrow> (\<exists>s st acc.
      (text_field J (JObj m) ''slug'' 1 160 = Inr () \<and> bind_res (get_at J (JObj m) ''slug'') (as_string J) = Inr s) \<and> slug s \<and>
      (text_field J (JObj m) ''status'' 1 20 = Inr () \<and> bind_res (get_at J (JObj m) ''status'') (as_string J) = Inr st) \<and>
      \<not> (st \<noteq> ''draft'' \<and> st \<noteq> ''active'' \<and> st \<noteq> ''archived'') \<and>
      (member m ''brandId'' = JNull \<or> (\<exists>b. member m ''brandId'' = JStr b \<and> uuid b)) \<and>
      valid_ids 1 10 (member m ''categoryIds'') \<and> valid_ids 0 10 (member m ''mediaIds'') \<and>
      (\<not> (\<not> is_object (member m ''translations'') \<or> jsize (member m ''translations'') \<noteq> 2) \<and>
        each (locale_texts J (member m ''translations'')) [''ru'', ''ro''] = Inr ()) \<and>
      (\<not> (\<not> is_array (member m ''variants'') \<or> jsize (member m ''variants'') = 0 \<or>
          50 < jsize (member m ''variants'')) \<and>
        fold_res (variant_step J) (elements (member m ''variants'')) ([], [], False) = Inr acc) \<and>
      \<not> (st = ''active'' \<and> \<not> snd (snd acc)))"
    unfolding validate_draft_def at_object [OF J] bind_res_Inr bind_unit_eq_Inr brand_check [OF J]
      bind_res_eq_Inr [of "as_string J v" for v] throw_if_eq_Inr ids_Inr [OF J]
      bind_res_eq_Inr [of "fold_res (variant_step J) xs acc" for xs acc] case_prod_unfold not_not obj
    by (intro iffI; elim exE conjE) (intro exI conjI, assumption+)+
  then show ?thesis
    unfolding draft_strings [OF J] trans vars .
qed

lemma validate_draft_Inr:
  assumes J: "jsoncpp_ok J"
  shows "validate_draft J d = Inr u \<longleftrightarrow> valid_draft J d"
proof (cases d)
  case (JObj m)
  note code = validate_draft_object [OF J, of m u]
  show ?thesis
  proof
    assume "validate_draft J d = Inr u"
    then show "valid_draft J d"
      unfolding JObj code valid_draft_def
      by (elim exE conjE, intro exI, intro conjI) (rule refl | assumption | simp)+
  next
    assume "valid_draft J d"
    then obtain ts vs s st where parts: "valid_text 1 160 (member m ''slug'')" "member m ''slug'' = JStr s" "slug s"
      "member m ''status'' = JStr st" "st \<in> {''draft'', ''active'', ''archived''}"
      "member m ''brandId'' = JNull \<or> (\<exists>b. member m ''brandId'' = JStr b \<and> uuid b)"
      "valid_ids 1 10 (member m ''categoryIds'')" "valid_ids 0 10 (member m ''mediaIds'')"
      "member m ''translations'' = JObj ts" "length ts = 2"
      "valid_translation (member ts ''ru'')" "valid_translation (member ts ''ro'')"
      "member m ''variants'' = JArr vs" "1 \<le> length vs" "length vs \<le> 50" "valid_variants J vs"
      "st = ''active'' \<longrightarrow> list_ex active_of vs"
      unfolding JObj by (rule valid_draftE)
    show "validate_draft J d = Inr u"
      unfolding JObj code
      apply (rule exI [of _ s], rule exI [of _ st], rule exI [of _ "(rev (map sku_of vs), rev (ids_of vs), list_ex active_of vs)"])
      using parts status_text [OF parts(5)] by simp
  qed
qed (auto simp: validate_draft_def valid_draft_def bind_res_eq_Inr)

subsection \<open>Which errors a draft can get\<close>

definition indexable :: "json \<Rightarrow> bool" where
  "indexable v \<longleftrightarrow> is_object v \<or> is_null v"

text \<open>The values that the checks index are objects (or absent).\<close>

definition draft_shaped :: "json \<Rightarrow> bool" where
  "draft_shaped d \<longleftrightarrow> (\<forall>m. d = JObj m \<longrightarrow>
     (\<forall>ts l. member m ''translations'' = JObj ts \<longrightarrow> l \<in> {''ru'', ''ro''} \<longrightarrow> indexable (member ts l)) \<and>
     (\<forall>v \<in> set (elements (member m ''variants'')). indexable v))"

definition only_422 :: "'a res \<Rightarrow> bool" where
  "only_422 r \<longleftrightarrow> (\<forall>e. r = Inl e \<longrightarrow> (\<exists>m. e = validation_failed m))"

lemma only_422_Inr [simp, intro]: "only_422 (Inr x)"
  by (simp add: only_422_def)

lemma only_422_Inl [simp, intro]: "only_422 (Inl (validation_failed m))"
  by (auto simp: only_422_def)

lemma only_422_throw_if [simp, intro]: "only_422 (throw_if b (validation_failed m))"
  by (auto simp: only_422_def)

lemma only_422_bind: "only_422 r \<Longrightarrow> (\<And>x. r = Inr x \<Longrightarrow> only_422 (f x)) \<Longrightarrow> only_422 (bind_res r f)"
  by (cases r) (auto simp: only_422_def)

lemma only_422_each: "(\<And>x. x \<in> set xs \<Longrightarrow> only_422 (f x)) \<Longrightarrow> only_422 (each f xs)"
  by (induction xs) (auto intro: only_422_bind)

lemma only_422_fold:
  "(\<And>x acc. x \<in> set xs \<Longrightarrow> only_422 (f x acc)) \<Longrightarrow> only_422 (fold_res f xs acc)"
  by (induction xs arbitrary: acc) (auto intro: only_422_bind)

lemma only_422_text_field: "jsoncpp_ok J \<Longrightarrow> indexable v \<Longrightarrow> only_422 (text_field J v k mn mx)"
  by (auto simp: indexable_def is_object_iff is_null_iff text_field_object text_field_null)

lemma only_422_ids: "jsoncpp_ok J \<Longrightarrow> only_422 (ids J v mn mx)"
  unfolding ids_def ids_step_def
  by (auto intro!: only_422_bind only_422_fold simp: is_string_iff jsoncpp_rules)

lemma only_422_variant_step:
  assumes J: "jsoncpp_ok J" and v: "indexable v"
  shows "only_422 (variant_step J v acc)"
proof (cases "is_null v")
  case True
  then show ?thesis
    using J by (auto simp: variant_step_def is_null_iff text_field_null split: prod.splits)
next
  case False
  with v obtain m where m: "v = JObj m" by (auto simp: indexable_def is_object_iff)
  have price: "only_422 (price_check J (JObj m))"
    unfolding price_check_def at_object [OF J] bind_res_Inr
    by (intro only_422_bind only_422_throw_if)
      (use is_int64_as [OF J, of "member m ''priceMinor''"] in \<open>auto simp: ok_iff only_422_def\<close>)
  have vid: "only_422 (variant_id J (JObj m) seen)" for seen
    unfolding variant_id_def
    using J by (auto intro!: only_422_bind simp: jsoncpp_rules is_string_iff)
  have names: "is_object a \<Longrightarrow> only_422 (member_names J a)" for a
    using J by (auto simp: is_object_iff jsoncpp_rules)
  have texts: "is_object a \<Longrightarrow> only_422 (each (\<lambda>key. text_field J a (c_str key) 1 300) keys)" for a keys
    using J by (intro only_422_each only_422_text_field) (auto simp: indexable_def)
  obtain skus seen act where acc: "acc = (skus, seen, act)" by (cases acc)
  show ?thesis
    unfolding variant_step_def m acc prod.case at_object [OF J] bind_res_Inr
    by (intro only_422_bind price vid only_422_throw_if only_422_text_field [OF J])
      (use J names texts in \<open>auto simp: indexable_def text_field_Inr valid_text_def jsoncpp_rules
        price_check_Inr is_bool_iff\<close>)
qed

lemma only_422_locale_texts:
  "jsoncpp_ok J \<Longrightarrow> indexable (member ts l) \<Longrightarrow> only_422 (locale_texts J (JObj ts) l)"
  unfolding locale_texts_def
  by (simp add: jsoncpp_rules) (intro only_422_bind only_422_text_field)

lemma validate_draft_only_422:
  assumes J: "jsoncpp_ok J" and shaped: "draft_shaped d"
  shows "only_422 (validate_draft J d)"
proof (cases "is_object d")
  case False
  then show ?thesis by (simp add: validate_draft_def throw_if_def)
next
  case True
  then obtain m where d: "d = JObj m" by (auto simp: is_object_iff)
  have brand: "only_422 (if is_null b then Inr ()
      else bind_res (throw_if (\<not> is_string b) (validation_failed ''Invalid brand'')) (\<lambda>_.
           bind_res (as_string J b) (\<lambda>s. throw_if (\<not> uuid s) (validation_failed ''Invalid brand''))))" for b
    using J by (cases b) (auto intro!: only_422_bind simp: jsoncpp_rules)
  have str: "text_field J (JObj m) k mn mx = Inr u \<Longrightarrow> only_422 (as_string J (member m k))" for k mn mx u
    using J by (auto simp: text_field_Inr valid_text_def jsoncpp_rules)
  have trans: "throw_if (\<not> is_object t \<or> jsize t \<noteq> 2) e = Inr u \<Longrightarrow> t = member m ''translations'' \<Longrightarrow>
      only_422 (each (locale_texts J t) [''ru'', ''ro''])" for t e u
    using shaped by (intro only_422_each) (auto simp: d draft_shaped_def is_object_iff intro!: only_422_locale_texts [OF J])
  have vars: "only_422 (fold_res (variant_step J) (elements (member m ''variants'')) acc)" for acc
    using shaped by (intro only_422_fold only_422_variant_step [OF J]) (auto simp: d draft_shaped_def)
  have idx: "indexable (JObj m)" by (simp add: indexable_def)
  show ?thesis
    unfolding validate_draft_def d at_object [OF J] bind_res_Inr case_prod_unfold
    by (intro only_422_bind only_422_throw_if only_422_text_field [OF J idx] only_422_ids [OF J] brand vars;
      (erule str | erule trans, rule refl))
qed

text \<open>
  An element that is neither an object nor null makes JsonCpp throw instead: the code
  indexes it before it has looked at its type.
\<close>

lemma variants_non_object:
  assumes J: "jsoncpp_ok J" and valid: "valid_draft J (JObj m)" and v: "\<not> indexable v"
  shows "\<exists>e. validate_draft J (JObj (AList.update ''variants'' (JArr [v]) m)) = Inl (StdError e)"
proof -
  let ?m = "AList.update ''variants'' (JArr [v]) m"
  from v obtain e where "text_field J v ''sku'' 1 64 = Inl (StdError e)"
    using text_field_other [OF J, of v "''sku''" 1 64] by (auto simp: indexable_def)
  then have step: "fold_res (variant_step J) [v] ([], [], False) = Inl (StdError e)"
    by (simp add: variant_step_def)
  from valid obtain ts s st where parts: "valid_text 1 160 (member m ''slug'')" "member m ''slug'' = JStr s" "slug s"
      "member m ''status'' = JStr st" "st \<in> {''draft'', ''active'', ''archived''}"
      "member m ''brandId'' = JNull \<or> (\<exists>b. member m ''brandId'' = JStr b \<and> uuid b)"
      "valid_ids 1 10 (member m ''categoryIds'')" "valid_ids 0 10 (member m ''mediaIds'')"
      "member m ''translations'' = JObj ts" "length ts = 2"
      "valid_translation (member ts ''ru'')" "valid_translation (member ts ''ro'')"
    by (rule valid_draftE)
  have steps: "text_field J (JObj ?m) ''slug'' 1 160 = Inr ()" "text_field J (JObj ?m) ''status'' 1 20 = Inr ()"
      "ids J (member m ''categoryIds'') 1 10 = Inr ()" "ids J (member m ''mediaIds'') 0 10 = Inr ()"
      "each (locale_texts J (JObj ts)) [''ru'', ''ro''] = Inr ()"
    using parts status_text [OF parts(5)]
    by (simp_all add: text_field_object [OF J] ids_Inr [OF J] each_eq_Inr locale_texts_Inr [OF J]
        del: each.simps)
  have status: "throw_if (st \<noteq> ''draft'' \<and> st \<noteq> ''active'' \<and> st \<noteq> ''archived'') x = Inr ()" for x
    using parts(5) by auto
  have "validate_draft J (JObj ?m) = Inl (StdError e)"
    unfolding validate_draft_def at_object [OF J] bind_res_Inr member_update steps
    by (simp add: parts as_string_JStr [OF J] steps status jsize_def step
        del: each.simps fold_res.simps One_nat_def) (use parts(6) J in \<open>auto simp: as_string_JStr\<close>)
  then show ?thesis by blast
qed

subsection \<open>Filters\<close>

text \<open>A non-negative decimal; \<open>from_chars\<close> reads \<open>-0\<close> as zero.\<close>

definition decimal :: "string \<Rightarrow> int \<Rightarrow> bool" where
  "decimal s v \<longleftrightarrow> numeral_string s \<and> v = int (digits_value s) \<or>
     (\<exists>ds. s = CHR ''-'' # ds \<and> numeral_string ds \<and> digits_value ds = 0 \<and> v = 0)"

lemma integer_Inr:
  assumes "mx < 2 ^ 63"
  shows "integer s fallback mx = Inr v \<longleftrightarrow>
    (if s = [] then v = fallback else decimal s v \<and> 0 \<le> v \<and> v \<le> mx)"
proof (cases "s = []")
  case False
  have "integer s fallback mx = Inr v \<longleftrightarrow> from_chars_i64 s = Parsed v [] \<and> 0 \<le> v \<and> v \<le> mx"
    using False by (auto simp: integer_def split: from_chars_result.splits if_splits)
  also have "\<dots> \<longleftrightarrow> decimal s v \<and> 0 \<le> v \<and> v \<le> mx"
    using assms by (auto simp: from_chars_i64_def from_chars_signed_all decimal_def)
  finally show ?thesis using False by simp
qed (auto simp: integer_def)

definition in_bounds :: "string \<Rightarrow> int \<Rightarrow> int \<Rightarrow> int \<Rightarrow> int \<Rightarrow> bool" where
  "in_bounds s fallback lo hi v \<longleftrightarrow> (if s = [] then v = fallback else decimal s v) \<and> lo \<le> v \<and> v \<le> hi"

definition param_or :: "request \<Rightarrow> string \<Rightarrow> string \<Rightarrow> string" where
  "param_or req key d = (if get_parameter req key \<noteq> [] then get_parameter req key else d)"

lemma integer_in_bounds: "mx < 2 ^ 63 \<Longrightarrow> 0 \<le> fallback \<Longrightarrow> fallback \<le> mx \<Longrightarrow>
    integer s fallback mx = Inr v \<longleftrightarrow> in_bounds s fallback 0 mx v"
  by (auto simp: integer_Inr in_bounds_def)

lemma in_bounds_positive: "in_bounds s fallback 1 mx v \<longleftrightarrow> in_bounds s fallback 0 mx v \<and> v \<noteq> 0"
  by (auto simp: in_bounds_def)

definition filter_numbers :: "request \<Rightarrow> search_filter \<Rightarrow> bool" where
  "filter_numbers req f \<longleftrightarrow>
     in_bounds (get_parameter req ''page'') 1 1 10000 (f_page f) \<and>
     in_bounds (get_parameter req ''limit'') 12 1 48 (f_limit f) \<and>
     in_bounds (get_parameter req ''minPrice'') 0 0 100000000 (f_min_price f) \<and>
     in_bounds (get_parameter req ''maxPrice'') 100000000 0 100000000 (f_max_price f) \<and>
     f_min_price f \<le> f_max_price f"

definition filter_texts :: "request \<Rightarrow> search_filter \<Rightarrow> bool" where
  "filter_texts req f \<longleftrightarrow>
     f_locale f = param_or req ''locale'' ''ru'' \<and> (f_locale f = ''ru'' \<or> f_locale f = ''ro'') \<and>
     f_query f = get_parameter req ''q'' \<and> length (f_query f) \<le> 200 \<and>
     f_category f = get_parameter req ''category'' \<and> (f_category f = [] \<or> uuid (f_category f)) \<and>
     f_brand f = get_parameter req ''brand'' \<and> (f_brand f = [] \<or> uuid (f_brand f)) \<and>
     f_sort f = param_or req ''sort'' ''newest'' \<and>
     (f_sort f = ''newest'' \<or> f_sort f = ''price_asc'' \<or> f_sort f = ''price_desc'' \<or> f_sort f = ''name'')"

lemma parse_filter_Inr:
  "parse_filter req = Inr f \<longleftrightarrow> filter_texts req f \<and> filter_numbers req f"
proof -
  obtain l q c b s p n lo hi where f: "f = \<lparr>f_locale = l, f_query = q, f_category = c, f_brand = b, f_sort = s,
      f_page = p, f_limit = n, f_min_price = lo, f_max_price = hi\<rparr>"
    by (cases f) auto
  have numbers: "filter_numbers req f \<longleftrightarrow>
      integer (get_parameter req ''page'') 1 10000 = Inr p \<and> integer (get_parameter req ''limit'') 12 48 = Inr n \<and>
      integer (get_parameter req ''minPrice'') 0 100000000 = Inr lo \<and>
      integer (get_parameter req ''maxPrice'') 100000000 100000000 = Inr hi \<and> \<not> (p = 0 \<or> n = 0 \<or> hi < lo)"
    by (auto simp: f filter_numbers_def integer_in_bounds in_bounds_positive)
  show ?thesis
    unfolding numbers [unfolded f] filter_texts_def parse_filter_def Let_def param_or_def [symmetric]
      bind_unit_eq_Inr bind_res_eq_Inr throw_if_eq_Inr f sum.inject search_filter.simps
    by (auto simp only: search_filter.iffs simp_thms not_le not_less de_Morgan_disj de_Morgan_conj not_not)
qed

subsection \<open>The public view\<close>

definition boolean_flags :: "json list \<Rightarrow> bool" where
  "boolean_flags vs \<longleftrightarrow> list_all (\<lambda>v. \<exists>m. v = JObj m \<and> is_bool (member m ''active'')) vs"

lemma keep_active_fold:
  assumes J: "jsoncpp_ok J"
  shows "boolean_flags vs \<Longrightarrow> fold_res (keep_active J) vs kept = Inr (kept @ filter active_of vs)"
proof (induction vs arbitrary: kept)
  case (Cons v vs)
  then obtain m b where "v = JObj m" "member m ''active'' = JBool b"
    by (auto simp: boolean_flags_def is_bool_iff)
  with Cons show ?case
    by (simp add: boolean_flags_def keep_active_def jsoncpp_rules [OF J] active_of_def)
qed simp

lemma public_document_object:
  assumes J: "jsoncpp_ok J" and "boolean_flags (elements (member m ''variants''))"
  shows "public_document J (JObj m) =
    Inr (JObj (AList.update ''variants'' (JArr (filter active_of (elements (member m ''variants'')))) m))"
  using assms by (simp add: public_document_def jsoncpp_rules keep_active_fold [OF J])

subsection \<open>Properties\<close>

text \<open>
  C9. The draft checks accept exactly the well-formed drafts: an object with a slug of the
  slug alphabet, a known status, no brand or a UUID, one to ten distinct category UUIDs, at most
  ten distinct media UUIDs, exactly the two translations with their text bounds (counted in
  characters, a required text not being blank), and one to fifty variants with distinct SKUs,
  distinct identifiers, prices from 0 to 100000000 minor units, a boolean flag and bounded
  attributes, one of them active if the product is.
\<close>

theorem validate_draft_accepts:
  assumes "jsoncpp_ok J"
  shows "validate_draft J draft = Inr () \<longleftrightarrow> valid_draft J draft"
  by (rule validate_draft_Inr [OF assms])

text \<open>
  C27. Every rejection of a draft whose translations and variants are objects (or missing) is
  \<open>422 VALIDATION_FAILED\<close>.  But replacing the variants of a valid draft by one value that is
  neither an object nor null, a number for instance, makes the check throw JsonCpp's own
  exception, which \<open>dispatch\<close> answers with \<open>500 INTERNAL_ERROR\<close>.
\<close>

theorem validate_draft_errors:
  assumes "jsoncpp_ok J"
  shows "(draft_shaped draft \<longrightarrow> validate_draft J draft = Inl e \<longrightarrow> (\<exists>m. e = validation_failed m)) \<and>
    (valid_draft J (JObj ms) \<longrightarrow> \<not> is_object v \<longrightarrow> v \<noteq> JNull \<longrightarrow>
      resp_status (reply_of u req (bind_res
        (validate_draft J (JObj (AList.update ''variants'' (JArr [v]) ms))) r)) = 500)"
  using validate_draft_only_422 [OF assms, of draft] variants_non_object [OF assms, of ms v]
  by (auto simp: only_422_def indexable_def is_null_iff reply_of_def)

text \<open>
  A parsed search filter is within its bounds, is the one the parameters spell (with the
  defaults for the missing ones), and the SQL offset computed from it in 32-bit arithmetic
  cannot overflow.
\<close>

lemma parse_filter_bounds:
  assumes "parse_filter req = Inr f"
  shows "filter_texts req f \<and> filter_numbers req f \<and>
    0 \<le> (f_page f - 1) * f_limit f \<and> (f_page f - 1) * f_limit f < 2 ^ 31"
proof -
  have facts: "filter_texts req f" "filter_numbers req f" using assms by (simp_all add: parse_filter_Inr)
  then have page: "1 \<le> f_page f" "f_page f \<le> 10000" and limit: "1 \<le> f_limit f" "f_limit f \<le> 48"
    by (simp_all add: filter_numbers_def in_bounds_def)
  have "(f_page f - 1) * f_limit f \<le> 9999 * 48" using page limit by (intro mult_mono) auto
  moreover have "0 \<le> (f_page f - 1) * f_limit f" using page limit by simp
  ultimately show ?thesis using facts by simp
qed

subsection \<open>Examples\<close>

definition sample_category :: string where
  "sample_category = ''00000000-0000-4000-8000-0000000000c1''"

definition sample_texts :: "string \<Rightarrow> json" where
  "sample_texts name = JObj [(''name'', JStr name), (''description'', JStr ''1.7 l''),
     (''seoTitle'', JStr []), (''seoDescription'', JStr [])]"

definition sample_variant :: "(string \<times> json) list \<Rightarrow> string \<Rightarrow> int \<Rightarrow> json" where
  "sample_variant key sku price = JObj (key @ [(''sku'', JStr sku), (''name'', JStr ''Steel''),
     (''priceMinor'', JInt price), (''active'', JBool True),
     (''attributes'', JObj [(''color'', JStr ''steel'')])])"

definition sample_draft_of :: "json list \<Rightarrow> json" where
  "sample_draft_of vs = JObj [(''slug'', JStr ''kettle''), (''status'', JStr ''active''), (''brandId'', JNull),
     (''categoryIds'', JArr [JStr sample_category]), (''mediaIds'', JArr []),
     (''translations'', JObj [(''ru'', sample_texts ''Chainik''), (''ro'', sample_texts ''Ceainic'')]),
     (''variants'', JArr vs)]"

definition sample_draft :: json where
  "sample_draft = sample_draft_of [sample_variant [] ''K-1'' 19900]"

lemma valid_text_JStr: "valid_text mn mx (JStr s) \<longleftrightarrow>
    mn \<le> char_count s \<and> char_count s \<le> mx \<and> (0 < mn \<longrightarrow> \<not> list_all blank s)"
  by (simp add: valid_text_def)

lemma valid_ids_JArr: "valid_ids mn mx (JArr (map JStr ss)) \<longleftrightarrow>
    mn \<le> length ss \<and> length ss \<le> mx \<and> list_all uuid ss \<and> distinct ss"
  by (auto simp: valid_ids_def)

lemmas text_eval = valid_text_JStr char_count_def leading_def byte_def blank_def

lemma sample_keys: "uuid sample_category" "slug ''kettle''"
  by code_simp+

lemma sample_translation: "s \<in> {''Chainik'', ''Ceainic''} \<Longrightarrow> valid_translation (sample_texts s)"
  by (auto simp: valid_translation_def sample_texts_def text_eval)

lemma sample_variant_valid: "valid_variant sample_jsoncpp (sample_variant [] ''K-1'' 19900)"
  by (auto simp: valid_variant_def sample_variant_def text_eval valid_price_def sample_jsoncpp_def
      valid_attributes_def c_str_def)

lemma sample_draft_valid: "valid_draft sample_jsoncpp sample_draft"
proof -
  let ?vs = "[sample_variant [] ''K-1'' 19900]"
  let ?ts = "[(''ru'', sample_texts ''Chainik''), (''ro'', sample_texts ''Ceainic'')]"
  have vs: "valid_variants sample_jsoncpp ?vs" "list_ex active_of ?vs"
    using sample_variant_valid by (simp_all add: valid_variants_def id_of_def sample_variant_def active_of_def)
  have ids: "valid_ids 1 10 (JArr [JStr sample_category])" "valid_ids 0 10 (JArr [])"
    using valid_ids_JArr [of 1 10 "[sample_category]"] valid_ids_JArr [of 0 10 "[]"] sample_keys by simp_all
  show ?thesis
    unfolding valid_draft_def
    by (rule exI [of _ "members_of sample_draft"], rule exI [of _ ?ts], rule exI [of _ ?vs])
      (use vs ids sample_keys in \<open>simp add: sample_draft_def sample_draft_of_def sample_translation text_eval\<close>)
qed

theorem validate_draft_accepts_witness: "validate_draft sample_jsoncpp sample_draft = Inr ()"
  using validate_draft_accepts [OF sample_jsoncpp_ok, of sample_draft] sample_draft_valid by simp

theorem validate_draft_errors_witness:
  "resp_status (reply_of ''u'' sample_request (bind_res
     (validate_draft sample_jsoncpp (JObj (AList.update ''variants'' (JArr [JInt 7]) (members_of sample_draft))))
     (\<lambda>_. Inr (json_response JNull)))) = 500"
proof -
  have "JObj (members_of sample_draft) = sample_draft" by (simp add: sample_draft_def sample_draft_of_def)
  then show ?thesis
    using validate_draft_errors [OF sample_jsoncpp_ok, of JNull undefined "members_of sample_draft" "JInt 7"
        "''u''" sample_request "\<lambda>_. Inr (json_response JNull)"] sample_draft_valid by simp
qed

lemma parse_filter_bounds_witness:
  "\<exists>f. parse_filter sample_request = Inr f \<and> f_page f = 3 \<and> f_limit f = 12 \<and>
     0 \<le> (f_page f - 1) * f_limit f"
proof -
  have "parse_filter sample_request = Inr \<lparr>f_locale = ''ru'', f_query = [], f_category = [], f_brand = [],
      f_sort = ''name'', f_page = 3, f_limit = 12, f_min_price = 0, f_max_price = 100000000\<rparr>"
    by code_simp
  from parse_filter_bounds [OF this] this show ?thesis by simp
qed

end
