(* ===== verification/Catalog_Store.thy ===== *)
theory Catalog_Store
  imports Database Catalog_Validation
begin

text \<open>
  The write side of the catalog: the read model \<open>catalog_document\<close> (migration
  0002_catalog.sql), the function \<open>catalog_save\<close> (migration 0003_catalog_write.sql) and
  \<open>Repository::save\<close>, which calls it.  Each SQL statement of the function is a definition
  that checks the constraints of its table in PostgreSQL's order: NOT NULL and CHECK for a
  row, then the unique indexes, and the foreign keys at the end of the statement.  The block
  has an EXCEPTION clause, so an error inside it undoes everything the call did.
\<close>

subsection \<open>catalog\_document\<close>

definition json_option :: "string option \<Rightarrow> json" where
  "json_option s = (case s of None \<Rightarrow> JNull | Some x \<Rightarrow> JStr x)"

definition media_path :: "string \<Rightarrow> string \<Rightarrow> string" where
  "media_path key width = ''/api/v1/media/'' @ key @ ''/'' @ width @ ''.webp''"

definition image_json :: "image_row \<Rightarrow> json" where
  "image_json i = JObj
     [(''id'', JStr (i_media i)), (''url'', JStr (media_path (i_media i) ''640'')),
      (''srcSet'', JStr (media_path (i_media i) ''320'' @ '' 320w, '' @ media_path (i_media i) ''640'' @
         '' 640w, '' @ media_path (i_media i) ''1280'' @ '' 1280w''))]"

definition variant_json :: "db \<Rightarrow> variant_row \<Rightarrow> json" where
  "variant_json d v = JObj
     [(''id'', JStr (v_id v)), (''sku'', JStr (v_sku v)), (''name'', JStr (v_name v)),
      (''priceMinor'', JInt (v_price v)), (''currency'', JStr ''MDL''), (''active'', JBool (v_active v)),
      (''attributes'', JObj (map (\<lambda>a. (a_code a, JStr (a_value a)))
         (filter (\<lambda>a. a_variant a = v_id v) (attribute_values d))))]"

definition translation_json :: "translation_row \<Rightarrow> string \<times> json" where
  "translation_json t = (t_locale t, JObj
     [(''name'', JStr (t_name t)), (''description'', JStr (t_description t)),
      (''seoTitle'', JStr (t_seo_title t)), (''seoDescription'', JStr (t_seo_description t))])"

definition find_product :: "db \<Rightarrow> string \<Rightarrow> product_row option" where
  "find_product d key = find (\<lambda>p. p_id p = key) (products d)"

definition catalog_document :: "postgres \<Rightarrow> db \<Rightarrow> string \<Rightarrow> json option" where
  "catalog_document P d key = (case find_product d key of None \<Rightarrow> None | Some p \<Rightarrow> Some (JObj
     [(''id'', JStr (p_id p)), (''slug'', JStr (p_slug p)), (''status'', JStr (p_status p)),
      (''revision'', JInt (p_revision p)), (''brandId'', json_option (p_brand p)),
      (''categoryIds'', JArr (map JStr (sort (map snd (filter (\<lambda>(q, _). q = key) (product_categories d)))))),
      (''translations'', JObj (map translation_json (filter (\<lambda>t. t_product t = key) (product_texts d)))),
      (''variants'', JArr (map (variant_json d)
         (sort_key (\<lambda>v. collation_key P (v_sku v)) (filter (\<lambda>v. v_product v = key) (variants d))))),
      (''images'', JArr (map image_json
         (sort_key i_position (filter (\<lambda>i. i_product i = key) (images d)))))]))"

subsection \<open>The row of the product\<close>

definition known_status :: "string \<Rightarrow> bool" where
  "known_status s \<longleftrightarrow> s = ''draft'' \<or> s = ''active'' \<or> s = ''archived''"

text \<open>The constraints of \<open>products\<close> for a row, against the other rows and the brands.\<close>

definition product_constraints :: "db \<Rightarrow> product_row list \<Rightarrow> product_row \<Rightarrow> unit sql" where
  "product_constraints d others p =
    bind_res (throw_if (\<not> slug (p_slug p) \<or> \<not> known_status (p_status p) \<or> p_revision p \<le> 0) Check_Violation) (\<lambda>_.
    bind_res (throw_if (list_ex (\<lambda>q. p_id q = p_id p \<or> p_slug q = p_slug p) others) Unique_Violation) (\<lambda>_.
    throw_if (case p_brand p of None \<Rightarrow> False | Some b \<Rightarrow> \<not> list_ex (\<lambda>r. b_id r = b) (brands d))
      Foreign_Key_Violation))"

definition update_product :: "postgres \<Rightarrow> json \<Rightarrow> product_row \<Rightarrow> db \<Rightarrow> db sql" where
  "update_product P doc p d =
    bind_res (cast (uuid_in P) (field_text P doc ''brandId'')) (\<lambda>brand.
    bind_res (throw_if (2 ^ 31 \<le> p_revision p + 1) Other_Sql_Error) (\<lambda>_.
    bind_res (not_null (field_text P doc ''slug'')) (\<lambda>s.
    bind_res (not_null (field_text P doc ''status'')) (\<lambda>st.
    let p' = p\<lparr>p_slug := s, p_brand := brand, p_status := st, p_revision := p_revision p + 1,
               p_updated := clock d\<rparr> in
    bind_res (product_constraints d (filter (\<lambda>q. p_id q \<noteq> p_id p) (products d)) p') (\<lambda>_.
    Inr (d\<lparr>products := map (\<lambda>q. if p_id q = p_id p then p' else q) (products d)\<rparr>))))))"

definition insert_product :: "postgres \<Rightarrow> json \<Rightarrow> string \<Rightarrow> db \<Rightarrow> db sql" where
  "insert_product P doc key d =
    bind_res (cast (uuid_in P) (field_text P doc ''brandId'')) (\<lambda>brand.
    bind_res (not_null (field_text P doc ''slug'')) (\<lambda>s.
    bind_res (not_null (field_text P doc ''status'')) (\<lambda>st.
    let p = \<lparr>p_id = key, p_slug = s, p_brand = brand, p_status = st, p_revision = 1,
             p_created = clock d, p_updated = clock d\<rparr> in
    bind_res (product_constraints d (products d) p) (\<lambda>_.
    Inr (d\<lparr>products := products d @ [p]\<rparr>)))))"

subsection \<open>The rows that hang off the product\<close>

definition insert_category :: "postgres \<Rightarrow> string \<Rightarrow> json \<Rightarrow> db \<Rightarrow> db sql" where
  "insert_category P key x d =
    bind_res (cast (uuid_in P) (json_text P x)) (\<lambda>c'.
    bind_res (not_null c') (\<lambda>c.
    bind_res (throw_if ((key, c) \<in> set (product_categories d)) Unique_Violation) (\<lambda>_.
    Inr (d\<lparr>product_categories := product_categories d @ [(key, c)]\<rparr>))))"

definition write_categories :: "postgres \<Rightarrow> json \<Rightarrow> string \<Rightarrow> db \<Rightarrow> db sql" where
  "write_categories P doc key d =
    bind_res (array_elements (field doc ''categoryIds'')) (\<lambda>xs.
    bind_res (fold_res (insert_category P key) xs
      (d\<lparr>product_categories := filter (\<lambda>(q, _). q \<noteq> key) (product_categories d)\<rparr>)) (\<lambda>d'.
    bind_res (throw_if (list_ex (\<lambda>(q, c). q = key \<and> \<not> list_ex (\<lambda>r. c_id r = c) (categories d'))
      (product_categories d')) Foreign_Key_Violation) (\<lambda>_. Inr d')))"

definition insert_text :: "postgres \<Rightarrow> string \<Rightarrow> string \<times> json \<Rightarrow> db \<Rightarrow> db sql" where
  "insert_text P key entry d = (case entry of (loc, v) \<Rightarrow>
    bind_res (not_null (field_text P v ''name'')) (\<lambda>name.
    bind_res (not_null (field_text P v ''description'')) (\<lambda>description.
    bind_res (not_null (field_text P v ''seoTitle'')) (\<lambda>title.
    bind_res (not_null (field_text P v ''seoDescription'')) (\<lambda>seo.
    bind_res (throw_if (\<not> (loc = ''ru'' \<or> loc = ''ro'') \<or> char_count name < 1 \<or> 200 < char_count name \<or>
      20000 < char_count description \<or> 200 < char_count title \<or> 500 < char_count seo) Check_Violation) (\<lambda>_.
    bind_res (throw_if (list_ex (\<lambda>t. t_product t = key \<and> t_locale t = loc) (product_texts d)) Unique_Violation) (\<lambda>_.
    Inr (d\<lparr>product_texts := product_texts d @ [\<lparr>t_product = key, t_locale = loc, t_name = name,
      t_description = description, t_seo_title = title, t_seo_description = seo\<rparr>]\<rparr>))))))))"

definition write_texts :: "postgres \<Rightarrow> json \<Rightarrow> string \<Rightarrow> db \<Rightarrow> db sql" where
  "write_texts P doc key d =
    bind_res (object_members (field doc ''translations'')) (\<lambda>ms.
    fold_res (insert_text P key) ms
      (d\<lparr>product_texts := filter (\<lambda>t. t_product t \<noteq> key) (product_texts d)\<rparr>))"

text \<open>\<open>INSERT INTO product_variants ... ON CONFLICT(id) DO UPDATE\<close>\<close>

definition upsert_variant :: "postgres \<Rightarrow> string \<Rightarrow> string \<Rightarrow> json \<Rightarrow> db \<Rightarrow> db sql" where
  "upsert_variant P key vkey item d =
    bind_res (cast_bigint P (field_text P item ''priceMinor'')) (\<lambda>price'.
    bind_res (cast (boolean_in P) (field_text P item ''active'')) (\<lambda>active'.
    bind_res (not_null (field_text P item ''sku'')) (\<lambda>sku.
    bind_res (not_null (field_text P item ''name'')) (\<lambda>name.
    bind_res (not_null price') (\<lambda>price.
    bind_res (not_null active') (\<lambda>active.
    bind_res (throw_if (char_count sku < 1 \<or> 64 < char_count sku \<or> char_count name < 1 \<or>
      160 < char_count name \<or> price < 0 \<or> 100000000 < price) Check_Violation) (\<lambda>_.
    bind_res (throw_if (list_ex (\<lambda>v. v_sku v = sku \<and> v_id v \<noteq> vkey) (variants d)) Unique_Violation) (\<lambda>_.
    Inr (if list_ex (\<lambda>v. v_id v = vkey) (variants d)
         then d\<lparr>variants := map (\<lambda>v. if v_id v = vkey
                then v\<lparr>v_sku := sku, v_name := name, v_price := price, v_active := active\<rparr> else v) (variants d)\<rparr>
         else d\<lparr>variants := variants d @ [\<lparr>v_id = vkey, v_product = key, v_sku = sku, v_name = name,
                v_price = price, v_active = active\<rparr>]\<rparr>)))))))))"

definition insert_value :: "postgres \<Rightarrow> string \<Rightarrow> string \<times> json \<Rightarrow> db \<Rightarrow> db sql" where
  "insert_value P vkey entry d = (case entry of (c, x) \<Rightarrow>
    bind_res (not_null (json_text P x)) (\<lambda>v.
    bind_res (throw_if (300 < char_count v) Check_Violation) (\<lambda>_.
    bind_res (throw_if (list_ex (\<lambda>a. a_variant a = vkey \<and> a_code a = c) (attribute_values d)) Unique_Violation) (\<lambda>_.
    Inr (d\<lparr>attribute_values := attribute_values d @ [\<lparr>a_variant = vkey, a_code = c, a_value = v\<rparr>]\<rparr>)))))"

definition write_values :: "postgres \<Rightarrow> json \<Rightarrow> string \<Rightarrow> db \<Rightarrow> db sql" where
  "write_values P item vkey d =
    bind_res (object_members (field item ''attributes'')) (\<lambda>ms.
    bind_res (fold_res (insert_value P vkey) ms
      (d\<lparr>attribute_values := filter (\<lambda>a. a_variant a \<noteq> vkey) (attribute_values d)\<rparr>)) (\<lambda>d'.
    bind_res (throw_if (list_ex (\<lambda>a. a_variant a = vkey \<and> \<not> list_ex (\<lambda>r. d_code r = a_code a) (attributes d'))
      (attribute_values d')) Foreign_Key_Violation) (\<lambda>_. Inr d')))"

text \<open>One turn of the FOR loop; the state is \<open>retained\<close> and the database.\<close>

definition save_variant :: "postgres \<Rightarrow> string \<Rightarrow> json \<Rightarrow> string list \<times> db \<Rightarrow> (string list \<times> db) sql" where
  "save_variant P key item acc = (case acc of (retained, d) \<Rightarrow>
    bind_res (cast (uuid_in P) (field_text P item ''id'')) (\<lambda>given.
    let vkey = (case given of None \<Rightarrow> random_uuid P (uuid_counter d) | Some k \<Rightarrow> k);
        d1 = (case given of None \<Rightarrow> d\<lparr>uuid_counter := Suc (uuid_counter d)\<rparr> | Some _ \<Rightarrow> d) in
    bind_res (throw_if (has_key item ''id'' \<and>
      \<not> list_ex (\<lambda>v. v_id v = vkey \<and> v_product v = key) (variants d1)) Invalid_Parameter_Value) (\<lambda>_.
    bind_res (upsert_variant P key vkey item d1) (\<lambda>d2.
    bind_res (write_values P item vkey d2) (\<lambda>d3.
    Inr (retained @ [vkey], d3))))))"

definition retire_variants :: "string \<Rightarrow> string list \<Rightarrow> db \<Rightarrow> db" where
  "retire_variants key retained d = d\<lparr>variants :=
     map (\<lambda>v. if v_product v = key \<and> v_id v \<notin> set retained then v\<lparr>v_active := False\<rparr> else v) (variants d)\<rparr>"

definition insert_image :: "postgres \<Rightarrow> string \<Rightarrow> json \<times> int \<Rightarrow> db \<Rightarrow> db sql" where
  "insert_image P key entry d = (case entry of (x, pos) \<Rightarrow>
    bind_res (cast (uuid_in P) (json_text P x)) (\<lambda>m'.
    bind_res (not_null m') (\<lambda>m.
    bind_res (throw_if (pos < 0 \<or> 9 < pos) Check_Violation) (\<lambda>_.
    bind_res (throw_if (list_ex (\<lambda>i. i_product i = key \<and> (i_media i = m \<or> i_position i = pos)) (images d)) Unique_Violation) (\<lambda>_.
    Inr (d\<lparr>images := images d @ [\<lparr>i_product = key, i_media = m, i_position = pos\<rparr>]\<rparr>))))))"

definition write_images :: "postgres \<Rightarrow> json \<Rightarrow> string \<Rightarrow> db \<Rightarrow> db sql" where
  "write_images P doc key d =
    bind_res (array_elements (field doc ''mediaIds'')) (\<lambda>xs.
    bind_res (fold_res (insert_image P key) (zip xs (map int [0..<length xs]))
      (d\<lparr>images := filter (\<lambda>i. i_product i \<noteq> key) (images d)\<rparr>)) (\<lambda>d'.
    bind_res (throw_if (list_ex (\<lambda>i. i_product i = key \<and> \<not> list_ex (\<lambda>r. m_id r = i_media i) (media d'))
      (images d')) Foreign_Key_Violation) (\<lambda>_. Inr d')))"

definition insert_audit :: "audit_row \<Rightarrow> db \<Rightarrow> db sql" where
  "insert_audit row d =
    bind_res (throw_if (\<not> list_ex (\<lambda>u. u_id u = l_actor row) (users d)) Foreign_Key_Violation) (\<lambda>_.
    Inr (d\<lparr>audit := audit d @ [row]\<rparr>))"

subsection \<open>catalog\_save\<close>

definition failure :: "string \<Rightarrow> json" where
  "failure c = JObj [(''failure'', JStr c)]"

definition json_or_null :: "json option \<Rightarrow> json" where
  "json_or_null v = (case v of None \<Rightarrow> JNull | Some x \<Rightarrow> x)"

text \<open>Everything after the row of the product, up to the audit record.\<close>

definition save_parts ::
  "postgres \<Rightarrow> json \<Rightarrow> string \<Rightarrow> string \<Rightarrow> string option \<Rightarrow> json option \<Rightarrow> string \<Rightarrow> db \<Rightarrow> (json \<times> db) sql" where
  "save_parts P doc actor correlation target previous key d0 =
    bind_res (write_categories P doc key d0) (\<lambda>d1.
    bind_res (write_texts P doc key d1) (\<lambda>d2.
    bind_res (array_elements (field doc ''variants'')) (\<lambda>items.
    bind_res (fold_res (save_variant P key) items ([], d2)) (\<lambda>(retained, d3).
    bind_res (write_images P doc key (retire_variants key retained d3)) (\<lambda>d4.
    bind_res (insert_audit \<lparr>l_actor = actor,
        l_action = (if target = None then ''product.created'' else ''product.updated''),
        l_entity = key, l_request = correlation,
        l_changes = JObj
          [(''oldRevision'', case previous of None \<Rightarrow> JNull | Some v \<Rightarrow> json_or_null (field v ''revision'')),
           (''newRevision'', case find_product d4 key of None \<Rightarrow> JNull | Some p \<Rightarrow> JInt (p_revision p)),
           (''status'', json_or_null (field doc ''status''))],
        l_created = clock d4\<rparr> d4) (\<lambda>d5.
    Inr (json_or_null (catalog_document P d5 key), d5)))))))"

definition save_block ::
  "postgres \<Rightarrow> json \<Rightarrow> string \<Rightarrow> string \<Rightarrow> string option \<Rightarrow> int \<Rightarrow> json statement" where
  "save_block P doc actor correlation target expected d =
    (case target of
       Some key \<Rightarrow>
         (case find_product d key of
            None \<Rightarrow> Inr (failure ''NOT_FOUND'', d)
          | Some p \<Rightarrow>
              (let previous = catalog_document P d key in
               if p_revision p \<noteq> expected then Inr (failure ''REVISION_CONFLICT'', d)
               else bind_res (update_product P doc p d)
                      (save_parts P doc actor correlation target previous key)))
     | None \<Rightarrow>
         (let key = random_uuid P (uuid_counter d); d0 = d\<lparr>uuid_counter := Suc (uuid_counter d)\<rparr> in
          bind_res (insert_product P doc key d0) (save_parts P doc actor correlation target None key)))"

text \<open>The EXCEPTION clause: the listed conditions become a failure, the rest propagates.\<close>

definition catalog_save ::
  "postgres \<Rightarrow> json \<Rightarrow> string \<Rightarrow> string \<Rightarrow> string option \<Rightarrow> int \<Rightarrow> json statement" where
  "catalog_save P doc actor correlation target expected d =
    (case save_block P doc actor correlation target expected d of
       Inr r \<Rightarrow> Inr r
     | Inl Unique_Violation \<Rightarrow> Inr (failure ''DUPLICATE_SLUG_OR_SKU'', d)
     | Inl Foreign_Key_Violation \<Rightarrow> Inr (failure ''INVALID_REFERENCE'', d)
     | Inl Check_Violation \<Rightarrow> Inr (failure ''INVALID_REFERENCE'', d)
     | Inl Invalid_Text_Representation \<Rightarrow> Inr (failure ''INVALID_REFERENCE'', d)
     | Inl Invalid_Parameter_Value \<Rightarrow> Inr (failure ''INVALID_REFERENCE'', d)
     | Inl e \<Rightarrow> Inl e)"

text \<open>
  \<open>SELECT catalog_save($1::jsonb,$2::uuid,$3::uuid,NULLIF($4,'')::uuid,$5::integer)::text\<close>:
  the casts of the arguments are outside the function's block.
\<close>

definition save_statement ::
  "jsoncpp \<Rightarrow> postgres \<Rightarrow> json \<Rightarrow> string \<Rightarrow> string \<Rightarrow> string \<Rightarrow> int \<Rightarrow> string statement" where
  "save_statement J P draft actor correlation key revision d =
    bind_res (case jsonb_in P (encode J draft) of None \<Rightarrow> Inl Other_Sql_Error | Some v \<Rightarrow> Inr v) (\<lambda>doc.
    bind_res (bind_res (cast (uuid_in P) (Some actor)) not_null) (\<lambda>a.
    bind_res (bind_res (cast (uuid_in P) (Some correlation)) not_null) (\<lambda>c.
    bind_res (cast (uuid_in P) (if key = [] then None else Some key)) (\<lambda>target.
    bind_res (catalog_save P doc a c target revision d) (\<lambda>(result, d').
    Inr (jsonb_out P result, d'))))))"

definition repository_save ::
  "jsoncpp \<Rightarrow> postgres \<Rightarrow> json \<Rightarrow> string \<Rightarrow> string \<Rightarrow> string \<Rightarrow> int \<Rightarrow> (world, json) act" where
  "repository_save J P draft actor correlation key revision =
    bind_act (exec_sql (save_statement J P draft actor correlation key revision)) (\<lambda>document.
    lift_res (decode J document))"

end
