(* ===== verification/Catalog_Query.thy ===== *)
theory Catalog_Query
  imports Catalog_Store "HOL-Library.Product_Lexorder"
begin

text \<open>
  The read side of modules/catalog/CatalogRepository.cpp: the search with its filters, order
  and pages, the lookup of one product, and the reference lists.  \<open>LIKE\<close> patterns are
  interpreted as PostgreSQL documents them; case folding, collation and text search are
  PostgreSQL's and stay parameters.
\<close>

subsection \<open>Descending order\<close>

datatype 'a desc = Desc (undesc: 'a)

instantiation desc :: (linorder) linorder
begin

definition less_eq_desc :: "'a desc \<Rightarrow> 'a desc \<Rightarrow> bool" where
  "less_eq_desc a b \<longleftrightarrow> undesc b \<le> undesc a"

definition less_desc :: "'a desc \<Rightarrow> 'a desc \<Rightarrow> bool" where
  "less_desc a b \<longleftrightarrow> undesc b < undesc a"

instance
  by standard (auto simp: less_eq_desc_def less_desc_def intro: desc.expand)

end

lemma Desc_le [simp]: "Desc a \<le> Desc b \<longleftrightarrow> b \<le> a"
  by (simp add: less_eq_desc_def)

subsection \<open>Patterns\<close>

text \<open>\<open>LIKE\<close> with the default escape character, byte by byte.\<close>

fun like :: "string \<Rightarrow> string \<Rightarrow> bool" where
  "like [] s \<longleftrightarrow> s = []"
| "like (p # ps) s \<longleftrightarrow>
     (if p = CHR ''%'' then like ps s \<or> (case s of [] \<Rightarrow> False | _ # t \<Rightarrow> like (p # ps) t)
      else if p = CHR ''_'' then (case s of [] \<Rightarrow> False | _ # t \<Rightarrow> like ps t)
      else if p = CHR 0x5C then (case ps of [] \<Rightarrow> False
             | q # qs \<Rightarrow> (case s of [] \<Rightarrow> False | c # t \<Rightarrow> c = q \<and> like qs t))
      else (case s of [] \<Rightarrow> False | c # t \<Rightarrow> c = p \<and> like ps t))"

text \<open>\<open>replace(x, a, b)\<close> for a one-byte \<open>a\<close>, and the three calls of the query.\<close>

definition replace_char :: "char \<Rightarrow> string \<Rightarrow> string \<Rightarrow> string" where
  "replace_char a b s = concat (map (\<lambda>c. if c = a then b else [c]) s)"

definition like_escape :: "string \<Rightarrow> string" where
  "like_escape s = replace_char CHR ''_'' [CHR 0x5C, CHR ''_''] (replace_char CHR ''%'' [CHR 0x5C, CHR ''%'']
     (replace_char CHR 0x5C [CHR 0x5C, CHR 0x5C] s))"

definition ilike :: "postgres \<Rightarrow> string \<Rightarrow> string \<Rightarrow> bool" where
  "ilike P s pattern \<longleftrightarrow> like (fold_case P pattern) (fold_case P s)"

subsection \<open>The search\<close>

record listed =
  li_id :: string
  li_created :: int
  li_name :: string
  li_price :: int

definition text_matches :: "postgres \<Rightarrow> string \<Rightarrow> translation_row \<Rightarrow> bool" where
  "text_matches P q t \<longleftrightarrow> q = [] \<or> text_search P (t_name t @ '' '' @ t_description t) q \<or>
     ilike P (t_name t) (''%'' @ like_escape q @ ''%'')"

definition product_matches ::
  "postgres \<Rightarrow> db \<Rightarrow> search_filter \<Rightarrow> string option \<Rightarrow> string option \<Rightarrow> bool \<Rightarrow> product_row \<Rightarrow> translation_row \<Rightarrow> bool" where
  "product_matches P d f category brand admin p t \<longleftrightarrow>
     t_product t = p_id p \<and> t_locale t = f_locale f \<and> (admin \<or> p_status p = ''active'') \<and>
     text_matches P (c_str (f_query f)) t \<and>
     (f_category f = [] \<or> (\<exists>c. category = Some c \<and> list_ex (\<lambda>l. l = (p_id p, c)) (product_categories d))) \<and>
     (f_brand f = [] \<or> brand \<noteq> None \<and> p_brand p = brand)"

text \<open>The variants of a product that the join and the price filter keep.\<close>

definition priced_variants :: "db \<Rightarrow> search_filter \<Rightarrow> bool \<Rightarrow> string \<Rightarrow> variant_row list" where
  "priced_variants d f admin key = filter (\<lambda>v. v_product v = key \<and> (admin \<or> v_active v) \<and>
     f_min_price f \<le> v_price v \<and> v_price v \<le> f_max_price f) (variants d)"

fun min_price :: "int list \<Rightarrow> int" where
  "min_price [] = 0"
| "min_price [x] = x"
| "min_price (x # xs) = min x (min_price xs)"

text \<open>
  \<open>filtered\<close>: one row for a product and its translation in the locale (a key of
  \<open>product_translations\<close>), with the lowest price, when some variant is left.
\<close>

definition filtered ::
  "postgres \<Rightarrow> db \<Rightarrow> search_filter \<Rightarrow> string option \<Rightarrow> string option \<Rightarrow> bool \<Rightarrow> listed list" where
  "filtered P d f category brand admin = concat (map (\<lambda>p. concat (map (\<lambda>t.
     let vs = priced_variants d f admin (p_id p) in
     if product_matches P d f category brand admin p t \<and> vs \<noteq> []
     then [\<lparr>li_id = p_id p, li_created = p_created p, li_name = t_name t, li_price = min_price (map v_price vs)\<rparr>]
     else []) (product_texts d))) (products d))"

definition order_key :: "postgres \<Rightarrow> string \<Rightarrow> listed \<Rightarrow> int \<times> int desc \<times> string \<times> int desc \<times> string" where
  "order_key P srt r = (if srt = ''price_asc'' then li_price r else 0,
     Desc (if srt = ''price_desc'' then li_price r else 0),
     (if srt = ''name'' then collation_key P (li_name r) else []), Desc (li_created r), li_id r)"

definition page_rows :: "int \<Rightarrow> int \<Rightarrow> 'a list \<Rightarrow> 'a list" where
  "page_rows page limit rows = take (nat limit) (drop (nat ((page - 1) * limit)) rows)"

definition listed_rows ::
  "postgres \<Rightarrow> db \<Rightarrow> search_filter \<Rightarrow> string option \<Rightarrow> string option \<Rightarrow> bool \<Rightarrow> listed list" where
  "listed_rows P d f category brand admin = sort_key (order_key P (f_sort f)) (filtered P d f category brand admin)"

definition listed_page ::
  "postgres \<Rightarrow> db \<Rightarrow> search_filter \<Rightarrow> string option \<Rightarrow> string option \<Rightarrow> bool \<Rightarrow> listed list" where
  "listed_page P d f category brand admin =
     page_rows (f_page f) (f_limit f) (listed_rows P d f category brand admin)"

definition list_statement :: "postgres \<Rightarrow> search_filter \<Rightarrow> bool \<Rightarrow> string statement" where
  "list_statement P f admin d =
    bind_res (cast (uuid_in P) (if f_category f = [] then None else Some (f_category f))) (\<lambda>category.
    bind_res (cast (uuid_in P) (if f_brand f = [] then None else Some (f_brand f))) (\<lambda>brand.
    Inr (jsonb_out P (JObj
      [(''items'', JArr (map (\<lambda>r. json_or_null (catalog_document P d (li_id r))) (listed_page P d f category brand admin))),
       (''total'', JInt (int (length (filtered P d f category brand admin)))),
       (''page'', JInt (f_page f)), (''limit'', JInt (f_limit f))]), d)))"

definition repository_list :: "jsoncpp \<Rightarrow> postgres \<Rightarrow> search_filter \<Rightarrow> bool \<Rightarrow> (world, json) act" where
  "repository_list J P f admin =
    bind_act (exec_sql (list_statement P f admin)) (\<lambda>document. lift_res (decode J document))"

subsection \<open>One product\<close>

definition visible_product :: "db \<Rightarrow> product_row \<Rightarrow> bool" where
  "visible_product d p \<longleftrightarrow> p_status p = ''active'' \<and> list_ex (\<lambda>v. v_product v = p_id p \<and> v_active v) (variants d)"

definition find_statement :: "postgres \<Rightarrow> string \<Rightarrow> bool \<Rightarrow> string list statement" where
  "find_statement P key admin d =
    (if admin then
       bind_res (bind_res (cast (uuid_in P) (Some key)) not_null) (\<lambda>k.
       Inr (map (\<lambda>p. jsonb_out P (json_or_null (catalog_document P d (p_id p))))
         (filter (\<lambda>p. p_id p = k) (products d)), d))
     else Inr (map (\<lambda>p. jsonb_out P (json_or_null (catalog_document P d (p_id p))))
         (filter (\<lambda>p. p_slug p = c_str key \<and> visible_product d p) (products d)), d))"

definition repository_find :: "jsoncpp \<Rightarrow> postgres \<Rightarrow> string \<Rightarrow> bool \<Rightarrow> (world, json) act" where
  "repository_find J P key admin =
    bind_act (exec_sql (find_statement P key admin)) (\<lambda>rows.
    case rows of [] \<Rightarrow> ret JNull | document # _ \<Rightarrow> lift_res (decode J document))"

subsection \<open>Reference lists\<close>

definition category_entries :: "postgres \<Rightarrow> db \<Rightarrow> string \<Rightarrow> json list" where
  "category_entries P d loc = map (\<lambda>(c, t). JObj [(''id'', JStr (c_id c)), (''slug'', JStr (c_slug c)), (''name'', JStr (ct_name t))])
     (sort_key (\<lambda>(c, t). collation_key P (ct_name t))
       (concat (map (\<lambda>c. map (Pair c) (filter (\<lambda>t. ct_category t = c_id c \<and> ct_locale t = loc) (category_texts d))) (categories d))))"

definition brand_entries :: "postgres \<Rightarrow> db \<Rightarrow> json list" where
  "brand_entries P d = map (\<lambda>b. JObj [(''id'', JStr (b_id b)), (''slug'', JStr (b_slug b)), (''name'', JStr (b_name b))])
     (sort_key (\<lambda>b. collation_key P (b_name b)) (brands d))"

definition attribute_entries :: "postgres \<Rightarrow> db \<Rightarrow> string \<Rightarrow> json list" where
  "attribute_entries P d loc = map (\<lambda>a. JObj [(''code'', JStr (d_code a)),
       (''name'', JStr (if loc = ''ro'' then d_name_ro a else d_name_ru a)), (''unit'', JStr (d_unit a))])
     (sort_key (\<lambda>a. collation_key P (d_code a)) (attributes d))"

definition metadata_statement :: "postgres \<Rightarrow> string \<Rightarrow> string statement" where
  "metadata_statement P loc d = Inr (jsonb_out P (JObj
     [(''categories'', JArr (category_entries P d loc)), (''brands'', JArr (brand_entries P d)),
      (''attributes'', JArr (attribute_entries P d loc))]), d)"

definition repository_metadata :: "jsoncpp \<Rightarrow> postgres \<Rightarrow> string \<Rightarrow> (world, json) act" where
  "repository_metadata J P loc =
    bind_act (exec_sql (metadata_statement P loc)) (\<lambda>document. lift_res (decode J document))"

subsection \<open>New references\<close>

definition name_ok :: "string \<Rightarrow> bool" where
  "name_ok s \<longleftrightarrow> 1 \<le> char_count s \<and> char_count s \<le> 120"

definition reference_audit :: "string \<Rightarrow> string \<Rightarrow> string \<Rightarrow> string \<Rightarrow> json \<Rightarrow> db \<Rightarrow> db sql" where
  "reference_audit action actor corr entity changes d = insert_audit \<lparr>l_actor = actor, l_action = action,
     l_entity = entity, l_request = corr, l_changes = changes, l_created = clock d\<rparr> d"

definition insert_brand :: "postgres \<Rightarrow> json \<Rightarrow> string \<Rightarrow> string \<Rightarrow> string statement" where
  "insert_brand P doc actor corr d =
    bind_res (not_null (field_text P doc ''slug'')) (\<lambda>s.
    bind_res (not_null (field_text P doc ''name'')) (\<lambda>name.
    bind_res (throw_if (\<not> slug s \<or> \<not> name_ok name) Check_Violation) (\<lambda>_.
    bind_res (throw_if (list_ex (\<lambda>b. b_slug b = s) (brands d)) Unique_Violation) (\<lambda>_.
    let key = random_uuid P (uuid_counter d) in
    bind_res (reference_audit ''brand.created'' actor corr key (JObj []) (d\<lparr>uuid_counter := Suc (uuid_counter d),
      brands := brands d @ [\<lparr>b_id = key, b_slug = s, b_name = name\<rparr>]\<rparr>)) (\<lambda>d'.
    Inr (key, d'))))))"

definition insert_category_row :: "postgres \<Rightarrow> json \<Rightarrow> string \<Rightarrow> string \<Rightarrow> string statement" where
  "insert_category_row P doc actor corr d =
    bind_res (not_null (field_text P doc ''slug'')) (\<lambda>s.
    bind_res (not_null (field_text P doc ''nameRu'')) (\<lambda>ru.
    bind_res (not_null (field_text P doc ''nameRo'')) (\<lambda>ro.
    bind_res (throw_if (\<not> slug s \<or> \<not> name_ok ru \<or> \<not> name_ok ro) Check_Violation) (\<lambda>_.
    bind_res (throw_if (list_ex (\<lambda>c. c_slug c = s) (categories d)) Unique_Violation) (\<lambda>_.
    let key = random_uuid P (uuid_counter d) in
    bind_res (reference_audit ''category.created'' actor corr key (JObj []) (d\<lparr>uuid_counter := Suc (uuid_counter d),
      categories := categories d @ [\<lparr>c_id = key, c_parent = None, c_slug = s\<rparr>],
      category_texts := category_texts d @ [\<lparr>ct_category = key, ct_locale = ''ru'', ct_name = ru\<rparr>,
        \<lparr>ct_category = key, ct_locale = ''ro'', ct_name = ro\<rparr>]\<rparr>)) (\<lambda>d'.
    Inr (key, d')))))))"

definition insert_attribute :: "postgres \<Rightarrow> json \<Rightarrow> string \<Rightarrow> string \<Rightarrow> string statement" where
  "insert_attribute P doc actor corr d =
    bind_res (not_null (field_text P doc ''code'')) (\<lambda>c.
    bind_res (not_null (field_text P doc ''nameRu'')) (\<lambda>ru.
    bind_res (not_null (field_text P doc ''nameRo'')) (\<lambda>ro.
    bind_res (not_null (field_text P doc ''unit'')) (\<lambda>unt.
    bind_res (throw_if (\<not> attribute_code c) Check_Violation) (\<lambda>_.
    bind_res (throw_if (list_ex (\<lambda>a. d_code a = c) (attributes d)) Unique_Violation) (\<lambda>_.
    bind_res (reference_audit ''attribute.created'' actor corr (random_uuid P (uuid_counter d)) (JObj [(''code'', JStr c)])
      (d\<lparr>uuid_counter := Suc (uuid_counter d),
         attributes := attributes d @ [\<lparr>d_code = c, d_name_ru = ru, d_name_ro = ro, d_unit = unt\<rparr>]\<rparr>)) (\<lambda>d'.
    Inr (c, d'))))))))"

definition reference_statement ::
  "jsoncpp \<Rightarrow> postgres \<Rightarrow> string \<Rightarrow> json \<Rightarrow> string \<Rightarrow> string \<Rightarrow> string statement" where
  "reference_statement J P kind value actor correlation d =
    bind_res (case jsonb_in P (encode J value) of None \<Rightarrow> Inl Other_Sql_Error | Some v \<Rightarrow> Inr v) (\<lambda>doc.
    bind_res (bind_res (cast (uuid_in P) (Some actor)) not_null) (\<lambda>a.
    bind_res (bind_res (cast (uuid_in P) (Some correlation)) not_null) (\<lambda>c.
    if kind = ''brands'' then insert_brand P doc a c d
    else if kind = ''categories'' then insert_category_row P doc a c d
    else insert_attribute P doc a c d)))"

definition repository_add_reference ::
  "jsoncpp \<Rightarrow> postgres \<Rightarrow> string \<Rightarrow> json \<Rightarrow> string \<Rightarrow> string \<Rightarrow> (world, json) act" where
  "repository_add_reference J P kind value actor correlation w =
    (case exec_sql (reference_statement J P kind value actor correlation) w of
       (Inr key, w') \<Rightarrow> (Inr (JObj [(''id'', JStr key)]), w')
     | (Inl (DbError _), w') \<Rightarrow> (Inl (Error 409 ''REFERENCE_CONFLICT''
         ''The reference could not be created. Refresh and check for duplicates''), w')
     | (Inl e, w') \<Rightarrow> (Inl e, w'))"

subsection \<open>Patterns: the escaped query matches itself only\<close>

lemma like_percent_iff: "like (CHR ''%'' # ps) s \<longleftrightarrow> (\<exists>a b. s = a @ b \<and> like ps b)"
proof (induction s)
  case (Cons c t)
  have "like (CHR ''%'' # ps) (c # t) \<longleftrightarrow> like ps (c # t) \<or> like (CHR ''%'' # ps) t" by (subst like.simps) simp
  also have "\<dots> \<longleftrightarrow> (\<exists>a b. c # t = a @ b \<and> like ps b)"
    unfolding Cons by (auto simp: Cons_eq_append_conv)
  finally show ?case .
qed auto

definition escape_one :: "char \<Rightarrow> string" where
  "escape_one c = (if c = CHR ''_'' \<or> c = CHR ''%'' \<or> c = CHR 0x5C then [CHR 0x5C, c] else [c])"

lemma replace_char_simps [simp]:
  "replace_char a b [] = []"
  "replace_char a b (c # s) = (if c = a then b else [c]) @ replace_char a b s"
  "replace_char a b (s @ t) = replace_char a b s @ replace_char a b t"
  by (simp_all add: replace_char_def)

lemma like_escape_Cons: "like_escape (c # s) = escape_one c @ like_escape s"
  by (auto simp: like_escape_def escape_one_def)

lemma like_escape_Nil [simp]: "like_escape [] = []"
  by (simp add: like_escape_def)

lemma like_escaped: "like (like_escape q @ ps) s \<longleftrightarrow> (\<exists>t. s = q @ t \<and> like ps t)"
proof (induction q arbitrary: s)
  case (Cons c q)
  have "like (escape_one c @ r) s \<longleftrightarrow> (\<exists>t. s = c # t \<and> like r t)" for r s
    by (cases s) (auto simp: escape_one_def)
  with Cons show ?case by (auto simp: like_escape_Cons)
qed simp

lemma like_contains: "like (''%'' @ like_escape q @ ''%'') s \<longleftrightarrow> sublist q s"
proof -
  have "like ''%'' s" for s by (induction s) auto
  then show ?thesis by (simp add: like_percent_iff like_escaped sublist_def del: like.simps) metis
qed

subsection \<open>Pages\<close>

lemma pages_append:
  assumes "1 \<le> limit"
  shows "concat (map (\<lambda>k. page_rows (int k) limit rows) [1..<Suc n]) = take (n * nat limit) rows"
proof (induction n)
  case (Suc n)
  have "nat ((int (Suc n) - 1) * limit) = n * nat limit" using assms by (simp add: nat_mult_distrib)
  then have "page_rows (int (Suc n)) limit rows = take (nat limit) (drop (n * nat limit) rows)"
    by (simp add: page_rows_def)
  with Suc show ?case by (simp add: take_add [symmetric] add.commute)
qed simp

subsection \<open>Rows of the search\<close>

lemma min_price_Cons: "xs \<noteq> [] \<Longrightarrow> min_price (x # xs) = min x (min_price xs)"
  by (cases xs) auto

lemma min_price_in: "xs \<noteq> [] \<Longrightarrow> min_price xs \<in> set xs \<and> (\<forall>x \<in> set xs. min_price xs \<le> x)"
proof (induction xs)
  case (Cons x xs)
  then show ?case by (cases "xs = []") (auto simp: min_price_Cons min_def)
qed simp

lemma filtered_iff:
  "r \<in> set (filtered P d f category brand admin) \<longleftrightarrow>
    (\<exists>p \<in> set (products d). \<exists>t \<in> set (product_texts d). product_matches P d f category brand admin p t \<and>
      priced_variants d f admin (p_id p) \<noteq> [] \<and>
      r = \<lparr>li_id = p_id p, li_created = p_created p, li_name = t_name t,
           li_price = min_price (map v_price (priced_variants d f admin (p_id p)))\<rparr>)"
  by (auto simp: filtered_def Let_def split: if_splits)

lemma distinct_map_concat:
  assumes "distinct (map k xs)" "\<And>x. x \<in> set xs \<Longrightarrow> length (h x) \<le> 1 \<and> (\<forall>y \<in> set (h x). g y = k x)"
  shows "distinct (map g (concat (map h xs)))"
  using assms
proof (induction xs)
  case (Cons x xs)
  have one: "length (h x) \<le> 1" "\<forall>y \<in> set (h x). g y = k x" using Cons.prems(2) [of x] by simp_all
  then have "distinct (map g (h x))" by (cases "h x"; cases "tl (h x)") auto
  moreover have "k x \<notin> k ` set xs" using Cons.prems(1) by simp
  moreover have "g y \<in> k ` set xs" if "y \<in> set (concat (map h xs))" for y
    using that Cons.prems(2) by (auto; metis imageI list.set_intros(2))
  ultimately show ?case using Cons one(2) by (fastforce simp del: set_concat)
qed simp

lemma concat_single: "length (filter Q ts) \<le> 1 \<Longrightarrow> length (concat (map (\<lambda>t. if Q t then [f t] else []) ts)) \<le> 1"
proof -
  have "concat (map (\<lambda>t. if Q t then [f t] else []) ts) = map f (filter Q ts)" by (induction ts) auto
  then show "length (filter Q ts) \<le> 1 \<Longrightarrow> ?thesis" by simp
qed

text \<open>With the keys of the tables, a product is listed once.\<close>

lemma filtered_distinct:
  assumes "distinct (map p_id (products d))" "distinct (map (\<lambda>t. (t_product t, t_locale t)) (product_texts d))"
  shows "distinct (map li_id (filtered P d f category brand admin))"
  unfolding filtered_def Let_def
proof (rule distinct_map_concat [where k = p_id], rule assms(1), intro conjI)
  fix p
  let ?Q = "\<lambda>t. product_matches P d f category brand admin p t \<and> priced_variants d f admin (p_id p) \<noteq> []"
  have "length (filter ?Q (product_texts d)) \<le> 1"
  proof -
    have "distinct (map (\<lambda>t. (t_product t, t_locale t)) (filter ?Q (product_texts d)))"
      using assms(2) by (simp add: distinct_map_filter)
    moreover have "(\<lambda>t. (t_product t, t_locale t)) ` set (filter ?Q (product_texts d)) \<subseteq> {(p_id p, f_locale f)}"
      by (auto simp: product_matches_def)
    then have "card ((\<lambda>t. (t_product t, t_locale t)) ` set (filter ?Q (product_texts d))) \<le> card {(p_id p, f_locale f)}"
      by (intro card_mono) simp_all
    moreover have "card ((\<lambda>t. (t_product t, t_locale t)) ` set (filter ?Q (product_texts d))) =
        length (filter ?Q (product_texts d))"
      using distinct_card [OF calculation(1)] by simp
    ultimately show ?thesis by simp
  qed
  then show "length (concat (map (\<lambda>t. if ?Q t then [\<lparr>li_id = p_id p, li_created = p_created p, li_name = t_name t,
      li_price = min_price (map v_price (priced_variants d f admin (p_id p)))\<rparr>] else []) (product_texts d))) \<le> 1"
    by (rule concat_single)
qed (auto split: if_splits)

end
