(* ===== verification/Auth.thy ===== *)
theory Auth
  imports Database Http
begin

text \<open>
  modules/auth: the SQL of AuthRepository.cpp, the session service of Auth.cpp and its three
  routes.  libsodium is not part of the repository: its digest, password hash and random
  bytes are the fields of the record \<open>sodium\<close>, and \<open>sodium_ok\<close> is what it documents.
\<close>

subsection \<open>libsodium\<close>

record sodium =
  sha256 :: "string \<Rightarrow> string"
  pwhash :: "nat \<Rightarrow> string \<Rightarrow> string option"   \<comment> \<open>n-th salt; None: out of memory\<close>
  pwhash_verify :: "string \<Rightarrow> string \<Rightarrow> bool"
  random_bytes :: "nat \<Rightarrow> string"               \<comment> \<open>32 bytes, n-th draw\<close>

definition sodium_ok :: "sodium \<Rightarrow> bool" where
  "sodium_ok S \<longleftrightarrow> (\<forall>s. length (sha256 S s) = 32) \<and> (\<forall>n. length (random_bytes S n) = 32) \<and>
     (\<forall>n p h. pwhash S n p = Some h \<longrightarrow> pwhash_verify S h p \<and> CHR 0x00 \<notin> set h)"

text \<open>\<open>sodium_bin2hex\<close>: two lower-case digits for each byte.\<close>

definition hex_digit :: "nat \<Rightarrow> char" where
  "hex_digit n = (if n < 10 then char_of (48 + n) else char_of (87 + n))"

definition bin2hex :: "string \<Rightarrow> string" where
  "bin2hex bytes = concat (map (\<lambda>c. let n = (of_char c :: nat) in [hex_digit (n div 16), hex_digit (n mod 16)]) bytes)"

definition hash_token :: "sodium \<Rightarrow> string \<Rightarrow> string" where
  "hash_token S token = bin2hex (sha256 S token)"

definition hash_password :: "sodium \<Rightarrow> string \<Rightarrow> (world, string) act" where
  "hash_password S password = bind_act (draw (\<lambda>n. pwhash S n password)) (\<lambda>h.
     case h of None \<Rightarrow> throw (StdError ''Password hashing failed'') | Some hash \<Rightarrow> ret hash)"

text \<open>\<open>getenv\<close>: \<open>None\<close> is a variable that is not set.\<close>

definition required_env :: "(string \<Rightarrow> string option) \<Rightarrow> string \<Rightarrow> string res" where
  "required_env env name = (case env name of
     None \<Rightarrow> Inl (StdError (''Missing configuration: '' @ name))
   | Some v \<Rightarrow> if v = [] then Inl (StdError (''Missing configuration: '' @ name)) else Inr v)"

subsection \<open>AuthRepository.cpp\<close>

record session_user =
  q_id :: string
  q_email :: string
  q_permissions :: string

definition live_session :: "db \<Rightarrow> string \<Rightarrow> user_row \<Rightarrow> session_row \<Rightarrow> bool" where
  "live_session d hash u s \<longleftrightarrow> s_token_hash s = hash \<and> clock d < s_expires s \<and> s_user s = u_id u \<and> u_active u"

definition permissions_of :: "postgres \<Rightarrow> db \<Rightarrow> string \<Rightarrow> string list" where
  "permissions_of P d user = sort_key (collation_key P) (remdups
     (concat (map (\<lambda>(u, role). if u = user then map snd (filter (\<lambda>(r, _). r = role) (role_permissions d)) else [])
       (user_roles d))))"

definition principal_query :: "postgres \<Rightarrow> string \<Rightarrow> session_user list statement" where
  "principal_query P hash d = Inr
     (map (\<lambda>u. \<lparr>q_id = u_id u, q_email = u_email u,
          q_permissions = jsonb_out P (JArr (map JStr (permissions_of P d (u_id u))))\<rparr>)
       (filter (\<lambda>u. list_ex (live_session d hash u) (session_rows d)) (users d)), d)"

definition credentials_query :: "string \<Rightarrow> (string \<times> string \<times> bool) list statement" where
  "credentials_query email d = Inr
     (map (\<lambda>u. (u_id u, u_password_hash u, u_active u)) (filter (\<lambda>u. u_email u = c_str email) (users d)), d)"

definition window :: int where "window = 900000000"             \<comment> \<open>15 minutes\<close>
definition session_life :: int where "session_life = 1800000000" \<comment> \<open>30 minutes\<close>

definition find_throttle :: "db \<Rightarrow> string \<Rightarrow> throttle_row option" where
  "find_throttle d hash = find (\<lambda>t. th_key t = hash) (throttles d)"

definition attempt_statement :: "string \<Rightarrow> int statement" where
  "attempt_statement hash d = (case find_throttle d hash of
     None \<Rightarrow> Inr (1, d\<lparr>throttles := throttles d @ [\<lparr>th_key = hash, th_attempts = 1, th_resets = clock d + window\<rparr>]\<rparr>)
   | Some t \<Rightarrow>
       (let n = (if th_resets t \<le> clock d then 1 else th_attempts t + 1);
            r = (if th_resets t \<le> clock d then clock d + window else th_resets t) in
        if 2 ^ 31 \<le> n then Inl Other_Sql_Error
        else Inr (n, d\<lparr>throttles := map (\<lambda>u. if th_key u = hash then u\<lparr>th_attempts := n, th_resets := r\<rparr> else u) (throttles d)\<rparr>)))"

definition create_session_statement :: "postgres \<Rightarrow> string \<Rightarrow> string \<Rightarrow> unit statement" where
  "create_session_statement P hash user d =
    bind_res (bind_res (cast (uuid_in P) (Some user)) not_null) (\<lambda>u.
    bind_res (throw_if (list_ex (\<lambda>s. s_token_hash s = hash) (session_rows d)) Unique_Violation) (\<lambda>_.
    bind_res (throw_if (\<not> list_ex (\<lambda>r. u_id r = u) (users d)) Foreign_Key_Violation) (\<lambda>_.
    Inr ((), d\<lparr>session_rows := session_rows d @ [\<lparr>s_token_hash = hash, s_user = u, s_expires = clock d + session_life\<rparr>]\<rparr>))))"

definition revoke_statement :: "string \<Rightarrow> unit statement" where
  "revoke_statement hash d = Inr ((), d\<lparr>session_rows := filter (\<lambda>s. s_token_hash s \<noteq> hash) (session_rows d)\<rparr>)"

subsection \<open>Auth.cpp: the service\<close>

record auth_service =
  auth_secure :: bool
  auth_origin :: string
  auth_dummy :: string

record principal =
  pr_id :: string
  pr_email :: string
  pr_permissions :: json

definition make_auth :: "sodium \<Rightarrow> bool \<Rightarrow> string \<Rightarrow> (world, auth_service) act" where
  "make_auth S secure origin =
    bind_act (hash_password S ''non-login-dummy-password'') (\<lambda>dummy.
    bind_act (lift_res (throw_if (origin = [] \<or> secure \<and> \<not> starts_with origin ''https://'')
      (StdError ''Invalid ADMIN_ORIGIN''))) (\<lambda>_.
    ret \<lparr>auth_secure = secure, auth_origin = origin, auth_dummy = dummy\<rparr>))"

definition require_origin :: "auth_service \<Rightarrow> request \<Rightarrow> unit res" where
  "require_origin A req = throw_if (get_header req ''origin'' \<noteq> auth_origin A)
     (Error 403 ''ORIGIN_REJECTED'' ''Request origin is not allowed'')"

definition auth_required :: exn where
  "auth_required = Error 401 ''AUTH_REQUIRED'' ''Please sign in''"

text \<open>\<open>std::none_of\<close> over the permissions: it stops at the first that matches.\<close>

fun none_match :: "jsoncpp \<Rightarrow> string \<Rightarrow> json list \<Rightarrow> bool res" where
  "none_match J permission [] = Inr True"
| "none_match J permission (p # ps) =
     bind_res (as_string J p) (\<lambda>s. if s = permission then Inr False else none_match J permission ps)"

definition require ::
  "jsoncpp \<Rightarrow> postgres \<Rightarrow> sodium \<Rightarrow> request \<Rightarrow> string \<Rightarrow> (world, principal) act" where
  "require J P S req permission =
    (let token = get_cookie req ''bee_session'' in
    if length token \<noteq> 64 then throw auth_required else
    bind_act (exec_sql (principal_query P (hash_token S token))) (\<lambda>rows.
    case rows of [] \<Rightarrow> throw auth_required
    | row # _ \<Rightarrow>
      bind_act (lift_res (decode J (q_permissions row))) (\<lambda>permissions.
      bind_act (lift_res (if permission = [] then Inr False else none_match J permission (elements permissions))) (\<lambda>missing.
      if missing then throw (Error 403 ''FORBIDDEN'' ''You do not have permission for this operation'')
      else ret \<lparr>pr_id = q_id row, pr_email = q_email row, pr_permissions = permissions\<rparr>))))"

definition consume ::
  "sodium \<Rightarrow> string \<Rightarrow> (world, unit) act" where
  "consume S key =
    bind_act (exec_sql (attempt_statement (hash_token S key))) (\<lambda>n.
    lift_res (throw_if ((if starts_with key ''email:'' then 10 else 50) < n)
      (Error 429 ''RATE_LIMITED'' ''Too many attempts. Try again later'')))"

definition wrong_credentials :: exn where
  "wrong_credentials = Error 401 ''INVALID_CREDENTIALS'' ''Email or password is incorrect''"

definition check_credentials ::
  "sodium \<Rightarrow> auth_service \<Rightarrow> string \<Rightarrow> (string \<times> string \<times> bool) list \<Rightarrow> string res" where
  "check_credentials S A password rows =
    (let hash = (case rows of [] \<Rightarrow> auth_dummy A | (_, h, _) # _ \<Rightarrow> h);
         verified = pwhash_verify S (c_str hash) password in
     case rows of [] \<Rightarrow> Inl wrong_credentials
     | (uid, _, active) # _ \<Rightarrow> if \<not> verified \<or> \<not> active then Inl wrong_credentials else Inr uid)"

definition login ::
  "postgres \<Rightarrow> sodium \<Rightarrow> auth_service \<Rightarrow> string \<Rightarrow> string \<Rightarrow> string \<Rightarrow> (world, string \<times> principal) act" where
  "login P S A raw_email password address =
    bind_act (lift_res (throw_if (raw_email = [] \<or> 254 < length raw_email \<or> password = [] \<or> 256 < length password)
      (Error 400 ''INVALID_CREDENTIALS'' ''Check the email and password''))) (\<lambda>_.
    let email = lower raw_email in
    bind_act (consume S (''email:'' @ email)) (\<lambda>_.
    bind_act (consume S (''address:'' @ address)) (\<lambda>_.
    bind_act (exec_sql (credentials_query email)) (\<lambda>rows.
    bind_act (lift_res (check_credentials S A password rows)) (\<lambda>uid.
    bind_act (draw (\<lambda>n. bin2hex (random_bytes S n))) (\<lambda>token.
    bind_act (exec_sql (create_session_statement P (hash_token S token) uid)) (\<lambda>_.
    ret (token, \<lparr>pr_id = uid, pr_email = email, pr_permissions = JArr []\<rparr>))))))))"

definition logout :: "sodium \<Rightarrow> request \<Rightarrow> (world, unit) act" where
  "logout S req = exec_sql (revoke_statement (hash_token S (get_cookie req ''bee_session'')))"

definition session_cookie :: "auth_service \<Rightarrow> response \<Rightarrow> string \<Rightarrow> bool \<Rightarrow> response" where
  "session_cookie A response token clear = response\<lparr>resp_cookies := resp_cookies response @
     [\<lparr>cookie_name = ''bee_session'', cookie_value = token, cookie_path = ''/api/v1'', http_only = True,
       cookie_secure = auth_secure A, same_site_strict = True, max_age = (if clear then 0 else 1800)\<rparr>]\<rparr>"

subsection \<open>Auth.cpp: the routes\<close>

definition login_route ::
  "jsoncpp \<Rightarrow> postgres \<Rightarrow> sodium \<Rightarrow> auth_service \<Rightarrow> request \<Rightarrow> (world, response) act" where
  "login_route J P S A req =
    bind_act (lift_res (require_origin A req)) (\<lambda>_.
    bind_act (lift_res (json_body req)) (\<lambda>body.
    bind_act (lift_res (get_at J body ''email'')) (\<lambda>e.
    bind_act (lift_res (if is_string e then bind_res (get_at J body ''password'') (\<lambda>p. Inr (\<not> is_string p)) else Inr True)) (\<lambda>bad.
    bind_act (lift_res (throw_if bad (Error 400 ''INVALID_BODY'' ''Email and password are required''))) (\<lambda>_.
    let address = (if get_header req ''x-real-ip'' = [] then peer_ip req else get_header req ''x-real-ip'') in
    bind_act (lift_res (as_string J e)) (\<lambda>email.
    bind_act (lift_res (bind_res (get_at J body ''password'') (as_string J))) (\<lambda>password.
    bind_act (login P S A email password address) (\<lambda>(token, principal).
    ret (session_cookie A (json_response (JObj [(''email'', JStr (pr_email principal))])) token False)))))))))"

definition session_route ::
  "jsoncpp \<Rightarrow> postgres \<Rightarrow> sodium \<Rightarrow> request \<Rightarrow> (world, response) act" where
  "session_route J P S req =
    bind_act (require J P S req []) (\<lambda>principal.
    ret (json_response (JObj [(''email'', JStr (pr_email principal)), (''permissions'', pr_permissions principal)])))"

definition logout_route :: "sodium \<Rightarrow> auth_service \<Rightarrow> request \<Rightarrow> (world, response) act" where
  "logout_route S A req =
    bind_act (lift_res (require_origin A req)) (\<lambda>_.
    bind_act (logout S req) (\<lambda>_.
    ret (session_cookie A \<lparr>resp_status = 204, resp_content = No_Body, resp_headers = [], resp_cookies = []\<rparr> [] True)))"

end
