(* ===== verification/Catalog_Service.thy ===== *)
theory Catalog_Service
  imports Catalog_Query Auth
begin

text \<open>
  modules/catalog/CatalogService.cpp around the repository, and the routes of
  CatalogController.cpp.  A route is the body of the task that \<open>dispatch\<close> runs: an action on
  the database world, whose exceptions \<open>reply_of\<close> turns into responses.  \<open>uuid\<close> is what
  \<open>getUuid\<close> would return if the request had no identifier yet.
\<close>

subsection \<open>The service\<close>

definition service_list :: "jsoncpp \<Rightarrow> postgres \<Rightarrow> search_filter \<Rightarrow> bool \<Rightarrow> (world, json) act" where
  "service_list J P f admin =
    bind_act (repository_list J P f admin) (\<lambda>result.
    if admin then ret result
    else lift_res (
      bind_res (get_at J result ''items'') (\<lambda>items.
      bind_res (map_res (public_document J) (elements items)) (\<lambda>shown.
      set_at J result ''items'' (JArr shown)))))"

definition product_not_found :: exn where
  "product_not_found = Error 404 ''NOT_FOUND'' ''Product not found''"

definition service_find :: "jsoncpp \<Rightarrow> postgres \<Rightarrow> string \<Rightarrow> bool \<Rightarrow> (world, json) act" where
  "service_find J P key admin =
    (if key = [] \<or> 160 < length key \<or> admin \<and> \<not> uuid key then throw product_not_found
     else bind_act (repository_find J P key admin) (\<lambda>result.
          if is_null result then throw product_not_found
          else if admin then ret result
          else lift_res (public_document J result)))"

definition save_error :: "string \<Rightarrow> exn" where
  "save_error c = Error (if c = ''NOT_FOUND'' then 404 else if c = ''INVALID_REFERENCE'' then 422 else 409) c
     (if c = ''REVISION_CONFLICT'' then ''The product changed. Reload before editing again''
      else ''Product could not be saved. Check SKU, slug and references'')"

definition service_save ::
  "jsoncpp \<Rightarrow> postgres \<Rightarrow> json \<Rightarrow> string \<Rightarrow> string \<Rightarrow> string \<Rightarrow> int \<Rightarrow> (world, json) act" where
  "service_save J P draft actor correlation key revision =
    bind_act (lift_res (validate_draft J draft)) (\<lambda>_.
    if key \<noteq> [] \<and> (\<not> uuid key \<or> revision < 1)
    then throw (validation_failed ''A valid revision and ID are required'')
    else bind_act (repository_save J P draft actor correlation key revision) (\<lambda>result.
         bind_act (lift_res (is_member J result ''failure'')) (\<lambda>failed.
         if failed then bind_act (lift_res (bind_res (get_at J result ''failure'') (as_string J))) (\<lambda>c. throw (save_error c))
         else ret result)))"

definition check_reference :: "jsoncpp \<Rightarrow> string \<Rightarrow> json \<Rightarrow> unit res" where
  "check_reference J kind value =
    bind_res (text_field J value (if kind = ''attributes'' then ''code'' else ''slug'') 1 120) (\<lambda>_.
    bind_res (if kind = ''attributes'' then
        bind_res (bind_res (get_at J value ''code'') (as_string J)) (\<lambda>c.
        bind_res (throw_if (\<not> attribute_code c) (validation_failed ''Invalid attribute code'')) (\<lambda>_.
        text_field J value ''unit'' 0 20))
      else bind_res (bind_res (get_at J value ''slug'') (as_string J)) (\<lambda>s.
        throw_if (\<not> slug s) (validation_failed ''Invalid slug''))) (\<lambda>_.
    if kind = ''brands'' then text_field J value ''name'' 1 120
    else bind_res (text_field J value ''nameRu'' 1 120) (\<lambda>_. text_field J value ''nameRo'' 1 120)))"

definition service_add_reference ::
  "jsoncpp \<Rightarrow> postgres \<Rightarrow> string \<Rightarrow> json \<Rightarrow> string \<Rightarrow> string \<Rightarrow> (world, json) act" where
  "service_add_reference J P kind value actor correlation =
    bind_act (lift_res (check_reference J kind value)) (\<lambda>_.
    repository_add_reference J P kind value actor correlation)"

subsection \<open>The routes\<close>

definition require_if :: "jsoncpp \<Rightarrow> postgres \<Rightarrow> sodium \<Rightarrow> request \<Rightarrow> bool \<Rightarrow> string \<Rightarrow> (world, unit) act" where
  "require_if J P S req admin permission =
    (if admin then bind_act (require J P S req permission) (\<lambda>_. ret ()) else ret ())"

definition products_route :: "jsoncpp \<Rightarrow> postgres \<Rightarrow> sodium \<Rightarrow> bool \<Rightarrow> request \<Rightarrow> (world, response) act" where
  "products_route J P S admin req =
    bind_act (require_if J P S req admin ''products.read'') (\<lambda>_.
    bind_act (lift_res (parse_filter req)) (\<lambda>f.
    bind_act (service_list J P f admin) (\<lambda>v. ret (json_response v))))"

definition product_route :: "jsoncpp \<Rightarrow> postgres \<Rightarrow> sodium \<Rightarrow> bool \<Rightarrow> request \<Rightarrow> string \<Rightarrow> (world, response) act" where
  "product_route J P S admin req key =
    bind_act (require_if J P S req admin ''products.read'') (\<lambda>_.
    bind_act (service_find J P key admin) (\<lambda>v. ret (json_response v)))"

definition metadata_route :: "jsoncpp \<Rightarrow> postgres \<Rightarrow> request \<Rightarrow> (world, response) act" where
  "metadata_route J P req =
    bind_act (lift_res (parse_filter req)) (\<lambda>f.
    bind_act (repository_metadata J P (f_locale f)) (\<lambda>v. ret (json_response v)))"

definition created_response :: "json \<Rightarrow> response" where
  "created_response v = (json_response v)\<lparr>resp_status := 201\<rparr>"

text \<open>The guard shared by every route that writes: origin first, then the session.\<close>

definition guarded ::
  "jsoncpp \<Rightarrow> postgres \<Rightarrow> sodium \<Rightarrow> auth_service \<Rightarrow> request \<Rightarrow> string \<Rightarrow> (principal \<Rightarrow> (world, 'a) act) \<Rightarrow> (world, 'a) act" where
  "guarded J P S A req permission work =
    bind_act (lift_res (require_origin A req)) (\<lambda>_.
    bind_act (require J P S req permission) work)"

definition create_route ::
  "jsoncpp \<Rightarrow> postgres \<Rightarrow> sodium \<Rightarrow> auth_service \<Rightarrow> string \<Rightarrow> request \<Rightarrow> (world, response) act" where
  "create_route J P S A uid req = guarded J P S A req ''products.write'' (\<lambda>principal.
    bind_act (lift_res (json_body req)) (\<lambda>body.
    bind_act (service_save J P body (pr_id principal) (fst (request_id uid req)) [] 0) (\<lambda>v.
    ret (created_response v))))"

definition update_route ::
  "jsoncpp \<Rightarrow> postgres \<Rightarrow> sodium \<Rightarrow> auth_service \<Rightarrow> string \<Rightarrow> request \<Rightarrow> string \<Rightarrow> (world, response) act" where
  "update_route J P S A uid req key = guarded J P S A req ''products.write'' (\<lambda>principal.
    bind_act (lift_res (json_body req)) (\<lambda>body.
    bind_act (lift_res (get_at J body ''revision'')) (\<lambda>revision.
    bind_act (lift_res (throw_if (\<not> is_int J revision) (validation_failed ''Revision is required''))) (\<lambda>_.
    bind_act (lift_res (as_int J revision)) (\<lambda>n.
    bind_act (service_save J P body (pr_id principal) (fst (request_id uid req)) key n) (\<lambda>v.
    ret (json_response v)))))))"

definition reference_route ::
  "jsoncpp \<Rightarrow> postgres \<Rightarrow> sodium \<Rightarrow> auth_service \<Rightarrow> string \<Rightarrow> string \<Rightarrow> request \<Rightarrow> (world, response) act" where
  "reference_route J P S A kind uid req = guarded J P S A req ''products.write'' (\<lambda>principal.
    bind_act (lift_res (json_body req)) (\<lambda>body.
    bind_act (service_add_reference J P kind body (pr_id principal) (fst (request_id uid req))) (\<lambda>v.
    ret (created_response v))))"

end
