(* ===== verification/Catalog_Invariant.thy ===== *)
theory Catalog_Invariant
  imports Catalog_Store
begin

text \<open>
  What each SQL statement of \<open>catalog_save\<close> does to its table, and the invariant of the
  catalog tables (keys, foreign keys and checks of migration 0002_catalog.sql) that every
  statement keeps.
\<close>

named_theorems sql_effects \<open>the table a statement changes, and how\<close>

subsection \<open>Generic facts\<close>

lemma fold_res_rel:
  assumes "fold_res f xs a = Inr b" and "R a"
    and "\<And>x a b. x \<in> set xs \<Longrightarrow> R a \<Longrightarrow> f x a = Inr b \<Longrightarrow> R b"
  shows "R b"
  using assms by (induction xs arbitrary: a) (auto simp: bind_res_eq_Inr)

text \<open>Replacing the row with one key by a row whose other unique value is not taken.\<close>

lemma distinct_replace:
  assumes "distinct (map k xs)" "distinct (map f xs)"
    and "\<And>q q'. q \<in> set xs \<Longrightarrow> q' \<in> set xs \<Longrightarrow> k q \<noteq> k0 \<Longrightarrow> k q' = k0 \<Longrightarrow> f q \<noteq> f (g q')"
  shows "distinct (map (\<lambda>q. f (if k q = k0 then g q else q)) xs)"
  using assms
proof (induction xs)
  case (Cons x xs)
  have IH: "distinct (map (\<lambda>q. f (if k q = k0 then g q else q)) xs)"
    by (rule Cons.IH) (use Cons.prems in auto)
  have "f (if k x = k0 then g x else x) \<notin> (\<lambda>q. f (if k q = k0 then g q else q)) ` set xs"
  proof
    assume "f (if k x = k0 then g x else x) \<in> (\<lambda>q. f (if k q = k0 then g q else q)) ` set xs"
    then obtain q where q: "q \<in> set xs"
        "f (if k x = k0 then g x else x) = f (if k q = k0 then g q else q)" by blast
    from Cons.prems(1) q(1) have "k q \<noteq> k x" by (metis distinct.simps(2) image_eqI list.set_map list.simps(9))
    with Cons.prems(2) Cons.prems(3) [of x q] Cons.prems(3) [of q x] q show False
      by (auto split: if_splits)
  qed
  with IH show ?case by simp
qed simp

lemma map_const_key [simp]:
  "(\<And>q. k q = k0 \<Longrightarrow> h (g q) = h q) \<Longrightarrow>
     map (\<lambda>q. h (if k q = k0 then g q else q)) xs = map h xs"
  by simp

subsection \<open>The effect of each statement\<close>

lemma product_constraints_Inr:
  "product_constraints d others p = Inr u \<longleftrightarrow>
     slug (p_slug p) \<and> known_status (p_status p) \<and> 0 < p_revision p \<and>
     (\<forall>q \<in> set others. p_id q \<noteq> p_id p \<and> p_slug q \<noteq> p_slug p) \<and>
     (\<forall>b. p_brand p = Some b \<longrightarrow> b \<in> b_id ` set (brands d))"
  by (auto simp: product_constraints_def bind_res_eq_Inr list_ex_iff split: option.splits)

lemma update_product_Inr [sql_effects]:
  "update_product P doc p d = Inr d' \<longleftrightarrow>
    (\<exists>brand s st. cast (uuid_in P) (field_text P doc ''brandId'') = Inr brand \<and>
      p_revision p + 1 < 2 ^ 31 \<and>
      field_text P doc ''slug'' = Some s \<and> field_text P doc ''status'' = Some st \<and>
      product_constraints d (filter (\<lambda>q. p_id q \<noteq> p_id p) (products d))
        (p\<lparr>p_slug := s, p_brand := brand, p_status := st, p_revision := p_revision p + 1, p_updated := clock d\<rparr>) = Inr () \<and>
      d' = d\<lparr>products := map (\<lambda>q. if p_id q = p_id p then p\<lparr>p_slug := s, p_brand := brand, p_status := st,
        p_revision := p_revision p + 1, p_updated := clock d\<rparr> else q) (products d)\<rparr>)"
  by (auto simp: update_product_def bind_res_eq_Inr Let_def)

lemma insert_product_Inr [sql_effects]:
  "insert_product P doc key d = Inr d' \<longleftrightarrow>
    (\<exists>brand s st. cast (uuid_in P) (field_text P doc ''brandId'') = Inr brand \<and>
      field_text P doc ''slug'' = Some s \<and> field_text P doc ''status'' = Some st \<and>
      product_constraints d (products d) \<lparr>p_id = key, p_slug = s, p_brand = brand, p_status = st,
        p_revision = 1, p_created = clock d, p_updated = clock d\<rparr> = Inr () \<and>
      d' = d\<lparr>products := products d @ [\<lparr>p_id = key, p_slug = s, p_brand = brand, p_status = st,
        p_revision = 1, p_created = clock d, p_updated = clock d\<rparr>]\<rparr>)"
  by (auto simp: insert_product_def bind_res_eq_Inr Let_def)

text \<open>Category references: the rows appended are the converted elements, in order.\<close>

definition uuid_of :: "postgres \<Rightarrow> json \<Rightarrow> string \<Rightarrow> bool" where
  "uuid_of P x c \<longleftrightarrow> (\<exists>s. json_text P x = Some s \<and> uuid_in P s = Some c)"

lemma cast_uuid_of: "cast (uuid_in P) (json_text P x) = Inr (Some c) \<longleftrightarrow> uuid_of P x c"
  by (auto simp: cast_eq_Inr uuid_of_def)

lemma insert_categories:
  "fold_res (insert_category P key) xs d = Inr d' \<Longrightarrow>
     \<exists>cs. list_all2 (uuid_of P) xs cs \<and> distinct cs \<and>
       (\<forall>c \<in> set cs. (key, c) \<notin> set (product_categories d)) \<and>
       d' = d\<lparr>product_categories := product_categories d @ map (Pair key) cs\<rparr>"
proof (induction xs arbitrary: d)
  case (Cons x xs)
  then obtain d1 where step: "insert_category P key x d = Inr d1" "fold_res (insert_category P key) xs d1 = Inr d'"
    by (auto simp: bind_res_eq_Inr)
  then obtain c where c: "uuid_of P x c" "(key, c) \<notin> set (product_categories d)"
      "d1 = d\<lparr>product_categories := product_categories d @ [(key, c)]\<rparr>"
    by (auto simp: insert_category_def bind_res_eq_Inr cast_uuid_of)
  from Cons.IH [OF step(2)] obtain cs where "list_all2 (uuid_of P) xs cs" "distinct cs"
      "\<forall>c \<in> set cs. (key, c) \<notin> set (product_categories d1)"
      "d' = d1\<lparr>product_categories := product_categories d1 @ map (Pair key) cs\<rparr>" by blast
  with c show ?case by (intro exI [of _ "c # cs"]) auto
qed auto

lemma write_categories_Inr [sql_effects]:
  "write_categories P doc key d = Inr d' \<Longrightarrow>
     \<exists>xs cs. array_elements (field doc ''categoryIds'') = Inr xs \<and> list_all2 (uuid_of P) xs cs \<and> distinct cs \<and>
       set cs \<subseteq> c_id ` set (categories d) \<and>
       d' = d\<lparr>product_categories := filter (\<lambda>(q, _). q \<noteq> key) (product_categories d) @ map (Pair key) cs\<rparr>"
proof -
  assume "write_categories P doc key d = Inr d'"
  then obtain xs where xs: "array_elements (field doc ''categoryIds'') = Inr xs"
      "fold_res (insert_category P key) xs
        (d\<lparr>product_categories := filter (\<lambda>(q, _). q \<noteq> key) (product_categories d)\<rparr>) = Inr d'"
      "\<not> list_ex (\<lambda>(q, c). q = key \<and> \<not> list_ex (\<lambda>r. c_id r = c) (categories d')) (product_categories d')"
    unfolding write_categories_def bind_res_eq_Inr throw_if_eq_Inr by auto
  from insert_categories [OF xs(2)] obtain cs where "list_all2 (uuid_of P) xs cs" "distinct cs"
      "d' = d\<lparr>product_categories := filter (\<lambda>(q, _). q \<noteq> key) (product_categories d) @ map (Pair key) cs\<rparr>"
    by auto
  with xs show ?thesis by (intro exI [of _ xs] exI [of _ cs]) (auto simp: list_ex_iff)
qed

text \<open>Translations.\<close>

definition text_row :: "postgres \<Rightarrow> string \<Rightarrow> string \<times> json \<Rightarrow> translation_row \<Rightarrow> bool" where
  "text_row P key entry t \<longleftrightarrow> t_product t = key \<and> t_locale t = fst entry \<and>
     field_text P (snd entry) ''name'' = Some (t_name t) \<and>
     field_text P (snd entry) ''description'' = Some (t_description t) \<and>
     field_text P (snd entry) ''seoTitle'' = Some (t_seo_title t) \<and>
     field_text P (snd entry) ''seoDescription'' = Some (t_seo_description t)"

definition text_bounds :: "translation_row \<Rightarrow> bool" where
  "text_bounds t \<longleftrightarrow> (t_locale t = ''ru'' \<or> t_locale t = ''ro'') \<and>
     1 \<le> char_count (t_name t) \<and> char_count (t_name t) \<le> 200 \<and> char_count (t_description t) \<le> 20000 \<and>
     char_count (t_seo_title t) \<le> 200 \<and> char_count (t_seo_description t) \<le> 500"

lemma insert_text_Inr:
  "insert_text P key entry d = Inr d' \<longleftrightarrow>
     (\<exists>t. text_row P key entry t \<and> text_bounds t \<and>
       (t_product t, t_locale t) \<notin> (\<lambda>t. (t_product t, t_locale t)) ` set (product_texts d) \<and>
       d' = d\<lparr>product_texts := product_texts d @ [t]\<rparr>)"
proof -
  obtain l v where entry: "entry = (l, v)" by (cases entry)
  have new: "list_ex (\<lambda>t. t_product t = key \<and> t_locale t = l) (product_texts d) \<longleftrightarrow>
      (key, l) \<in> (\<lambda>t. (t_product t, t_locale t)) ` set (product_texts d)"
    by (auto simp: list_ex_iff)
  have rows: "(\<exists>t. Q t) \<longleftrightarrow> (\<exists>p l n e s i. Q \<lparr>t_product = p, t_locale = l, t_name = n, t_description = e,
      t_seo_title = s, t_seo_description = i\<rparr>)" for Q
    by (metis translation_row.cases)
  show ?thesis
    unfolding rows
    by (auto simp: entry insert_text_def bind_res_eq_Inr new text_row_def text_bounds_def)
qed

lemma insert_texts:
  "fold_res (insert_text P key) ms d = Inr d' \<Longrightarrow>
     \<exists>ts. list_all2 (text_row P key) ms ts \<and> list_all text_bounds ts \<and>
       distinct (map (\<lambda>t. (t_product t, t_locale t)) ts) \<and>
       (\<lambda>t. (t_product t, t_locale t)) ` set ts \<inter> (\<lambda>t. (t_product t, t_locale t)) ` set (product_texts d) = {} \<and>
       d' = d\<lparr>product_texts := product_texts d @ ts\<rparr>"
proof (induction ms arbitrary: d)
  case (Cons x xs)
  then obtain d1 where step: "insert_text P key x d = Inr d1" "fold_res (insert_text P key) xs d1 = Inr d'"
    by (auto simp: bind_res_eq_Inr)
  from step(1) obtain t where t: "text_row P key x t" "text_bounds t"
      "(t_product t, t_locale t) \<notin> (\<lambda>t. (t_product t, t_locale t)) ` set (product_texts d)"
      "d1 = d\<lparr>product_texts := product_texts d @ [t]\<rparr>"
    unfolding insert_text_Inr by blast
  from Cons.IH [OF step(2)] obtain ts where ts: "list_all2 (text_row P key) xs ts" "list_all text_bounds ts"
      "distinct (map (\<lambda>t. (t_product t, t_locale t)) ts)"
      "(\<lambda>t. (t_product t, t_locale t)) ` set ts \<inter> (\<lambda>t. (t_product t, t_locale t)) ` set (product_texts d1) = {}"
      "d' = d1\<lparr>product_texts := product_texts d1 @ ts\<rparr>" by blast
  show ?case
    by (rule exI [of _ "t # ts"]) (use t ts in \<open>auto simp: image_iff\<close>)
qed auto

lemma write_texts_Inr [sql_effects]:
  "write_texts P doc key d = Inr d' \<Longrightarrow>
     \<exists>ms ts. object_members (field doc ''translations'') = Inr ms \<and> list_all2 (text_row P key) ms ts \<and>
       list_all text_bounds ts \<and> distinct (map (\<lambda>t. (t_product t, t_locale t)) ts) \<and>
       d' = d\<lparr>product_texts := filter (\<lambda>t. t_product t \<noteq> key) (product_texts d) @ ts\<rparr>"
  by (auto simp: write_texts_def bind_res_eq_Inr dest!: insert_texts)

text \<open>Variants: the columns an element gives, and the rows after the upsert.\<close>

definition item_columns :: "postgres \<Rightarrow> json \<Rightarrow> variant_row \<Rightarrow> bool" where
  "item_columns P item v \<longleftrightarrow> field_text P item ''sku'' = Some (v_sku v) \<and>
     field_text P item ''name'' = Some (v_name v) \<and>
     (\<exists>t. field_text P item ''priceMinor'' = Some t \<and> bigint_in P t = Inr (v_price v)) \<and>
     (\<exists>t. field_text P item ''active'' = Some t \<and> boolean_in P t = Some (v_active v))"

definition variant_bounds :: "variant_row \<Rightarrow> bool" where
  "variant_bounds v \<longleftrightarrow> 1 \<le> char_count (v_sku v) \<and> char_count (v_sku v) \<le> 64 \<and>
     1 \<le> char_count (v_name v) \<and> char_count (v_name v) \<le> 160 \<and> 0 \<le> v_price v \<and> v_price v \<le> 100000000"

definition put_variant :: "variant_row \<Rightarrow> variant_row list \<Rightarrow> variant_row list" where
  "put_variant w vs = (if v_id w \<in> v_id ` set vs
     then map (\<lambda>v. if v_id v = v_id w then w\<lparr>v_product := v_product v\<rparr> else v) vs else vs @ [w])"

lemma put_variant_ids: "v_id ` set (put_variant w vs) = insert (v_id w) (v_id ` set vs)"
proof (cases "v_id w \<in> v_id ` set vs")
  case True
  then have "map v_id (put_variant w vs) = map v_id vs" by (auto simp: put_variant_def)
  then have "v_id ` set (put_variant w vs) = v_id ` set vs" by (metis list.set_map)
  with True show ?thesis by auto
qed (simp add: put_variant_def)

lemma upsert_variant_Inr:
  "upsert_variant P key vkey item d = Inr d' \<longleftrightarrow>
     (\<exists>w. v_id w = vkey \<and> v_product w = key \<and> item_columns P item w \<and> variant_bounds w \<and>
       (\<forall>v \<in> set (variants d). v_sku v = v_sku w \<longrightarrow> v_id v = vkey) \<and>
       d' = d\<lparr>variants := put_variant w (variants d)\<rparr>)"
proof -
  have rows: "(\<exists>w. Q w) \<longleftrightarrow> (\<exists>i p s n c a. Q \<lparr>v_id = i, v_product = p, v_sku = s, v_name = n, v_price = c, v_active = a\<rparr>)" for Q
    by (metis variant_row.cases)
  have set_row: "v\<lparr>v_sku := s, v_name := n, v_price := c, v_active := a\<rparr> =
      \<lparr>v_id = v_id v, v_product = v_product v, v_sku = s, v_name = n, v_price = c, v_active = a\<rparr>" for v s n c a
    by (cases v) simp
  have put: "put_variant \<lparr>v_id = i, v_product = key, v_sku = s, v_name = n, v_price = c, v_active = a\<rparr> vs =
      (if list_ex (\<lambda>v. v_id v = i) vs
       then map (\<lambda>v. if v_id v = i then v\<lparr>v_sku := s, v_name := n, v_price := c, v_active := a\<rparr> else v) vs
       else vs @ [\<lparr>v_id = i, v_product = key, v_sku = s, v_name = n, v_price = c, v_active = a\<rparr>])" for i s n c a vs
    unfolding put_variant_def set_row by (auto simp: list_ex_key)
  have sku: "list_ex (\<lambda>v. v_sku v = s \<and> v_id v \<noteq> vkey) vs \<longleftrightarrow> \<not> (\<forall>v \<in> set vs. v_sku v = s \<longrightarrow> v_id v = vkey)" for s vs
    by (auto simp: list_ex_iff)
  have if_db: "(if b then d\<lparr>variants := xs\<rparr> else d\<lparr>variants := ys\<rparr>) = d\<lparr>variants := if b then xs else ys\<rparr>" for b xs ys
    by simp
  have cast_some: "(\<exists>t. x = Some t \<and> p t = Some y) \<longleftrightarrow> cast p x = Inr (Some y)" for x and p :: "string \<Rightarrow> 'b option" and y
    by (auto simp: cast_eq_Inr)
  have bigint_some: "(\<exists>t. x = Some t \<and> bigint_in P t = Inr y) \<longleftrightarrow> cast_bigint P x = Inr (Some y)" for x y
    by (auto simp: cast_bigint_eq_Inr)
  show ?thesis
    unfolding rows upsert_variant_def bind_res_eq_Inr not_null_eq_Inr throw_if_eq_Inr
      item_columns_def variant_bounds_def sku if_db put [symmetric]
    by (simp add: not_le not_less Suc_le_eq cast_some bigint_some eq_commute [of d']) (safe; blast)
qed

definition value_of :: "postgres \<Rightarrow> string \<Rightarrow> string \<times> json \<Rightarrow> value_row \<Rightarrow> bool" where
  "value_of P vkey entry a \<longleftrightarrow> a_variant a = vkey \<and> a_code a = fst entry \<and>
     json_text P (snd entry) = Some (a_value a) \<and> char_count (a_value a) \<le> 300"

lemma insert_value_Inr:
  "insert_value P vkey entry d = Inr d' \<longleftrightarrow>
     (\<exists>a. value_of P vkey entry a \<and>
       (a_variant a, a_code a) \<notin> (\<lambda>a. (a_variant a, a_code a)) ` set (attribute_values d) \<and>
       d' = d\<lparr>attribute_values := attribute_values d @ [a]\<rparr>)"
proof -
  have rows: "(\<exists>w. Q w) \<longleftrightarrow> (\<exists>i c v. Q \<lparr>a_variant = i, a_code = c, a_value = v\<rparr>)" for Q
    by (metis value_row.cases)
  have new: "list_ex (\<lambda>a. a_variant a = vkey \<and> a_code a = c) as \<longleftrightarrow>
      (vkey, c) \<in> (\<lambda>a. (a_variant a, a_code a)) ` set as" for c as
    by (auto simp: list_ex_iff)
  show ?thesis
    unfolding rows by (cases entry) (auto simp: insert_value_def bind_res_eq_Inr new value_of_def)
qed

lemma insert_values:
  "fold_res (insert_value P vkey) ms d = Inr d' \<Longrightarrow>
     \<exists>as. list_all2 (value_of P vkey) ms as \<and> distinct (map a_code as) \<and>
       (\<lambda>a. (a_variant a, a_code a)) ` set as \<inter> (\<lambda>a. (a_variant a, a_code a)) ` set (attribute_values d) = {} \<and>
       d' = d\<lparr>attribute_values := attribute_values d @ as\<rparr>"
proof (induction ms arbitrary: d)
  case (Cons x xs)
  then obtain d1 where step: "insert_value P vkey x d = Inr d1" "fold_res (insert_value P vkey) xs d1 = Inr d'"
    by (auto simp: bind_res_eq_Inr)
  from step(1) obtain a where a: "value_of P vkey x a"
      "(a_variant a, a_code a) \<notin> (\<lambda>a. (a_variant a, a_code a)) ` set (attribute_values d)"
      "d1 = d\<lparr>attribute_values := attribute_values d @ [a]\<rparr>"
    unfolding insert_value_Inr by blast
  from Cons.IH [OF step(2)] obtain as where as: "list_all2 (value_of P vkey) xs as" "distinct (map a_code as)"
      "(\<lambda>a. (a_variant a, a_code a)) ` set as \<inter> (\<lambda>a. (a_variant a, a_code a)) ` set (attribute_values d1) = {}"
      "d' = d1\<lparr>attribute_values := attribute_values d1 @ as\<rparr>" by blast
  have "\<forall>b \<in> set as. a_variant b = vkey"
    using as(1) by (auto simp: list_all2_conv_all_nth in_set_conv_nth value_of_def)
  moreover have "a_variant a = vkey" using a(1) by (simp add: value_of_def)
  ultimately have "a_code a \<notin> a_code ` set as" using as(3) a(3) by (force simp: disjoint_iff)
  then show ?case
    by (intro exI [of _ "a # as"]) (use a as in \<open>auto simp: disjoint_iff image_iff\<close>)
qed auto

lemma write_values_Inr:
  assumes "write_values P item vkey d = Inr d'"
  shows "\<exists>ms as. object_members (field item ''attributes'') = Inr ms \<and> list_all2 (value_of P vkey) ms as \<and>
      distinct (map a_code as) \<and> a_code ` set as \<subseteq> d_code ` set (attributes d) \<and>
      d' = d\<lparr>attribute_values := filter (\<lambda>a. a_variant a \<noteq> vkey) (attribute_values d) @ as\<rparr>"
proof -
  from assms obtain ms where ms: "object_members (field item ''attributes'') = Inr ms"
      "fold_res (insert_value P vkey) ms
        (d\<lparr>attribute_values := filter (\<lambda>a. a_variant a \<noteq> vkey) (attribute_values d)\<rparr>) = Inr d'"
      "\<not> list_ex (\<lambda>a. a_variant a = vkey \<and> \<not> list_ex (\<lambda>r. d_code r = a_code a) (attributes d')) (attribute_values d')"
    unfolding write_values_def bind_res_eq_Inr throw_if_eq_Inr by auto
  from insert_values [OF ms(2)] obtain as where as: "list_all2 (value_of P vkey) ms as" "distinct (map a_code as)"
      "d' = d\<lparr>attribute_values := filter (\<lambda>a. a_variant a \<noteq> vkey) (attribute_values d) @ as\<rparr>"
    by auto
  have "\<forall>b \<in> set as. a_variant b = vkey"
    using as(1) by (auto simp: list_all2_conv_all_nth in_set_conv_nth value_of_def)
  with ms(3) as(3) have "a_code ` set as \<subseteq> d_code ` set (attributes d)"
    unfolding list_ex_key by (auto simp: list_ex_iff)
  with ms as show ?thesis by blast
qed

text \<open>One turn of the loop: the variant it writes, with its identity.\<close>

definition variant_key :: "postgres \<Rightarrow> json \<Rightarrow> db \<Rightarrow> string \<times> db \<Rightarrow> bool" where
  "variant_key P item d r \<longleftrightarrow>
     (\<exists>s. field_text P item ''id'' = Some s \<and> uuid_in P s = Some (fst r) \<and> snd r = d) \<or>
     field_text P item ''id'' = None \<and> fst r = random_uuid P (uuid_counter d) \<and>
       snd r = d\<lparr>uuid_counter := Suc (uuid_counter d)\<rparr>"

lemma save_variant_Inr:
  assumes "save_variant P key item (retained, d) = Inr (retained', d')"
  shows "\<exists>w ms as d1. variant_key P item d (v_id w, d1) \<and> retained' = retained @ [v_id w] \<and>
      v_product w = key \<and> item_columns P item w \<and> variant_bounds w \<and>
      (has_key item ''id'' \<longrightarrow> (\<exists>v \<in> set (variants d). v_id v = v_id w \<and> v_product v = key)) \<and>
      (\<forall>v \<in> set (variants d). v_sku v = v_sku w \<longrightarrow> v_id v = v_id w) \<and>
      object_members (field item ''attributes'') = Inr ms \<and> list_all2 (value_of P (v_id w)) ms as \<and>
      distinct (map a_code as) \<and> a_code ` set as \<subseteq> d_code ` set (attributes d) \<and>
      d' = d1\<lparr>variants := put_variant w (variants d),
              attribute_values := filter (\<lambda>a. a_variant a \<noteq> v_id w) (attribute_values d) @ as\<rparr>"
proof -
  from assms obtain given vkey d1 d2 where steps: "cast (uuid_in P) (field_text P item ''id'') = Inr given"
      "vkey = (case given of None \<Rightarrow> random_uuid P (uuid_counter d) | Some k \<Rightarrow> k)"
      "d1 = (case given of None \<Rightarrow> d\<lparr>uuid_counter := Suc (uuid_counter d)\<rparr> | Some _ \<Rightarrow> d)"
      "has_key item ''id'' \<longrightarrow> list_ex (\<lambda>v. v_id v = vkey \<and> v_product v = key) (variants d1)"
      "upsert_variant P key vkey item d1 = Inr d2" "write_values P item vkey d2 = Inr d'"
      "retained' = retained @ [vkey]"
    by (auto simp: save_variant_def bind_res_eq_Inr Let_def simp del: not_null_eq_Inr)
  have same: "variants d1 = variants d" "attribute_values d1 = attribute_values d" "attributes d1 = attributes d"
    by (simp_all add: steps(3) split: option.splits)
  from steps(5) obtain w where w: "v_id w = vkey" "v_product w = key" "item_columns P item w" "variant_bounds w"
      "\<forall>v \<in> set (variants d1). v_sku v = v_sku w \<longrightarrow> v_id v = vkey" "d2 = d1\<lparr>variants := put_variant w (variants d1)\<rparr>"
    unfolding upsert_variant_Inr by blast
  from write_values_Inr [OF steps(6)] obtain ms as where vals:
      "object_members (field item ''attributes'') = Inr ms" "list_all2 (value_of P vkey) ms as"
      "distinct (map a_code as)" "a_code ` set as \<subseteq> d_code ` set (attributes d2)"
      "d' = d2\<lparr>attribute_values := filter (\<lambda>a. a_variant a \<noteq> vkey) (attribute_values d2) @ as\<rparr>" by blast
  have "variant_key P item d (vkey, d1)"
    using steps(1,2,3) by (auto simp: variant_key_def cast_eq_Inr)
  with steps(4,7) w vals same show ?thesis
    by (intro exI [of _ w] exI [of _ ms] exI [of _ as] exI [of _ d1]) (auto simp: list_ex_iff)
qed

text \<open>Images and the audit record.\<close>

lemma insert_image_Inr:
  "insert_image P key (x, pos) d = Inr d' \<longleftrightarrow>
     (\<exists>m. uuid_of P x m \<and> 0 \<le> pos \<and> pos \<le> 9 \<and>
       (\<forall>i \<in> set (images d). i_product i = key \<longrightarrow> i_media i \<noteq> m \<and> i_position i \<noteq> pos) \<and>
       d' = d\<lparr>images := images d @ [\<lparr>i_product = key, i_media = m, i_position = pos\<rparr>]\<rparr>)"
  unfolding insert_image_def prod.case bind_res_eq_Inr not_null_eq_Inr throw_if_eq_Inr cast_uuid_of [symmetric]
  by (auto simp: list_ex_iff not_le not_less)

definition image_row_of :: "postgres \<Rightarrow> string \<Rightarrow> json \<times> int \<Rightarrow> image_row \<Rightarrow> bool" where
  "image_row_of P key entry i \<longleftrightarrow> i_product i = key \<and> uuid_of P (fst entry) (i_media i) \<and>
     i_position i = snd entry \<and> 0 \<le> i_position i \<and> i_position i \<le> 9"

lemma insert_images:
  "fold_res (insert_image P key) es d = Inr d' \<Longrightarrow>
     \<exists>is. list_all2 (image_row_of P key) es is \<and> distinct (map i_media is) \<and> distinct (map i_position is) \<and>
       (\<forall>i \<in> set is. \<forall>j \<in> set (images d). i_product j = key \<longrightarrow> i_media i \<noteq> i_media j \<and> i_position i \<noteq> i_position j) \<and>
       d' = d\<lparr>images := images d @ is\<rparr>"
proof (induction es arbitrary: d)
  case (Cons e es)
  obtain x pos where e: "e = (x, pos)" by (cases e)
  from Cons.prems obtain d1 where step: "insert_image P key (x, pos) d = Inr d1" "fold_res (insert_image P key) es d1 = Inr d'"
    by (auto simp: bind_res_eq_Inr e)
  from step(1) obtain m where m: "uuid_of P x m" "0 \<le> pos" "pos \<le> 9"
      "\<forall>i \<in> set (images d). i_product i = key \<longrightarrow> i_media i \<noteq> m \<and> i_position i \<noteq> pos"
      "d1 = d\<lparr>images := images d @ [\<lparr>i_product = key, i_media = m, i_position = pos\<rparr>]\<rparr>"
    unfolding insert_image_Inr by blast
  from Cons.IH [OF step(2)] obtain "is" where is': "list_all2 (image_row_of P key) es is" "distinct (map i_media is)"
      "distinct (map i_position is)"
      "\<forall>i \<in> set is. \<forall>j \<in> set (images d1). i_product j = key \<longrightarrow> i_media i \<noteq> i_media j \<and> i_position i \<noteq> i_position j"
      "d' = d1\<lparr>images := images d1 @ is\<rparr>" by blast
  show ?case
  proof (rule exI [of _ "\<lparr>i_product = key, i_media = m, i_position = pos\<rparr> # is"], intro conjI)
    show "list_all2 (image_row_of P key) (e # es) (\<lparr>i_product = key, i_media = m, i_position = pos\<rparr> # is)"
      using m(1,2,3) is'(1) by (simp add: e image_row_of_def [of P key "(x, pos)"])
  qed (use m(4,5) is'(2-) in \<open>force+\<close>)
qed auto

lemma write_images_Inr [sql_effects]:
  assumes "write_images P doc key d = Inr d'"
  shows "\<exists>xs is. array_elements (field doc ''mediaIds'') = Inr xs \<and>
      list_all2 (image_row_of P key) (zip xs (map int [0..<length xs])) is \<and>
      distinct (map i_media is) \<and> distinct (map i_position is) \<and> i_media ` set is \<subseteq> m_id ` set (media d) \<and>
      d' = d\<lparr>images := filter (\<lambda>i. i_product i \<noteq> key) (images d) @ is\<rparr>"
proof -
  from assms obtain xs where xs: "array_elements (field doc ''mediaIds'') = Inr xs"
      "fold_res (insert_image P key) (zip xs (map int [0..<length xs]))
        (d\<lparr>images := filter (\<lambda>i. i_product i \<noteq> key) (images d)\<rparr>) = Inr d'"
      "\<not> list_ex (\<lambda>i. i_product i = key \<and> \<not> list_ex (\<lambda>r. m_id r = i_media i) (media d')) (images d')"
    unfolding write_images_def bind_res_eq_Inr throw_if_eq_Inr by auto
  from insert_images [OF xs(2)] obtain "is" where is': "list_all2 (image_row_of P key) (zip xs (map int [0..<length xs])) is"
      "distinct (map i_media is)" "distinct (map i_position is)"
      "d' = d\<lparr>images := filter (\<lambda>i. i_product i \<noteq> key) (images d) @ is\<rparr>" by auto
  have "\<forall>b \<in> set is. i_product b = key"
    using is'(1) by (auto simp: list_all2_conv_all_nth in_set_conv_nth image_row_of_def)
  with xs(3) is'(4) have "i_media ` set is \<subseteq> m_id ` set (media d)"
    unfolding list_ex_key by (auto simp: list_ex_iff)
  with xs is' show ?thesis by blast
qed

lemma insert_audit_Inr [sql_effects]:
  "insert_audit row d = Inr d' \<longleftrightarrow> l_actor row \<in> u_id ` set (users d) \<and> d' = d\<lparr>audit := audit d @ [row]\<rparr>"
  by (auto simp: insert_audit_def bind_res_eq_Inr list_ex_key)

end
