(* ===== verification/Catalog_Integrity.thy ===== *)
theory Catalog_Integrity
  imports Catalog_Invariant
begin

text \<open>
  The invariant of the catalog tables, kept by every successful save; the variants of a
  product across saves; and what a save leaves alone.
\<close>

subsection \<open>The invariant\<close>

definition products_ok :: "string set \<Rightarrow> product_row list \<Rightarrow> bool" where
  "products_ok bs ps \<longleftrightarrow> distinct (map p_id ps) \<and> distinct (map p_slug ps) \<and>
     (\<forall>p \<in> set ps. slug (p_slug p) \<and> known_status (p_status p) \<and> 0 < p_revision p \<and> p_revision p < 2 ^ 31 \<and>
        (\<forall>b. p_brand p = Some b \<longrightarrow> b \<in> bs))"

definition category_links_ok :: "string set \<Rightarrow> string set \<Rightarrow> (string \<times> string) list \<Rightarrow> bool" where
  "category_links_ok ps cs ls \<longleftrightarrow> distinct ls \<and> (\<forall>(p, c) \<in> set ls. p \<in> ps \<and> c \<in> cs)"

definition texts_ok :: "string set \<Rightarrow> translation_row list \<Rightarrow> bool" where
  "texts_ok ps ts \<longleftrightarrow> distinct (map (\<lambda>t. (t_product t, t_locale t)) ts) \<and>
     (\<forall>t \<in> set ts. text_bounds t \<and> t_product t \<in> ps)"

definition variants_ok :: "string set \<Rightarrow> variant_row list \<Rightarrow> bool" where
  "variants_ok ps vs \<longleftrightarrow> distinct (map v_id vs) \<and> distinct (map v_sku vs) \<and>
     (\<forall>v \<in> set vs. variant_bounds v \<and> v_product v \<in> ps)"

definition values_ok :: "string set \<Rightarrow> string set \<Rightarrow> value_row list \<Rightarrow> bool" where
  "values_ok vs cs as \<longleftrightarrow> distinct (map (\<lambda>a. (a_variant a, a_code a)) as) \<and>
     (\<forall>a \<in> set as. a_variant a \<in> vs \<and> a_code a \<in> cs \<and> char_count (a_value a) \<le> 300)"

definition images_ok :: "string set \<Rightarrow> string set \<Rightarrow> image_row list \<Rightarrow> bool" where
  "images_ok ps ms is \<longleftrightarrow> distinct (map (\<lambda>i. (i_product i, i_media i)) is) \<and>
     distinct (map (\<lambda>i. (i_product i, i_position i)) is) \<and>
     (\<forall>i \<in> set is. i_product i \<in> ps \<and> i_media i \<in> ms \<and> 0 \<le> i_position i \<and> i_position i \<le> 9)"

definition catalog_ok :: "db \<Rightarrow> bool" where
  "catalog_ok d \<longleftrightarrow>
     products_ok (b_id ` set (brands d)) (products d) \<and>
     category_links_ok (p_id ` set (products d)) (c_id ` set (categories d)) (product_categories d) \<and>
     texts_ok (p_id ` set (products d)) (product_texts d) \<and>
     variants_ok (p_id ` set (products d)) (variants d) \<and>
     values_ok (v_id ` set (variants d)) (d_code ` set (attributes d)) (attribute_values d) \<and>
     images_ok (p_id ` set (products d)) (m_id ` set (media d)) (images d) \<and>
     (\<forall>l \<in> set (audit d). l_actor l \<in> u_id ` set (users d))"

lemma links_mono:
  "category_links_ok ps cs ls \<Longrightarrow> ps \<subseteq> ps' \<Longrightarrow> category_links_ok ps' cs ls"
  "texts_ok ps ts \<Longrightarrow> ps \<subseteq> ps' \<Longrightarrow> texts_ok ps' ts"
  "variants_ok ps vs \<Longrightarrow> ps \<subseteq> ps' \<Longrightarrow> variants_ok ps' vs"
  "images_ok ps ms is \<Longrightarrow> ps \<subseteq> ps' \<Longrightarrow> images_ok ps' ms is"
  "values_ok ks cs as \<Longrightarrow> ks \<subseteq> ks' \<Longrightarrow> values_ok ks' cs as"
  by (auto simp: category_links_ok_def texts_ok_def variants_ok_def images_ok_def values_ok_def)

text \<open>Rows of other products stay, the rows of this one are replaced.\<close>

lemma category_links_replace:
  assumes "category_links_ok ps cs ls" "key \<in> ps" "distinct new" "set new \<subseteq> cs"
  shows "category_links_ok ps cs (filter (\<lambda>(q, _). q \<noteq> key) ls @ map (Pair key) new)"
  using assms by (auto simp: category_links_ok_def distinct_map inj_on_def)

lemma texts_replace:
  assumes "texts_ok ps ts" "key \<in> ps" "list_all text_bounds new" "\<forall>t \<in> set new. t_product t = key"
    "distinct (map (\<lambda>t. (t_product t, t_locale t)) new)"
  shows "texts_ok ps (filter (\<lambda>t. t_product t \<noteq> key) ts @ new)"
  using assms by (auto simp: texts_ok_def list_all_iff distinct_map_filter)

lemma values_replace:
  assumes "values_ok vs cs as" "key \<in> vs" "\<forall>a \<in> set new. a_variant a = key \<and> char_count (a_value a) \<le> 300"
    "distinct (map a_code new)" "a_code ` set new \<subseteq> cs"
  shows "values_ok vs cs (filter (\<lambda>a. a_variant a \<noteq> key) as @ new)"
proof -
  have "distinct (map (\<lambda>a. (a_variant a, a_code a)) new)"
    using assms(4) by (auto simp: distinct_map inj_on_def)
  with assms show ?thesis by (auto simp: values_ok_def distinct_map_filter)
qed

lemma images_replace:
  assumes "images_ok ps ms is" "key \<in> ps" "\<forall>i \<in> set new. i_product i = key \<and> 0 \<le> i_position i \<and> i_position i \<le> 9"
    "distinct (map i_media new)" "distinct (map i_position new)" "i_media ` set new \<subseteq> ms"
  shows "images_ok ps ms (filter (\<lambda>i. i_product i \<noteq> key) is @ new)"
proof -
  have "distinct (map (\<lambda>i. (i_product i, i_media i)) new)" "distinct (map (\<lambda>i. (i_product i, i_position i)) new)"
    using assms(4,5) by (auto simp: distinct_map inj_on_def)
  with assms show ?thesis by (auto simp: images_ok_def distinct_map_filter)
qed

subsection \<open>Each statement keeps it\<close>

text \<open>What the two statements on \<open>products\<close> share: a new row that satisfies the constraints.\<close>

lemma update_product_row:
  "update_product P doc p d = Inr d' \<Longrightarrow>
    \<exists>p'. product_constraints d (filter (\<lambda>q. p_id q \<noteq> p_id p) (products d)) p' = Inr () \<and>
      field_text P doc ''slug'' = Some (p_slug p') \<and> field_text P doc ''status'' = Some (p_status p') \<and>
      cast (uuid_in P) (field_text P doc ''brandId'') = Inr (p_brand p') \<and>
      p_id p' = p_id p \<and> p_revision p + 1 < 2 ^ 31 \<and> p_revision p' = p_revision p + 1 \<and>
      p_created p' = p_created p \<and> p_updated p' = clock d \<and>
      d' = d\<lparr>products := map (\<lambda>q. if p_id q = p_id p then p' else q) (products d)\<rparr>"
  unfolding update_product_Inr
  by (elim exE conjE, rule exI, rule conjI, assumption) simp

lemma insert_product_row:
  "insert_product P doc key d = Inr d' \<Longrightarrow>
    \<exists>p'. product_constraints d (products d) p' = Inr () \<and>
      field_text P doc ''slug'' = Some (p_slug p') \<and> field_text P doc ''status'' = Some (p_status p') \<and>
      cast (uuid_in P) (field_text P doc ''brandId'') = Inr (p_brand p') \<and>
      p_id p' = key \<and> p_revision p' = 1 \<and> p_created p' = clock d \<and> p_updated p' = clock d \<and>
      d' = d\<lparr>products := products d @ [p']\<rparr>"
  unfolding insert_product_Inr
  by (elim exE conjE, rule exI, rule conjI, assumption) simp

lemma update_product_keeps:
  assumes "update_product P doc p d = Inr d'" and ok: "catalog_ok d" and p: "p \<in> set (products d)"
  shows "catalog_ok d' \<and> map p_id (products d') = map p_id (products d)"
proof -
  from assms(1) obtain p' where p': "p_id p' = p_id p" "p_revision p + 1 < 2 ^ 31" "p_revision p' = p_revision p + 1"
      "product_constraints d (filter (\<lambda>q. p_id q \<noteq> p_id p) (products d)) p' = Inr ()"
      "d' = d\<lparr>products := map (\<lambda>q. if p_id q = p_id p then p' else q) (products d)\<rparr>"
    using update_product_row by blast
  have ids: "map p_id (map (\<lambda>q. if p_id q = p_id p then p' else q) (products d)) = map p_id (products d)"
    using p'(1) by simp
  then have id_set: "p_id ` (set (map (\<lambda>q. if p_id q = p_id p then p' else q) (products d))) = p_id ` set (products d)"
    by (metis list.set_map)
  from ok have prods: "products_ok (b_id ` set (brands d)) (products d)" by (simp add: catalog_ok_def)
  have "distinct (map (\<lambda>q. p_slug (if p_id q = p_id p then p' else q)) (products d))"
    by (rule distinct_replace) (use prods p'(4) in \<open>auto simp: products_ok_def product_constraints_Inr\<close>)
  then have "distinct (map p_slug (map (\<lambda>q. if p_id q = p_id p then p' else q) (products d)))"
    by (simp add: comp_def)
  then have "products_ok (b_id ` set (brands d)) (map (\<lambda>q. if p_id q = p_id p then p' else q) (products d))"
    using prods p' ids unfolding products_ok_def product_constraints_Inr
    by (auto simp del: map_map split: if_splits)
  with ok id_set show ?thesis by (simp add: p'(5) catalog_ok_def ids del: list.set_map set_map map_map)
qed

lemma insert_product_keeps:
  assumes "insert_product P doc key d = Inr d'" and ok: "catalog_ok d"
  shows "catalog_ok d' \<and> map p_id (products d') = map p_id (products d) @ [key]"
proof -
  from assms(1) obtain p where p: "p_id p = key" "p_revision p = 1"
      "product_constraints d (products d) p = Inr ()" "d' = d\<lparr>products := products d @ [p]\<rparr>"
    using insert_product_row by blast
  with ok have "products_ok (b_id ` set (brands d)) (products d @ [p])"
    by (force simp: catalog_ok_def products_ok_def product_constraints_Inr)
  then show ?thesis
    using ok p unfolding catalog_ok_def
    by (auto intro: links_mono)
qed

lemma write_categories_keeps:
  assumes "write_categories P doc key d = Inr d'" "catalog_ok d" "key \<in> p_id ` set (products d)"
  shows "catalog_ok d' \<and> products d' = products d"
  using assms by (auto dest!: write_categories_Inr simp: catalog_ok_def intro!: category_links_replace)

lemma write_texts_keeps:
  assumes "write_texts P doc key d = Inr d'" "catalog_ok d" "key \<in> p_id ` set (products d)"
  shows "catalog_ok d' \<and> products d' = products d"
proof -
  from write_texts_Inr [OF assms(1)] obtain ms ts where ts: "list_all2 (text_row P key) ms ts"
      "list_all text_bounds ts" "distinct (map (\<lambda>t. (t_product t, t_locale t)) ts)"
      "d' = d\<lparr>product_texts := filter (\<lambda>t. t_product t \<noteq> key) (product_texts d) @ ts\<rparr>" by blast
  from ts(1) have "\<forall>t \<in> set ts. t_product t = key"
    by (auto simp: list_all2_conv_all_nth in_set_conv_nth text_row_def)
  with ts assms(2,3) show ?thesis by (simp add: catalog_ok_def texts_replace)
qed

lemma write_images_keeps:
  assumes "write_images P doc key d = Inr d'" "catalog_ok d" "key \<in> p_id ` set (products d)"
  shows "catalog_ok d' \<and> products d' = products d"
proof -
  from write_images_Inr [OF assms(1)] obtain xs "is" where im:
      "list_all2 (image_row_of P key) (zip xs (map int [0..<length xs])) is"
      "distinct (map i_media is)" "distinct (map i_position is)" "i_media ` set is \<subseteq> m_id ` set (media d)"
      "d' = d\<lparr>images := filter (\<lambda>i. i_product i \<noteq> key) (images d) @ is\<rparr>" by blast
  from im(1) have "\<forall>i \<in> set is. i_product i = key \<and> 0 \<le> i_position i \<and> i_position i \<le> 9"
    by (auto simp: list_all2_conv_all_nth in_set_conv_nth image_row_of_def)
  with im assms(2,3) show ?thesis by (simp add: catalog_ok_def images_replace)
qed

lemma put_variant_skus:
  assumes "distinct (map v_id vs)" "distinct (map v_sku vs)"
    "\<forall>v \<in> set vs. v_sku v = v_sku w \<longrightarrow> v_id v = v_id w"
  shows "distinct (map v_sku (put_variant w vs))"
proof (cases "v_id w \<in> v_id ` set vs")
  case True
  have "distinct (map (\<lambda>v. v_sku (if v_id v = v_id w then w\<lparr>v_product := v_product v\<rparr> else v)) vs)"
    by (rule distinct_replace) (use assms in auto)
  with True show ?thesis by (simp add: put_variant_def comp_def)
next
  case False
  have "v_sku w \<notin> v_sku ` set vs"
  proof
    assume "v_sku w \<in> v_sku ` set vs"
    then obtain v where "v \<in> set vs" "v_sku v = v_sku w" by (metis imageE)
    with assms(3) have "v_id w \<in> v_id ` set vs" by (metis imageI)
    with False show False ..
  qed
  with False assms(2) show ?thesis by (simp add: put_variant_def)
qed

lemma put_variant_keys:
  "map (\<lambda>v. (v_id v, v_product v)) (put_variant w vs) =
     map (\<lambda>v. (v_id v, v_product v)) vs @ (if v_id w \<in> v_id ` set vs then [] else [(v_id w, v_product w)])"
  by (simp add: put_variant_def)

lemma put_variant_distinct: "distinct (map v_id vs) \<Longrightarrow> distinct (map v_id (put_variant w vs))"
proof (cases "v_id w \<in> v_id ` set vs")
  case True
  then have "map v_id (put_variant w vs) = map v_id vs" by (auto simp: put_variant_def)
  then show "distinct (map v_id vs) \<Longrightarrow> distinct (map v_id (put_variant w vs))" by simp
qed (auto simp: put_variant_def)

lemma put_variant_set:
  "v \<in> set (put_variant w vs) \<Longrightarrow> v \<in> set vs \<or> v = w \<or>
     (\<exists>u \<in> set vs. v_id u = v_id w \<and> v = w\<lparr>v_product := v_product u\<rparr>)"
  by (auto simp: put_variant_def split: if_splits)

lemma put_variant_ok:
  assumes "variants_ok ps vs" "variant_bounds w" "v_product w \<in> ps"
    "\<forall>v \<in> set vs. v_sku v = v_sku w \<longrightarrow> v_id v = v_id w"
  shows "variants_ok ps (put_variant w vs)"
proof -
  have "variant_bounds (w\<lparr>v_product := x\<rparr>)" for x using assms(2) by (simp add: variant_bounds_def)
  with assms show ?thesis
    unfolding variants_ok_def by (auto simp: put_variant_distinct put_variant_skus dest!: put_variant_set)
qed

text \<open>
  The loop over the variants: it changes the three tables only, keeps the invariant, keeps
  every variant with its product, and each identifier it collects is a variant.
\<close>

definition loop_frame :: "db \<Rightarrow> db \<Rightarrow> bool" where
  "loop_frame d d' \<longleftrightarrow> (\<exists>n vs as. d' = d\<lparr>uuid_counter := uuid_counter d + n, variants := vs,
     attribute_values := as\<rparr>)"

lemma loop_frame_refl [simp]: "loop_frame d d"
  unfolding loop_frame_def by (rule exI [of _ 0], rule exI [of _ "variants d"], rule exI [of _ "attribute_values d"]) simp

lemma loop_frame_trans: "loop_frame d d' \<Longrightarrow> loop_frame d' d'' \<Longrightarrow> loop_frame d d''"
proof -
  assume "loop_frame d d'" "loop_frame d' d''"
  then obtain n m vs as where "d'' = d\<lparr>uuid_counter := uuid_counter d + (n + m), variants := vs, attribute_values := as\<rparr>"
    unfolding loop_frame_def by (elim exE) (simp add: add.assoc)
  then show ?thesis unfolding loop_frame_def by blast
qed

lemma loop_frame_tables:
  assumes "loop_frame d d'"
  shows "products d' = products d" "categories d' = categories d" "product_categories d' = product_categories d"
    "product_texts d' = product_texts d" "attributes d' = attributes d" "media d' = media d" "images d' = images d"
    "audit d' = audit d" "users d' = users d" "brands d' = brands d" "clock d' = clock d"
    "uuid_counter d \<le> uuid_counter d'"
  using assms by (auto simp: loop_frame_def)

lemma save_variant_frame:
  assumes "save_variant P key item (retained, d) = Inr (retained', d')"
  shows "loop_frame d d'"
proof -
  from save_variant_Inr [OF assms] obtain i d1 vs as where
    d1: "variant_key P item d (i, d1)" "d' = d1\<lparr>variants := vs, attribute_values := as\<rparr>" by blast
  then have "d' = d\<lparr>uuid_counter := uuid_counter d + 0, variants := vs, attribute_values := as\<rparr> \<or>
      d' = d\<lparr>uuid_counter := uuid_counter d + 1, variants := vs, attribute_values := as\<rparr>"
    by (auto simp: variant_key_def)
  then show ?thesis unfolding loop_frame_def by blast
qed

lemma save_variant_keeps:
  assumes "save_variant P key item (retained, d) = Inr (retained', d')" and ok: "catalog_ok d"
    and key: "key \<in> p_id ` set (products d)"
  shows "catalog_ok d'"
proof -
  from save_variant_Inr [OF assms(1)] obtain w ms as d1 where s:
      "variant_key P item d (v_id w, d1)" "v_product w = key" "variant_bounds w"
      "\<forall>v \<in> set (variants d). v_sku v = v_sku w \<longrightarrow> v_id v = v_id w"
      "list_all2 (value_of P (v_id w)) ms as" "distinct (map a_code as)" "a_code ` set as \<subseteq> d_code ` set (attributes d)"
      "d' = d1\<lparr>variants := put_variant w (variants d),
              attribute_values := filter (\<lambda>a. a_variant a \<noteq> v_id w) (attribute_values d) @ as\<rparr>" by blast
  have vals: "\<forall>a \<in> set as. a_variant a = v_id w \<and> char_count (a_value a) \<le> 300"
    using s(5) by (auto simp: list_all2_conv_all_nth in_set_conv_nth value_of_def)
  have "variants_ok (p_id ` set (products d)) (put_variant w (variants d))"
    by (rule put_variant_ok) (use ok key s in \<open>auto simp: catalog_ok_def\<close>)
  moreover have "values_ok (v_id ` set (put_variant w (variants d))) (d_code ` set (attributes d))
      (filter (\<lambda>a. a_variant a \<noteq> v_id w) (attribute_values d) @ as)"
    by (rule values_replace) (use ok s vals in \<open>auto simp: catalog_ok_def put_variant_ids intro: links_mono(5)\<close>)
  moreover have "d1 = d \<or> d1 = d\<lparr>uuid_counter := Suc (uuid_counter d)\<rparr>"
    using s(1) by (auto simp: variant_key_def)
  ultimately show ?thesis using ok unfolding s(8) catalog_ok_def by (elim disjE) simp_all
qed

lemma retire_variants_keeps:
  assumes "catalog_ok d"
  shows "catalog_ok (retire_variants key retained d)"
proof -
  define vs where "vs = map (\<lambda>v. if v_product v = key \<and> v_id v \<notin> set retained then v\<lparr>v_active := False\<rparr> else v) (variants d)"
  have maps: "map v_id vs = map v_id (variants d)" "map v_sku vs = map v_sku (variants d)" by (simp_all add: vs_def)
  from maps(1) have ids: "v_id ` set vs = v_id ` set (variants d)" by (metis list.set_map)
  have "\<forall>v \<in> set vs. variant_bounds v \<and> v_product v \<in> p_id ` set (products d)"
    using assms by (auto simp: vs_def catalog_ok_def variants_ok_def variant_bounds_def)
  with assms have "variants_ok (p_id ` set (products d)) vs" by (simp add: catalog_ok_def variants_ok_def maps)
  with assms ids have "catalog_ok (d\<lparr>variants := vs\<rparr>)" by (simp add: catalog_ok_def)
  then show ?thesis by (simp add: retire_variants_def vs_def)
qed

end
