(* ===== verification/Catalog_Save.thy ===== *)
theory Catalog_Save
  imports Catalog_Integrity
begin

text \<open>
  \<open>catalog_save\<close> as a whole: a call either commits all its statements or changes nothing,
  an update needs the current revision and moves it by one, the invariant is kept, variants
  keep their identity, other products are left alone, and each success is audited.
\<close>

subsection \<open>The statements of a successful call\<close>

lemma save_parts_Inr:
  assumes "save_parts P doc actor corr target previous key d0 = Inr (r, d')"
  obtains d1 d2 items retained d3 d4 row where
    "write_categories P doc key d0 = Inr d1" "write_texts P doc key d1 = Inr d2"
    "array_elements (field doc ''variants'') = Inr items"
    "fold_res (save_variant P key) items ([], d2) = Inr (retained, d3)"
    "write_images P doc key (retire_variants key retained d3) = Inr d4"
    "insert_audit row d4 = Inr d'"
    "row = \<lparr>l_actor = actor, l_action = (if target = None then ''product.created'' else ''product.updated''),
       l_entity = key, l_request = corr, l_changes = JObj
         [(''oldRevision'', case previous of None \<Rightarrow> JNull | Some v \<Rightarrow> json_or_null (field v ''revision'')),
          (''newRevision'', case find_product d4 key of None \<Rightarrow> JNull | Some p \<Rightarrow> JInt (p_revision p)),
          (''status'', json_or_null (field doc ''status''))], l_created = clock d4\<rparr>"
    "r = json_or_null (catalog_document P d' key)"
proof -
  from assms obtain d1 d2 items acc d4 d5 where s:
    "write_categories P doc key d0 = Inr d1" "write_texts P doc key d1 = Inr d2"
    "array_elements (field doc ''variants'') = Inr items"
    "fold_res (save_variant P key) items ([], d2) = Inr acc"
    "write_images P doc key (retire_variants key (fst acc) (snd acc)) = Inr d4"
    "insert_audit \<lparr>l_actor = actor, l_action = (if target = None then ''product.created'' else ''product.updated''),
       l_entity = key, l_request = corr, l_changes = JObj
         [(''oldRevision'', case previous of None \<Rightarrow> JNull | Some v \<Rightarrow> json_or_null (field v ''revision'')),
          (''newRevision'', case find_product d4 key of None \<Rightarrow> JNull | Some p \<Rightarrow> JInt (p_revision p)),
          (''status'', json_or_null (field doc ''status''))], l_created = clock d4\<rparr> d4 = Inr d5"
    "Inr (json_or_null (catalog_document P d5 key), d5) = (Inr (r, d') :: (json \<times> db) sql)"
    unfolding save_parts_def bind_res_eq_Inr case_prod_unfold by blast
  obtain retained d3 where acc: "acc = (retained, d3)" by (cases acc)
  show ?thesis
    by (rule that [OF s(1-3) _ _ _ refl]) (use s acc in auto)
qed

text \<open>The product a call is about, and what a call that commits has done.\<close>

definition product_key :: "postgres \<Rightarrow> string option \<Rightarrow> db \<Rightarrow> string" where
  "product_key P target d = (case target of None \<Rightarrow> random_uuid P (uuid_counter d) | Some k \<Rightarrow> k)"

definition committed ::
  "postgres \<Rightarrow> json \<Rightarrow> string \<Rightarrow> string \<Rightarrow> string option \<Rightarrow> int \<Rightarrow> db \<Rightarrow> json \<Rightarrow> db \<Rightarrow> bool" where
  "committed P doc actor corr target expected d r d' \<longleftrightarrow>
     (case target of
        Some key \<Rightarrow> (\<exists>p d0. find_product d key = Some p \<and> p_revision p = expected \<and>
          update_product P doc p d = Inr d0 \<and>
          save_parts P doc actor corr target (catalog_document P d key) key d0 = Inr (r, d'))
      | None \<Rightarrow> (\<exists>d0. insert_product P doc (product_key P target d) (d\<lparr>uuid_counter := Suc (uuid_counter d)\<rparr>) = Inr d0 \<and>
          save_parts P doc actor corr None None (product_key P target d) d0 = Inr (r, d')))"

definition save_failures :: "string set" where
  "save_failures = {''NOT_FOUND'', ''REVISION_CONFLICT'', ''DUPLICATE_SLUG_OR_SKU'', ''INVALID_REFERENCE''}"

lemma save_block_Inr:
  "save_block P doc actor corr target expected d = Inr (r, d') \<longleftrightarrow>
     (target \<noteq> None \<and> find_product d (the target) = None \<and> r = failure ''NOT_FOUND'' \<and> d' = d) \<or>
     (\<exists>p. target \<noteq> None \<and> find_product d (the target) = Some p \<and> p_revision p \<noteq> expected \<and>
        r = failure ''REVISION_CONFLICT'' \<and> d' = d) \<or>
     committed P doc actor corr target expected d r d'"
  by (auto simp: save_block_def committed_def product_key_def Let_def bind_res_eq_Inr split: option.splits if_splits)

lemma catalog_save_Inr:
  "catalog_save P doc actor corr target expected d = Inr (r, d') \<Longrightarrow>
     committed P doc actor corr target expected d r d' \<or>
     d' = d \<and> (\<exists>c \<in> save_failures. r = failure c)"
  by (auto simp: catalog_save_def save_block_Inr save_failures_def split: sum.splits sql_error.splits)

lemma committed_save:
  "committed P doc actor corr target expected d r d' \<Longrightarrow>
     catalog_save P doc actor corr target expected d = Inr (r, d')"
proof -
  assume "committed P doc actor corr target expected d r d'"
  then have "save_block P doc actor corr target expected d = Inr (r, d')" by (simp add: save_block_Inr)
  then show ?thesis by (simp add: catalog_save_def)
qed

lemma find_product_id: "find_product d k = Some p \<Longrightarrow> p_id p = k \<and> p \<in> set (products d)"
  by (auto simp: find_product_def find_Some_iff)

lemma find_product_ids: "k \<in> p_id ` set (products d) \<Longrightarrow> \<exists>p. find_product d k = Some p"
  by (cases "find_product d k") (auto simp: find_product_def find_None_iff)

lemma find_app: "find Q (xs @ ys) = (case find Q xs of None \<Rightarrow> find Q ys | Some x \<Rightarrow> Some x)"
  by (induction xs) auto

lemma find_map_key:
  "(\<And>q. p_id (f q) = p_id q) \<Longrightarrow>
    find (\<lambda>q. p_id q = k) (map f xs) = map_option f (find (\<lambda>q. p_id q = k) xs)"
  by (induction xs) auto

subsection \<open>Products after a commit\<close>

lemma fold_variants_frame:
  assumes "fold_res (save_variant P key) items ([], d) = Inr (retained, d')"
  shows "loop_frame d d'"
proof -
  have "(\<lambda>(_, e). loop_frame d e) (retained, d')"
    by (rule fold_res_rel [OF assms]) (auto intro: loop_frame_trans save_variant_frame)
  then show ?thesis by simp
qed

lemma save_parts_products:
  assumes "save_parts P doc actor corr target previous key d0 = Inr (r, d')"
  shows "products d' = products d0"
  using assms
proof (rule save_parts_Inr)
  fix d1 d2 items retained d3 d4 row
  assume "write_categories P doc key d0 = Inr d1" "write_texts P doc key d1 = Inr d2"
    "fold_res (save_variant P key) items ([], d2) = Inr (retained, d3)"
    "write_images P doc key (retire_variants key retained d3) = Inr d4" "insert_audit row d4 = Inr d'"
  then show ?thesis
    by (auto dest!: write_categories_Inr write_texts_Inr write_images_Inr fold_variants_frame
        simp: insert_audit_Inr retire_variants_def loop_frame_tables)
qed

lemma committed_product:
  assumes "committed P doc actor corr target expected d r d'"
  shows "\<exists>p'. find_product d' (product_key P target d) = Some p' \<and>
      p_revision p' = (case target of None \<Rightarrow> 1 | Some _ \<Rightarrow> expected + 1) \<and>
      field_text P doc ''slug'' = Some (p_slug p') \<and> field_text P doc ''status'' = Some (p_status p') \<and>
      cast (uuid_in P) (field_text P doc ''brandId'') = Inr (p_brand p') \<and> p_updated p' = clock d \<and>
      p_id p' = product_key P target d \<and>
      (\<forall>k. k \<noteq> product_key P target d \<longrightarrow> find_product d' k = find_product d k)"
proof (cases target)
  case None
  with assms obtain d0 where s: "insert_product P doc (product_key P target d) (d\<lparr>uuid_counter := Suc (uuid_counter d)\<rparr>) = Inr d0"
      "save_parts P doc actor corr None None (product_key P target d) d0 = Inr (r, d')"
    by (auto simp: committed_def)
  from insert_product_row [OF s(1)] obtain p' where p': "\<forall>q \<in> set (products d). p_id q \<noteq> product_key P target d"
      "field_text P doc ''slug'' = Some (p_slug p')" "field_text P doc ''status'' = Some (p_status p')"
      "cast (uuid_in P) (field_text P doc ''brandId'') = Inr (p_brand p')" "p_updated p' = clock d"
      "p_id p' = product_key P target d" "p_revision p' = 1" "products d0 = products d @ [p']"
    by (auto simp: product_constraints_Inr)
  have find: "find_product d' k = (case find_product d k of None \<Rightarrow> if p_id p' = k then Some p' else None | Some x \<Rightarrow> Some x)" for k
    unfolding find_product_def save_parts_products [OF s(2)] p'(8) find_app by (simp split: option.splits)
  have "find_product d (product_key P target d) = None"
    using p'(1) by (simp add: find_product_def find_None_iff)
  with p' show ?thesis
    by (intro exI [of _ p']) (auto simp: None find split: option.splits)
next
  case (Some key)
  with assms obtain p d0 where s: "find_product d key = Some p" "p_revision p = expected"
      "update_product P doc p d = Inr d0"
      "save_parts P doc actor corr (Some key) (catalog_document P d key) key d0 = Inr (r, d')"
    by (auto simp: committed_def)
  from s(1) have p: "p_id p = key" by (simp add: find_product_id)
  from update_product_row [OF s(3)] obtain p' where p': "p_id p' = p_id p"
      "field_text P doc ''slug'' = Some (p_slug p')" "field_text P doc ''status'' = Some (p_status p')"
      "cast (uuid_in P) (field_text P doc ''brandId'') = Inr (p_brand p')" "p_updated p' = clock d"
      "p_revision p' = p_revision p + 1"
      "products d0 = map (\<lambda>q. if p_id q = p_id p then p' else q) (products d)" by auto
  have find: "find_product d' k = map_option (\<lambda>q. if p_id q = p_id p then p' else q) (find_product d k)" for k
    unfolding find_product_def save_parts_products [OF s(4)] p'(7) by (rule find_map_key) (simp add: p'(1))
  have "find_product d' k = find_product d k" if "k \<noteq> key" for k
    using that p by (cases "find_product d k") (auto simp: find dest: find_product_id)
  with s p p' find [of key] show ?thesis
    by (intro exI [of _ p']) (auto simp: Some product_key_def)
qed

lemma committed_result:
  assumes "committed P doc actor corr target expected d r d'"
  shows "catalog_document P d' (product_key P target d) = Some r \<and> \<not> has_key r ''failure'' \<and> is_object r"
proof -
  have "r = json_or_null (catalog_document P d' (product_key P target d))"
    using assms by (auto simp: committed_def product_key_def split: option.splits elim!: save_parts_Inr)
  moreover obtain p' where "find_product d' (product_key P target d) = Some p'"
    using committed_product [OF assms] by blast
  ultimately show ?thesis by (auto simp: catalog_document_def json_or_null_def)
qed

lemma failure_has_key [simp]: "has_key (failure c) ''failure''"
  by (simp add: failure_def)

lemma failure_inject [simp]: "failure c = failure c' \<longleftrightarrow> c = c'"
  by (simp add: failure_def)

text \<open>A call commits exactly when its result is not a failure.\<close>

lemma committed_iff:
  assumes "catalog_save P doc actor corr target expected d = Inr (r, d')"
  shows "committed P doc actor corr target expected d r d' \<longleftrightarrow> \<not> has_key r ''failure''"
  using catalog_save_Inr [OF assms] committed_result [of P doc actor corr target expected d r d'] by auto

subsection \<open>The invariant\<close>

lemma fold_variants_keeps:
  assumes "fold_res (save_variant P key) items ([], d) = Inr (retained, d')" and "catalog_ok d"
    and "key \<in> p_id ` set (products d)"
  shows "catalog_ok d'"
proof -
  have "(\<lambda>(_, e). catalog_ok e \<and> products e = products d) (retained, d')"
    by (rule fold_res_rel [OF assms(1)])
      (use assms in \<open>auto simp: loop_frame_tables dest: save_variant_frame intro: save_variant_keeps\<close>)
  then show ?thesis by simp
qed

lemma save_parts_keeps:
  assumes "save_parts P doc actor corr target previous key d0 = Inr (r, d')"
    and ok: "catalog_ok d0" and key: "key \<in> p_id ` set (products d0)"
  shows "catalog_ok d'"
  using assms(1)
proof (rule save_parts_Inr)
  fix d1 d2 items retained d3 d4 row
  assume s: "write_categories P doc key d0 = Inr d1" "write_texts P doc key d1 = Inr d2"
    "fold_res (save_variant P key) items ([], d2) = Inr (retained, d3)"
    "write_images P doc key (retire_variants key retained d3) = Inr d4" "insert_audit row d4 = Inr d'"
  note s1 = write_categories_keeps [OF s(1) ok key]
  have s2: "catalog_ok d2 \<and> products d2 = products d0" using write_texts_keeps [OF s(2)] s1 key by simp
  have s3: "catalog_ok (retire_variants key retained d3)" "products (retire_variants key retained d3) = products d0"
    using fold_variants_keeps [OF s(3)] loop_frame_tables(1) [OF fold_variants_frame [OF s(3)]] s2 key
    by (simp_all add: retire_variants_keeps) (simp add: retire_variants_def)
  have "catalog_ok d4" using write_images_keeps [OF s(4)] s3 key by simp
  with s(5) show ?thesis by (auto simp: insert_audit_Inr catalog_ok_def)
qed

lemma committed_keeps:
  assumes "committed P doc actor corr target expected d r d'" and ok: "catalog_ok d"
  shows "catalog_ok d'"
proof (cases target)
  case None
  with assms obtain d0 where s: "insert_product P doc (product_key P target d) (d\<lparr>uuid_counter := Suc (uuid_counter d)\<rparr>) = Inr d0"
      "save_parts P doc actor corr None None (product_key P target d) d0 = Inr (r, d')"
    by (auto simp: committed_def)
  have "catalog_ok (d\<lparr>uuid_counter := Suc (uuid_counter d)\<rparr>)" using ok by (simp add: catalog_ok_def)
  from insert_product_keeps [OF s(1) this] have k: "catalog_ok d0"
      "map p_id (products d0) = map p_id (products d) @ [product_key P target d]" by simp_all
  from k(2) have "product_key P target d \<in> set (map p_id (products d0))" by simp
  with save_parts_keeps [OF s(2) k(1)] show ?thesis by simp
next
  case (Some key)
  with assms obtain p d0 where s: "find_product d key = Some p" "update_product P doc p d = Inr d0"
      "save_parts P doc actor corr (Some key) (catalog_document P d key) key d0 = Inr (r, d')"
    by (auto simp: committed_def)
  from s(1) have p: "p_id p = key" "p \<in> set (products d)" by (simp_all add: find_product_id)
  from update_product_keeps [OF s(2) ok p(2)] have k: "catalog_ok d0"
      "map p_id (products d0) = map p_id (products d)" by simp_all
  from p have "key \<in> set (map p_id (products d0))" unfolding k(2) by auto
  with save_parts_keeps [OF s(3) k(1)] show ?thesis by simp
qed

subsection \<open>The identity of variants\<close>

text \<open>Identifier and product of every variant, in the order of the table.\<close>

definition variant_keys :: "db \<Rightarrow> (string \<times> string) list" where
  "variant_keys d = map (\<lambda>v. (v_id v, v_product v)) (variants d)"

lemma save_variant_keys:
  assumes "save_variant P key item (retained, d) = Inr (retained', d')"
  shows "\<exists>vkey. retained' = retained @ [vkey] \<and>
      variant_keys d' = variant_keys d @ (if vkey \<in> v_id ` set (variants d) then [] else [(vkey, key)])"
  using save_variant_Inr [OF assms] put_variant_keys
  by (fastforce simp: variant_keys_def)

lemma variant_ids_keys: "v_id ` set (variants d) = fst ` set (variant_keys d)"
  by (auto simp: variant_keys_def image_iff)

lemma fold_variants_keys:
  assumes "fold_res (save_variant P key) items ([], d) = Inr (retained, d')"
  shows "\<exists>new. variant_keys d' = variant_keys d @ map (\<lambda>k. (k, key)) new \<and> set new \<subseteq> set retained \<and>
      set retained \<subseteq> v_id ` set (variants d')"
proof -
  have "(\<lambda>(ks, e). (\<exists>new. variant_keys e = variant_keys d @ map (\<lambda>k. (k, key)) new \<and> set new \<subseteq> set ks) \<and>
      set ks \<subseteq> v_id ` set (variants e)) (retained, d')"
  proof (rule fold_res_rel [OF assms])
    show "case ([], d) of (ks, e) \<Rightarrow> (\<exists>new. variant_keys e = variant_keys d @ map (\<lambda>k. (k, key)) new \<and>
        set new \<subseteq> set ks) \<and> set ks \<subseteq> v_id ` set (variants e)" by simp
  next
    fix x a b
    assume step: "save_variant P key x a = Inr b" and I: "case a of (ks, e) \<Rightarrow>
        (\<exists>new. variant_keys e = variant_keys d @ map (\<lambda>k. (k, key)) new \<and> set new \<subseteq> set ks) \<and>
        set ks \<subseteq> v_id ` set (variants e)"
    obtain ks e ks' e' where ab: "a = (ks, e)" "b = (ks', e')" by (cases a, cases b) auto
    from I ab obtain new where new: "variant_keys e = variant_keys d @ map (\<lambda>k. (k, key)) new"
        "set new \<subseteq> set ks" "set ks \<subseteq> v_id ` set (variants e)" by auto
    from save_variant_keys [OF step [unfolded ab]] obtain k where k: "ks' = ks @ [k]"
        "variant_keys e' = variant_keys e @ (if k \<in> v_id ` set (variants e) then [] else [(k, key)])" by blast
    have "variant_keys e' = variant_keys d @ map (\<lambda>k. (k, key)) (new @ (if k \<in> v_id ` set (variants e) then [] else [k]))"
      using k new by simp
    moreover have "set ks' \<subseteq> v_id ` set (variants e')"
      using k new by (auto simp: variant_ids_keys split: if_splits)
    ultimately show "case b of (ks, e) \<Rightarrow> (\<exists>new. variant_keys e = variant_keys d @ map (\<lambda>k. (k, key)) new \<and>
        set new \<subseteq> set ks) \<and> set ks \<subseteq> v_id ` set (variants e)"
      using new(2) k(1) unfolding ab prod.case
      by (intro conjI exI [of _ "new @ (if k \<in> v_id ` set (variants e) then [] else [k])"]) auto
  qed
  then show ?thesis by auto
qed

lemma variant_keys_retire [simp]: "variant_keys (retire_variants key retained d) = variant_keys d"
  by (auto simp: variant_keys_def retire_variants_def)

text \<open>The part of a commit from the variants on, with what it leaves.\<close>

lemma save_parts_variants:
  assumes "save_parts P doc actor corr target previous key d0 = Inr (r, d')"
  shows "\<exists>items retained d2 d3 new. array_elements (field doc ''variants'') = Inr items \<and>
      fold_res (save_variant P key) items ([], d2) = Inr (retained, d3) \<and>
      variants d2 = variants d0 \<and> attribute_values d2 = attribute_values d0 \<and> uuid_counter d2 = uuid_counter d0 \<and>
      products d2 = products d0 \<and> attributes d2 = attributes d0 \<and>
      variants d' = variants (retire_variants key retained d3) \<and> attribute_values d' = attribute_values d3 \<and>
      uuid_counter d' = uuid_counter d3 \<and>
      variant_keys d' = variant_keys d0 @ map (\<lambda>k. (k, key)) new \<and> set new \<subseteq> set retained"
  using assms
proof (rule save_parts_Inr)
  fix d1 d2 items retained d3 d4 row
  assume s: "write_categories P doc key d0 = Inr d1" "write_texts P doc key d1 = Inr d2"
    "array_elements (field doc ''variants'') = Inr items"
    "fold_res (save_variant P key) items ([], d2) = Inr (retained, d3)"
    "write_images P doc key (retire_variants key retained d3) = Inr d4" "insert_audit row d4 = Inr d'"
  from s(1,2) have d2: "variants d2 = variants d0" "attribute_values d2 = attribute_values d0"
      "uuid_counter d2 = uuid_counter d0" "products d2 = products d0" "attributes d2 = attributes d0"
    by (auto dest!: write_categories_Inr write_texts_Inr)
  from s(5,6) have d': "variants d' = variants (retire_variants key retained d3)"
      "attribute_values d' = attribute_values d3" "uuid_counter d' = uuid_counter d3"
    by (auto dest!: write_images_Inr simp: insert_audit_Inr retire_variants_def)
  from fold_variants_keys [OF s(4)] obtain new where new:
      "variant_keys d3 = variant_keys d2 @ map (\<lambda>k. (k, key)) new" "set new \<subseteq> set retained" by blast
  have "variant_keys d' = variant_keys d3"
    using d'(1) variant_keys_retire [of key retained d3] by (simp add: variant_keys_def)
  moreover have "variant_keys d2 = variant_keys d0" using d2(1) by (simp add: variant_keys_def)
  ultimately show ?thesis using s(3,4) d2 d' new
    by (intro exI [of _ items] exI [of _ retained] exI [of _ d2] exI [of _ d3] exI [of _ new]) simp
qed

lemma committed_parts:
  assumes "committed P doc actor corr target expected d r d'"
  shows "\<exists>previous d0. save_parts P doc actor corr target previous (product_key P target d) d0 = Inr (r, d') \<and>
      d0 = d\<lparr>uuid_counter := uuid_counter d0, products := products d0\<rparr> \<and>
      uuid_counter d0 = uuid_counter d + (case target of None \<Rightarrow> 1 | Some _ \<Rightarrow> 0) \<and>
      previous = (case target of None \<Rightarrow> None | Some k \<Rightarrow> catalog_document P d k)"
proof (cases target)
  case None
  with assms obtain d0 where s: "insert_product P doc (product_key P target d) (d\<lparr>uuid_counter := Suc (uuid_counter d)\<rparr>) = Inr d0"
      "save_parts P doc actor corr None None (product_key P target d) d0 = Inr (r, d')"
    by (auto simp: committed_def)
  from insert_product_row [OF s(1)] obtain ps where "d0 = d\<lparr>uuid_counter := Suc (uuid_counter d), products := ps\<rparr>" by auto
  with s(2) show ?thesis by (intro exI [of _ "None :: json option"] exI [of _ d0]) (simp add: None)
next
  case (Some key)
  with assms obtain p d0 where s: "update_product P doc p d = Inr d0"
      "save_parts P doc actor corr (Some key) (catalog_document P d key) key d0 = Inr (r, d')"
    by (auto simp: committed_def)
  from update_product_row [OF s(1)] obtain ps where "d0 = d\<lparr>products := ps\<rparr>" by blast
  with s(2) show ?thesis by (intro exI [of _ "catalog_document P d key"] exI [of _ d0]) (simp add: Some product_key_def)
qed

end
