(* ===== verification/Sample_Catalog.thy ===== *)
theory Sample_Catalog
  imports Catalog_Save
begin

text \<open>
  A small catalog to evaluate examples on: one administrator, one category and one attribute;
  the database after \<open>catalog_save\<close> has created a product in it, and after it has then
  changed the price of its variant.
\<close>

definition sample_admin :: string where
  "sample_admin = ''00000000-0000-4000-8000-0000000000a1''"

definition sample_db :: db where
  "sample_db = empty_db\<lparr>clock := 1000,
     users := [\<lparr>u_id = sample_admin, u_email = ''admin@bee.md'', u_password_hash = ''h'', u_active = True\<rparr>],
     categories := [\<lparr>c_id = sample_category, c_parent = None, c_slug = ''kitchen''\<rparr>],
     attributes := [\<lparr>d_code = ''color'', d_name_ru = ''Cvet'', d_name_ro = ''Culoare'', d_unit = []\<rparr>]\<rparr>"

definition sample_product :: string where
  "sample_product = ''00000000-0000-4000-8000-000000000000''"

definition sample_variant_id :: string where
  "sample_variant_id = ''00000000-0000-4000-8000-000000000001''"

definition sample_update :: json where
  "sample_update = sample_draft_of [sample_variant [(''id'', JStr sample_variant_id)] ''K-1'' 17500]"

definition sample_rows :: "int \<Rightarrow> int \<Rightarrow> audit_row list \<Rightarrow> db" where
  "sample_rows revision price log = sample_db\<lparr>uuid_counter := Suc (Suc 0),
     products := [\<lparr>p_id = sample_product, p_slug = ''kettle'', p_brand = None, p_status = ''active'',
       p_revision = revision, p_created = 1000, p_updated = 1000\<rparr>],
     product_categories := [(sample_product, sample_category)],
     product_texts := [\<lparr>t_product = sample_product, t_locale = ''ru'', t_name = ''Chainik'', t_description = ''1.7 l'',
         t_seo_title = [], t_seo_description = []\<rparr>,
       \<lparr>t_product = sample_product, t_locale = ''ro'', t_name = ''Ceainic'', t_description = ''1.7 l'',
         t_seo_title = [], t_seo_description = []\<rparr>],
     variants := [\<lparr>v_id = sample_variant_id, v_product = sample_product, v_sku = ''K-1'', v_name = ''Steel'',
       v_price = price, v_active = True\<rparr>],
     attribute_values := [\<lparr>a_variant = sample_variant_id, a_code = ''color'', a_value = ''steel''\<rparr>],
     audit := log\<rparr>"

definition sample_created :: audit_row where
  "sample_created = \<lparr>l_actor = sample_admin, l_action = ''product.created'', l_entity = sample_product,
     l_request = ''r1'', l_changes = JObj [(''oldRevision'', JNull), (''newRevision'', JInt 1),
       (''status'', JStr ''active'')], l_created = 1000\<rparr>"

definition sample_updated :: audit_row where
  "sample_updated = \<lparr>l_actor = sample_admin, l_action = ''product.updated'', l_entity = sample_product,
     l_request = ''r2'', l_changes = JObj [(''oldRevision'', JInt 1), (''newRevision'', JInt 2),
       (''status'', JStr ''active'')], l_created = 1000\<rparr>"

definition sample_db1 :: db where
  "sample_db1 = sample_rows 1 19900 [sample_created]"

definition sample_db2 :: db where
  "sample_db2 = sample_rows 2 17500 [sample_created, sample_updated]"

lemmas save_eval =
  catalog_save_def save_block_def insert_product_def update_product_def product_constraints_def
  write_categories_def insert_category_def write_texts_def insert_text_def save_variant_def
  upsert_variant_def write_values_def insert_value_def retire_variants_def write_images_def
  insert_image_def insert_audit_def array_elements_def object_members_def cast_def cast_bigint_def not_null_def
  save_parts_def field_text_def find_product_def known_status_def char_count_def
  leading_def byte_def json_or_null_def

lemma sample_lower: "lower sample_category = sample_category" "lower sample_variant_id = sample_variant_id"
    "lower sample_admin = sample_admin"
  by code_simp+

lemma sample_uuids: "uuid sample_variant_id" "uuid sample_admin" "uuid sample_product"
  by code_simp+

lemma sample_random: "sample_uuid 0 = sample_product" "sample_uuid (Suc 0) = sample_variant_id"
  by code_simp+

lemma sample_functions:
  "random_uuid sample_postgres = sample_uuid" "boolean_in sample_postgres ''true'' = Some True"
  "uuid_in sample_postgres sample_category = Some sample_category"
  "uuid_in sample_postgres sample_variant_id = Some sample_variant_id"
  "uuid_in sample_postgres sample_admin = Some sample_admin"
  by (simp_all add: sample_postgres_def sample_keys sample_lower sample_uuids)

lemma sample_prices: "bigint_in sample_postgres (decimal_text 19900) = Inr 19900"
    "bigint_in sample_postgres (decimal_text 17500) = Inr 17500"
  using sample_postgres_ok by (simp_all add: postgres_ok_def del: decimal_text.simps)

lemma sample_create:
  "catalog_save sample_postgres sample_draft sample_admin ''r1'' None 0 sample_db =
     Inr (json_or_null (catalog_document sample_postgres sample_db1 sample_product), sample_db1)"
  by (simp add: save_eval sample_db1_def sample_rows_def sample_created_def sample_db_def empty_db_def sample_draft_def
      sample_draft_of_def sample_texts_def sample_variant_def sample_keys sample_functions
      sample_random sample_prices throw_if_def Let_def del: decimal_text.simps cong: bind_res_weak)

lemma sample_update_1:
  "catalog_save sample_postgres sample_update sample_admin ''r2'' (Some sample_product) 1 sample_db1 =
     Inr (json_or_null (catalog_document sample_postgres sample_db2 sample_product), sample_db2)"
  by (simp add: save_eval sample_db1_def sample_db2_def sample_rows_def sample_created_def sample_updated_def
      sample_db_def empty_db_def sample_update_def catalog_document_def
      sample_draft_of_def sample_texts_def sample_variant_def sample_keys sample_functions
      sample_random sample_prices throw_if_def Let_def del: decimal_text.simps cong: bind_res_weak)

text \<open>A second update from the same revision is refused.\<close>

lemma sample_update_2:
  "catalog_save sample_postgres doc actor request (Some sample_product) 1 sample_db2 =
     Inr (failure ''REVISION_CONFLICT'', sample_db2)"
  by (simp add: catalog_save_def save_block_def find_product_def sample_db2_def sample_rows_def)

end
