(* ===== verification/Catalog_History.thy ===== *)
theory Catalog_History
  imports Sample_Catalog
begin

text \<open>
  What a save leaves alone, what it records, and what a sequence of saves by several editors
  guarantees.
\<close>

subsection \<open>Other products\<close>

text \<open>\<open>gen_random_uuid()\<close> does not return an identifier that a product or variant has.\<close>

definition fresh_uuids :: "postgres \<Rightarrow> db \<Rightarrow> bool" where
  "fresh_uuids P d \<longleftrightarrow> (\<forall>n \<ge> uuid_counter d.
     random_uuid P n \<notin> v_id ` set (variants d) \<and> random_uuid P n \<notin> p_id ` set (products d))"

definition other_variants :: "string \<Rightarrow> db \<Rightarrow> variant_row list" where
  "other_variants key d = filter (\<lambda>v. v_product v \<noteq> key) (variants d)"

definition other_values :: "string \<Rightarrow> db \<Rightarrow> db \<Rightarrow> value_row list" where
  "other_values key d0 d = filter (\<lambda>a. a_variant a \<in> v_id ` set (other_variants key d0)) (attribute_values d)"

text \<open>The identifier that one turn of the loop writes to is not one of another product.\<close>

lemma variant_key_not_other:
  assumes k: "variant_key P item d (k, d1)"
    and own: "has_key item ''id'' \<longrightarrow> (\<exists>v \<in> set (variants d). v_id v = k \<and> v_product v = key)"
    and ids: "distinct (map v_id (variants d))"
    and fresh: "\<forall>n \<ge> uuid_counter d. random_uuid P n \<notin> v_id ` set (other_variants key d)"
  shows "k \<notin> v_id ` set (other_variants key d)"
proof (cases "has_key item ''id''")
  case True
  with own obtain v where v: "v \<in> set (variants d)" "v_id v = k" "v_product v = key" by blast
  then show ?thesis using ids by (auto simp: other_variants_def distinct_map inj_on_def)
next
  case False
  then have "field_text P item ''id'' = None" by (simp add: no_key_no_field field_text_def)
  with k fresh show ?thesis by (auto simp: variant_key_def)
qed

lemma put_variant_others:
  assumes "v_product w = key" "v_id w \<notin> v_id ` set (filter (\<lambda>v. v_product v \<noteq> key) vs)"
  shows "filter (\<lambda>v. v_product v \<noteq> key) (put_variant w vs) = filter (\<lambda>v. v_product v \<noteq> key) vs"
proof (cases "v_id w \<in> v_id ` set vs")
  case True
  have "filter (\<lambda>v. v_product v \<noteq> key) (map (\<lambda>v. if v_id v = v_id w then w\<lparr>v_product := v_product v\<rparr> else v) vs) =
      filter (\<lambda>v. v_product v \<noteq> key) vs"
    using assms(2) by (induction vs) auto
  with True show ?thesis by (simp add: put_variant_def)
next
  case False
  with assms(1) show ?thesis by (simp add: put_variant_def)
qed

lemma save_variant_others:
  assumes "save_variant P key item (retained, d) = Inr (retained', d')"
    and ids: "distinct (map v_id (variants d))"
    and same: "other_variants key d = other_variants key d0"
    and fresh: "\<forall>n \<ge> uuid_counter d. random_uuid P n \<notin> v_id ` set (other_variants key d)"
  shows "other_variants key d' = other_variants key d \<and> other_values key d0 d' = other_values key d0 d \<and>
    uuid_counter d \<le> uuid_counter d' \<and> distinct (map v_id (variants d'))"
proof -
  from save_variant_Inr [OF assms(1)] obtain w ms as d1 where s:
      "variant_key P item d (v_id w, d1)" "v_product w = key"
      "has_key item ''id'' \<longrightarrow> (\<exists>v \<in> set (variants d). v_id v = v_id w \<and> v_product v = key)"
      "list_all2 (value_of P (v_id w)) ms as"
      "d' = d1\<lparr>variants := put_variant w (variants d),
              attribute_values := filter (\<lambda>a. a_variant a \<noteq> v_id w) (attribute_values d) @ as\<rparr>" by blast
  from variant_key_not_other [OF s(1,3) ids fresh] have new: "v_id w \<notin> v_id ` set (other_variants key d)" .
  have "\<forall>a \<in> set as. a_variant a = v_id w"
    using s(4) by (auto simp: list_all2_conv_all_nth in_set_conv_nth value_of_def)
  then have "other_values key d0 d' = other_values key d0 d"
    using new unfolding same other_values_def s(5)
    by (auto simp: filter_empty_conv intro!: filter_cong)
  moreover have "other_variants key d' = other_variants key d"
    using put_variant_others [OF s(2)] new by (simp add: other_variants_def s(5))
  moreover have "uuid_counter d \<le> uuid_counter d'"
    using save_variant_frame [OF assms(1)] by (rule loop_frame_tables)
  ultimately show ?thesis using ids by (simp add: s(5) put_variant_distinct)
qed

lemma fold_variants_others:
  assumes "fold_res (save_variant P key) items ([], d0) = Inr (retained, d')"
    and "distinct (map v_id (variants d0))"
    and "\<forall>n \<ge> uuid_counter d0. random_uuid P n \<notin> v_id ` set (other_variants key d0)"
  shows "other_variants key d' = other_variants key d0 \<and> other_values key d0 d' = other_values key d0 d0"
proof -
  let ?R = "\<lambda>(ks :: string list, d). other_variants key d = other_variants key d0 \<and>
      other_values key d0 d = other_values key d0 d0 \<and> uuid_counter d0 \<le> uuid_counter d \<and> distinct (map v_id (variants d))"
  have "?R (retained, d')"
  proof (rule fold_res_rel [OF assms(1)])
    fix x a b assume R: "?R a" and step: "save_variant P key x a = Inr b"
    obtain ks e ks' e' where ab: "a = (ks, e)" "b = (ks', e')" by (cases a, cases b) auto
    from R ab have e: "distinct (map v_id (variants e))" "other_variants key e = other_variants key d0"
        "uuid_counter d0 \<le> uuid_counter e" by simp_all
    have fresh: "\<forall>n \<ge> uuid_counter e. random_uuid P n \<notin> v_id ` set (other_variants key e)"
      unfolding e(2) using assms(3) order_trans [OF e(3)] by blast
    from save_variant_others [OF step [unfolded ab] e(1,2) fresh] R ab show "?R b" by auto
  qed (use assms(2) in simp)
  then show ?thesis by simp
qed

lemma retire_others: "other_variants key (retire_variants key retained d) = other_variants key d"
proof -
  have "filter (\<lambda>v. v_product v \<noteq> key)
      (map (\<lambda>v. if v_product v = key \<and> v_id v \<notin> set retained then v\<lparr>v_active := False\<rparr> else v) vs) =
      filter (\<lambda>v. v_product v \<noteq> key) vs" for vs
    by (induction vs) auto
  then show ?thesis by (simp add: other_variants_def retire_variants_def)
qed

lemma sort_key_filter_other:
  "other_variants key d' = other_variants key d \<Longrightarrow> k \<noteq> key \<Longrightarrow>
     filter (\<lambda>v. v_product v = k) (variants d') = filter (\<lambda>v. v_product v = k) (variants d)"
proof -
  assume "other_variants key d' = other_variants key d" "k \<noteq> key"
  moreover from this(2) have "filter (\<lambda>v. v_product v = k) vs =
      filter (\<lambda>v. v_product v = k) (filter (\<lambda>v. v_product v \<noteq> key) vs)" for vs
    by (auto intro!: filter_cong)
  ultimately show ?thesis unfolding other_variants_def by metis
qed

lemma other_values_variant:
  assumes "other_values key d d' = other_values key d d" "i \<in> v_id ` set (other_variants key d)"
  shows "filter (\<lambda>a. a_variant a = i) (attribute_values d') = filter (\<lambda>a. a_variant a = i) (attribute_values d)"
proof -
  have "filter (\<lambda>a. a_variant a = i) as =
      filter (\<lambda>a. a_variant a = i) (filter (\<lambda>a. a_variant a \<in> v_id ` set (other_variants key d)) as)" for as
    using assms(2) by (auto intro!: filter_cong)
  then show ?thesis using assms(1) unfolding other_values_def by metis
qed

text \<open>All tables, for the products other than one.\<close>

definition same_for :: "string \<Rightarrow> db \<Rightarrow> db \<Rightarrow> bool" where
  "same_for k d d' \<longleftrightarrow> find_product d' k = find_product d k \<and>
     filter (\<lambda>(q, _). q = k) (product_categories d') = filter (\<lambda>(q, _). q = k) (product_categories d) \<and>
     filter (\<lambda>t. t_product t = k) (product_texts d') = filter (\<lambda>t. t_product t = k) (product_texts d) \<and>
     filter (\<lambda>i. i_product i = k) (images d') = filter (\<lambda>i. i_product i = k) (images d) \<and>
     filter (\<lambda>v. v_product v = k) (variants d') = filter (\<lambda>v. v_product v = k) (variants d) \<and>
     (\<forall>v \<in> set (variants d). v_product v = k \<longrightarrow>
        filter (\<lambda>a. a_variant a = v_id v) (attribute_values d') = filter (\<lambda>a. a_variant a = v_id v) (attribute_values d))"

lemma same_for_document:
  assumes "same_for k d d'"
  shows "catalog_document P d' k = catalog_document P d k"
proof -
  have "map (variant_json d') (sort_key f (filter (\<lambda>v. v_product v = k) (variants d))) =
      map (variant_json d) (sort_key f (filter (\<lambda>v. v_product v = k) (variants d)))" for f :: "variant_row \<Rightarrow> string"
    using assms by (auto simp: variant_json_def same_for_def)
  with assms show ?thesis
    by (simp add: catalog_document_def same_for_def split: option.splits)
qed

lemma filter_replace:
  "k \<noteq> key \<Longrightarrow> \<forall>x \<in> set new. f x = key \<Longrightarrow>
     filter (\<lambda>x. f x = k) (filter (\<lambda>x. f x \<noteq> key) xs @ new) = filter (\<lambda>x. f x = k) xs"
  by (auto simp: filter_empty_conv intro!: filter_cong)

lemma save_parts_other_tables:
  assumes "save_parts P doc actor corr target previous key d0 = Inr (r, d')" and k: "k \<noteq> key"
  shows "filter (\<lambda>(q, _). q = k) (product_categories d') = filter (\<lambda>(q, _). q = k) (product_categories d0)"
    "filter (\<lambda>t. t_product t = k) (product_texts d') = filter (\<lambda>t. t_product t = k) (product_texts d0)"
    "filter (\<lambda>i. i_product i = k) (images d') = filter (\<lambda>i. i_product i = k) (images d0)"
proof -
  from assms(1) obtain d1 d2 items retained d3 d4 row where s:
    "write_categories P doc key d0 = Inr d1" "write_texts P doc key d1 = Inr d2"
    "fold_res (save_variant P key) items ([], d2) = Inr (retained, d3)"
    "write_images P doc key (retire_variants key retained d3) = Inr d4" "insert_audit row d4 = Inr d'"
    by (rule save_parts_Inr)
  note loop = loop_frame_tables [OF fold_variants_frame [OF s(3)]]
  have pair: "filter (\<lambda>(q, _). q = k) (filter (\<lambda>(q, _). q \<noteq> key) xs @ map (Pair key) cs) =
      filter (\<lambda>(q, _). q = k) xs" for xs :: "(string \<times> string) list" and cs
    using filter_replace [of k key "map (Pair key) cs" fst xs] k by (simp add: case_prod_unfold)
  from write_categories_Inr [OF s(1)] obtain cs where cs:
      "d1 = d0\<lparr>product_categories := filter (\<lambda>(q, _). q \<noteq> key) (product_categories d0) @ map (Pair key) cs\<rparr>" by blast
  from write_texts_Inr [OF s(2)] obtain ms ts where ts: "list_all2 (text_row P key) ms ts"
      "d2 = d1\<lparr>product_texts := filter (\<lambda>t. t_product t \<noteq> key) (product_texts d1) @ ts\<rparr>" by blast
  from write_images_Inr [OF s(4)] obtain xs "is" where is': 
      "list_all2 (image_row_of P key) (zip xs (map int [0..<length xs])) is"
      "d4 = (retire_variants key retained d3)\<lparr>images := filter (\<lambda>i. i_product i \<noteq> key) (images (retire_variants key retained d3)) @ is\<rparr>" by blast
  have t: "\<forall>t \<in> set ts. t_product t = key" and i: "\<forall>i \<in> set is. i_product i = key"
    using ts(1) is'(1) by (auto simp: list_all2_conv_all_nth in_set_conv_nth text_row_def image_row_of_def)
  have d': "product_categories d' = product_categories d1" "product_texts d' = product_texts d2" "images d' = images d4"
    using s(5) is'(2) ts(2) loop by (auto simp: insert_audit_Inr retire_variants_def)
  show "filter (\<lambda>(q, _). q = k) (product_categories d') = filter (\<lambda>(q, _). q = k) (product_categories d0)"
    unfolding d' cs by (simp add: pair del: filter_append)
  show "filter (\<lambda>t. t_product t = k) (product_texts d') = filter (\<lambda>t. t_product t = k) (product_texts d0)"
    unfolding d' ts(2) cs by (simp add: filter_replace [OF k t] del: filter_append filter_filter)
  show "filter (\<lambda>i. i_product i = k) (images d') = filter (\<lambda>i. i_product i = k) (images d0)"
    unfolding d' is'(2) using loop(7) ts(2) cs
    by (simp add: filter_replace [OF k i] retire_variants_def del: filter_append filter_filter)
qed

lemma other_variantsI: "v \<in> set (variants d) \<Longrightarrow> v_product v = k \<Longrightarrow> k \<noteq> key \<Longrightarrow> v_id v \<in> v_id ` set (other_variants key d)"
  by (simp add: other_variants_def)

lemma committed_same_for:
  assumes c: "committed P doc actor corr target expected d r d'" and ok: "catalog_ok d" and fresh: "fresh_uuids P d"
    and k: "k \<noteq> product_key P target d"
  shows "same_for k d d'"
proof -
  let ?key = "product_key P target d"
  from committed_parts [OF c] obtain previous d0 where s:
      "save_parts P doc actor corr target previous ?key d0 = Inr (r, d')"
      "d0 = d\<lparr>uuid_counter := uuid_counter d0, products := products d0\<rparr>" "uuid_counter d \<le> uuid_counter d0"
    by (auto split: option.splits)
  have d0: "variants d0 = variants d" "attribute_values d0 = attribute_values d" "images d0 = images d"
      "product_categories d0 = product_categories d" "product_texts d0 = product_texts d"
    by (subst s(2), simp)+
  from save_parts_variants [OF s(1)] obtain items retained d2 d3 where v:
      "fold_res (save_variant P ?key) items ([], d2) = Inr (retained, d3)"
      "variants d2 = variants d0" "attribute_values d2 = attribute_values d0" "uuid_counter d2 = uuid_counter d0"
      "variants d' = variants (retire_variants ?key retained d3)" "attribute_values d' = attribute_values d3" by blast
  have same2: "other_variants ?key d2 = other_variants ?key d" "other_values ?key d2 = other_values ?key d"
      "other_values ?key d d2 = other_values ?key d d"
    using v(2,3) d0 by (simp_all add: other_variants_def other_values_def fun_eq_iff)
  have "other_variants ?key d3 = other_variants ?key d2 \<and> other_values ?key d2 d3 = other_values ?key d2 d2"
  proof (rule fold_variants_others [OF v(1)])
    show "distinct (map v_id (variants d2))" using ok v(2) d0 by (simp add: catalog_ok_def variants_ok_def)
    show "\<forall>n \<ge> uuid_counter d2. random_uuid P n \<notin> v_id ` set (other_variants ?key d2)"
      using fresh order_trans [OF s(3)] unfolding fresh_uuids_def other_variants_def v(2,4) d0
      by (metis (no_types, lifting) filter_is_subset image_mono subsetD)
  qed
  then have others: "other_variants ?key d' = other_variants ?key d" "other_values ?key d d' = other_values ?key d d"
    using retire_others [of ?key retained d3] v(5,6) same2 by (simp_all add: other_variants_def other_values_def)
  show ?thesis
    unfolding same_for_def
    using committed_product [OF c] k save_parts_other_tables [OF s(1) k] d0 sort_key_filter_other [OF others(1) k]
      other_values_variant [OF others(2)] other_variantsI [of _ d k ?key]
    by auto
qed

subsection \<open>The audit record\<close>

lemma save_parts_audit:
  assumes "save_parts P doc actor corr target previous key d0 = Inr (r, d')"
  shows "l_actor (last (audit d')) \<in> u_id ` set (users d') \<and> audit d' = audit d0 @
      [\<lparr>l_actor = actor, l_action = (if target = None then ''product.created'' else ''product.updated''),
        l_entity = key, l_request = corr, l_changes = JObj
         [(''oldRevision'', case previous of None \<Rightarrow> JNull | Some v \<Rightarrow> json_or_null (field v ''revision'')),
          (''newRevision'', case find_product d' key of None \<Rightarrow> JNull | Some p \<Rightarrow> JInt (p_revision p)),
          (''status'', json_or_null (field doc ''status''))], l_created = clock d0\<rparr>]"
proof -
  from assms obtain d1 d2 items retained d3 d4 row where s:
    "write_categories P doc key d0 = Inr d1" "write_texts P doc key d1 = Inr d2"
    "fold_res (save_variant P key) items ([], d2) = Inr (retained, d3)"
    "write_images P doc key (retire_variants key retained d3) = Inr d4" "insert_audit row d4 = Inr d'"
    "row = \<lparr>l_actor = actor, l_action = (if target = None then ''product.created'' else ''product.updated''),
       l_entity = key, l_request = corr, l_changes = JObj
         [(''oldRevision'', case previous of None \<Rightarrow> JNull | Some v \<Rightarrow> json_or_null (field v ''revision'')),
          (''newRevision'', case find_product d4 key of None \<Rightarrow> JNull | Some p \<Rightarrow> JInt (p_revision p)),
          (''status'', json_or_null (field doc ''status''))], l_created = clock d4\<rparr>"
    by (rule save_parts_Inr)
  note loop = loop_frame_tables [OF fold_variants_frame [OF s(3)]]
  have "audit d4 = audit d0" "clock d4 = clock d0"
    using s(1,2,4) loop by (auto dest!: write_categories_Inr write_texts_Inr write_images_Inr simp: retire_variants_def)
  with s(5,6) show ?thesis by (auto simp: insert_audit_Inr find_product_def)
qed

lemma document_revision: "find_product d k = Some p \<Longrightarrow>
    \<exists>v. catalog_document P d k = Some v \<and> field v ''revision'' = Some (JInt (p_revision p))"
  by (simp add: catalog_document_def)

lemma committed_audit:
  assumes c: "committed P doc actor corr target expected d r d'"
  shows "audit d' = audit d @
      [\<lparr>l_actor = actor, l_action = (if target = None then ''product.created'' else ''product.updated''),
        l_entity = product_key P target d, l_request = corr, l_changes = JObj
         [(''oldRevision'', case target of None \<Rightarrow> JNull | Some _ \<Rightarrow> JInt expected),
          (''newRevision'', JInt (case target of None \<Rightarrow> 1 | Some _ \<Rightarrow> expected + 1)),
          (''status'', json_or_null (field doc ''status''))], l_created = clock d\<rparr>]"
proof -
  from committed_parts [OF c] obtain previous d0 where s:
      "save_parts P doc actor corr target previous (product_key P target d) d0 = Inr (r, d')"
      "d0 = d\<lparr>uuid_counter := uuid_counter d0, products := products d0\<rparr>"
      "previous = (case target of None \<Rightarrow> None | Some k \<Rightarrow> catalog_document P d k)" by blast
  have d0: "audit d0 = audit d" "clock d0 = clock d" by (subst s(2), simp)+
  obtain p' where p': "find_product d' (product_key P target d) = Some p'"
      "p_revision p' = (case target of None \<Rightarrow> 1 | Some _ \<Rightarrow> expected + 1)"
    using committed_product [OF c] by blast
  have "(case previous of None \<Rightarrow> JNull | Some v \<Rightarrow> json_or_null (field v ''revision'')) =
      (case target of None \<Rightarrow> JNull | Some _ \<Rightarrow> JInt expected)"
  proof (cases target)
    case (Some k)
    with c obtain p where p: "find_product d k = Some p" "p_revision p = expected" by (auto simp: committed_def)
    with Some s(3) document_revision [OF p(1), of P] show ?thesis by (auto simp: json_or_null_def)
  qed (simp add: s(3))
  with save_parts_audit [OF s(1)] p' d0 show ?thesis by simp
qed

subsection \<open>Variants are kept\<close>

text \<open>
  The identifier an element of \<open>variants\<close> names, and the one its row is written under: that, or a
  generated one.
\<close>

definition given_key :: "postgres \<Rightarrow> json \<Rightarrow> string option" where
  "given_key P item = (case field_text P item ''id'' of None \<Rightarrow> None | Some s \<Rightarrow> uuid_in P s)"

definition written_under :: "postgres \<Rightarrow> nat \<Rightarrow> json \<Rightarrow> string \<Rightarrow> bool" where
  "written_under P n item k \<longleftrightarrow> (case given_key P item of Some k' \<Rightarrow> k = k' | None \<Rightarrow> (\<exists>m \<ge> n. k = random_uuid P m))"

text \<open>The last element that was written under an identifier.\<close>

definition last_item :: "string list \<Rightarrow> json list \<Rightarrow> string \<Rightarrow> json option" where
  "last_item ks items k = map_of (rev (zip ks items)) k"

lemma last_item_snoc:
  "length ks = length items \<Longrightarrow> last_item (ks @ [k]) (items @ [x]) k' = (if k' = k then Some x else last_item ks items k')"
  by (simp add: last_item_def)

text \<open>
  After some turns of the loop: the rows of the identifiers written so far hold what their last
  element says, and the others are untouched.
\<close>

definition loop_state :: "postgres \<Rightarrow> db \<Rightarrow> json list \<Rightarrow> string list \<Rightarrow> db \<Rightarrow> bool" where
  "loop_state P d0 items ks d \<longleftrightarrow> list_all2 (written_under P (uuid_counter d0)) items ks \<and> uuid_counter d0 \<le> uuid_counter d \<and>
     (\<forall>v. v_id v \<notin> set ks \<longrightarrow> (v \<in> set (variants d) \<longleftrightarrow> v \<in> set (variants d0))) \<and>
     (\<forall>v \<in> set (variants d). v_id v \<in> set ks \<longrightarrow> (\<exists>item. last_item ks items (v_id v) = Some item \<and> item_columns P item v))"

lemma put_variant_mem_iff: "v_id v \<noteq> v_id w \<Longrightarrow> v \<in> set (put_variant w vs) \<longleftrightarrow> v \<in> set vs"
  by (auto simp: put_variant_def)

lemma put_variant_own: "v \<in> set (put_variant w vs) \<Longrightarrow> v_id v = v_id w \<Longrightarrow> item_columns P item w \<Longrightarrow> item_columns P item v"
proof (cases "v_id w \<in> v_id ` set vs")
  case True
  assume "v \<in> set (put_variant w vs)" "v_id v = v_id w" "item_columns P item w"
  with True show ?thesis by (auto simp: put_variant_def item_columns_def)
next
  case False
  assume "v \<in> set (put_variant w vs)" "v_id v = v_id w" "item_columns P item w"
  with False have "v = w" by (auto simp: put_variant_def image_iff)
  with \<open>item_columns P item w\<close> show ?thesis by simp
qed

lemma loop_state_step:
  assumes state: "loop_state P d0 items ks d" and step: "save_variant P key x (ks, d) = Inr (ks', d')"
  shows "loop_state P d0 (items @ [x]) ks' d'"
proof -
  from save_variant_Inr [OF step] obtain w ms as d1 where s:
      "variant_key P x d (v_id w, d1)" "ks' = ks @ [v_id w]" "item_columns P x w"
      "d' = d1\<lparr>variants := put_variant w (variants d),
              attribute_values := filter (\<lambda>a. a_variant a \<noteq> v_id w) (attribute_values d) @ as\<rparr>" by blast
  from state have "uuid_counter d0 \<le> uuid_counter d" and keys: "list_all2 (written_under P (uuid_counter d0)) items ks"
    by (simp_all add: loop_state_def)
  with s(1) have key: "written_under P (uuid_counter d0) x (v_id w)" and count: "uuid_counter d0 \<le> uuid_counter d'"
    by (auto simp: written_under_def given_key_def variant_key_def s(4))
  have len: "length ks = length items" using keys by (simp add: list_all2_lengthD)
  have vs: "variants d' = put_variant w (variants d)" by (simp add: s(4))
  have "\<exists>item. last_item ks' (items @ [x]) (v_id v) = Some item \<and> item_columns P item v"
    if "v \<in> set (variants d')" "v_id v \<in> set ks'" for v
  proof (cases "v_id v = v_id w")
    case True
    with that(1) s(3) show ?thesis by (auto simp: s(2) last_item_snoc [OF len] vs intro: put_variant_own)
  next
    case False
    with that state show ?thesis
      by (auto simp: s(2) last_item_snoc [OF len] vs put_variant_mem_iff loop_state_def)
  qed
  moreover have "v \<in> set (variants d') \<longleftrightarrow> v \<in> set (variants d0)" if "v_id v \<notin> set ks'" for v
    using that state by (simp add: s(2) vs put_variant_mem_iff loop_state_def)
  ultimately show ?thesis using keys key count by (simp add: loop_state_def s(2) list_all2_appendI)
qed

lemma loop_state_fold:
  "fold_res (save_variant P key) xs (ks, d) = Inr (ks', d') \<Longrightarrow> loop_state P d0 items ks d \<Longrightarrow>
     loop_state P d0 (items @ xs) ks' d'"
proof (induction xs arbitrary: items ks d)
  case (Cons x xs)
  then obtain ks1 d1 where step: "save_variant P key x (ks, d) = Inr (ks1, d1)" "fold_res (save_variant P key) xs (ks1, d1) = Inr (ks', d')"
    by (auto simp: bind_res_eq_Inr)
  from Cons.IH [OF step(2) loop_state_step [OF Cons.prems(2) step(1)]] show ?case by simp
qed simp

lemma committed_variants:
  assumes c: "committed P doc actor corr target expected d r d'"
  shows "\<exists>items retained new. array_elements (field doc ''variants'') = Inr items \<and>
      list_all2 (written_under P (uuid_counter d)) items retained \<and>
      variant_keys d' = variant_keys d @ map (\<lambda>k. (k, product_key P target d)) new \<and> set new \<subseteq> set retained \<and>
      (\<forall>v \<in> set (variants d'). v_id v \<in> set retained \<longrightarrow>
        (\<exists>item. last_item retained items (v_id v) = Some item \<and> item_columns P item v)) \<and>
      (\<forall>v \<in> set (variants d). v_id v \<notin> set retained \<longrightarrow>
        (if v_product v = product_key P target d then v\<lparr>v_active := False\<rparr> else v) \<in> set (variants d'))"
proof -
  let ?key = "product_key P target d"
  from committed_parts [OF c] obtain previous d0 where s:
      "save_parts P doc actor corr target previous ?key d0 = Inr (r, d')"
      "d0 = d\<lparr>uuid_counter := uuid_counter d0, products := products d0\<rparr>" "uuid_counter d \<le> uuid_counter d0"
    by (auto split: option.splits)
  have d0: "variants d0 = variants d" "variant_keys d0 = variant_keys d" by (subst s(2), simp add: variant_keys_def)+
  from save_parts_variants [OF s(1)] obtain items retained d2 d3 new where v:
      "array_elements (field doc ''variants'') = Inr items" "fold_res (save_variant P ?key) items ([], d2) = Inr (retained, d3)"
      "variants d2 = variants d0" "uuid_counter d2 = uuid_counter d0"
      "variants d' = variants (retire_variants ?key retained d3)"
      "variant_keys d' = variant_keys d0 @ map (\<lambda>k. (k, ?key)) new" "set new \<subseteq> set retained" by blast
  have "loop_state P d2 [] [] d2" by (simp add: loop_state_def)
  from loop_state_fold [OF v(2) this] have loop: "loop_state P d2 items retained d3" by simp
  have "written_under P (uuid_counter d2) x k \<Longrightarrow> written_under P (uuid_counter d) x k" for x k
    using s(3) v(4) by (auto simp: written_under_def split: option.splits intro: order_trans)
  with loop have "list_all2 (written_under P (uuid_counter d)) items retained"
    unfolding loop_state_def by (metis list_all2_mono)
  moreover have "\<forall>v \<in> set (variants d'). v_id v \<in> set retained \<longrightarrow>
      (\<exists>item. last_item retained items (v_id v) = Some item \<and> item_columns P item v)"
    using loop unfolding v(5) by (auto simp: retire_variants_def loop_state_def)
  moreover have "(if v_product u = ?key then u\<lparr>v_active := False\<rparr> else u) \<in> set (variants d')"
    if "u \<in> set (variants d)" "v_id u \<notin> set retained" for u
    using loop that unfolding v(5) retire_variants_def loop_state_def v(3) d0 by (auto simp: image_iff)
  ultimately show ?thesis using v(1,6,7) d0 by (intro exI [of _ items] exI [of _ retained] exI [of _ new]) simp
qed

subsection \<open>Sequences of saves\<close>

text \<open>
  Editors that update a store with the revision they last saw.  An operation reports whether
  it succeeded; a success needs the current revision and moves it by one, everything else
  leaves the revisions it finds.
\<close>

fun run_all :: "('op \<Rightarrow> 's \<Rightarrow> bool \<times> 's) \<Rightarrow> 'op list \<Rightarrow> 's \<Rightarrow> bool list \<times> 's" where
  "run_all step [] s = ([], s)"
| "run_all step (c # cs) s = (let (b, t) = step c s; (bs, u) = run_all step cs t in (b # bs, u))"

locale revisioned_store =
  fixes step :: "'op \<Rightarrow> 's \<Rightarrow> bool \<times> 's"
    and key_of :: "'op \<Rightarrow> 'k option"
    and base :: "'op \<Rightarrow> int"
    and revision :: "'s \<Rightarrow> 'k \<Rightarrow> int option"
  assumes success: "step c s = (True, t) \<Longrightarrow> key_of c = Some k \<Longrightarrow>
      revision s k = Some (base c) \<and> revision t k = Some (base c + 1)"
    and stable: "step c s = (b, t) \<Longrightarrow> \<not> b \<or> key_of c \<noteq> Some k \<Longrightarrow> revision s k = Some n \<Longrightarrow> revision t k = Some n"
begin

definition winners :: "'k \<Rightarrow> 'op list \<Rightarrow> bool list \<Rightarrow> 'op list" where
  "winners k cs bs = map fst (filter (\<lambda>(c, b). b \<and> key_of c = Some k) (zip cs bs))"

lemma winners_chain:
  "run_all step cs s = (bs, t) \<Longrightarrow> revision s k = Some n \<Longrightarrow>
     map base (winners k cs bs) = map (\<lambda>i. n + int i) [0..<length (winners k cs bs)] \<and>
     revision t k = Some (n + int (length (winners k cs bs)))"
proof (induction cs arbitrary: s bs n)
  case (Cons c cs)
  obtain b s' where step: "step c s = (b, s')" by fastforce
  obtain bs' t' where run: "run_all step cs s' = (bs', t')" by fastforce
  from Cons.prems step run have bs: "bs = b # bs'" "t' = t" by auto
  show ?case
  proof (cases "b \<and> key_of c = Some k")
    case True
    with step success [of c s s' k] Cons.prems(2) have n: "n = base c" "revision s' k = Some (n + 1)" by auto
    from Cons.IH [OF run [unfolded bs] n(2)] True n(1) show ?thesis
      by (simp add: winners_def bs upt_conv_Cons map_Suc_upt [symmetric] comp_def del: upt_Suc)
  next
    case False
    with step stable [of c s b s' k n] Cons.prems(2) have "revision s' k = Some n" by auto
    from Cons.IH [OF run [unfolded bs] this] False show ?thesis by (auto simp: winners_def bs)
  qed
qed (simp add: winners_def)

lemma no_two_winners:
  assumes "run_all step cs s = (bs, t)" "revision s k = Some n"
  shows "distinct (map base (winners k cs bs))"
  using winners_chain [OF assms] by (simp add: distinct_map inj_on_def)

end

record save_call =
  call_doc :: json
  call_actor :: string
  call_request :: string
  call_target :: "string option"
  call_expected :: int

definition save_step :: "postgres \<Rightarrow> save_call \<Rightarrow> db \<Rightarrow> bool \<times> db" where
  "save_step P c d = (case catalog_save P (call_doc c) (call_actor c) (call_request c) (call_target c) (call_expected c) d of
     Inl _ \<Rightarrow> (False, d) | Inr (r, d') \<Rightarrow> (\<not> has_key r ''failure'', d'))"

definition product_revision :: "db \<Rightarrow> string \<Rightarrow> int option" where
  "product_revision d k = map_option p_revision (find_product d k)"

lemma save_step_True:
  "save_step P c d = (True, d') \<Longrightarrow> \<exists>r. committed P (call_doc c) (call_actor c) (call_request c) (call_target c) (call_expected c) d r d'"
  by (auto simp: save_step_def split: sum.splits dest: committed_iff [THEN iffD2])

lemma save_step_False:
  "save_step P c d = (False, d') \<Longrightarrow> d' = d"
  by (auto simp: save_step_def split: sum.splits dest!: catalog_save_Inr dest: committed_result)

lemma product_key_new:
  assumes "committed P doc actor corr None expected d r d'"
  shows "find_product d (product_key P None d) = None"
proof -
  from assms obtain d0 where "insert_product P doc (product_key P None d) (d\<lparr>uuid_counter := Suc (uuid_counter d)\<rparr>) = Inr d0"
    by (auto simp: committed_def)
  from insert_product_row [OF this] show ?thesis
    by (auto simp: product_constraints_Inr find_product_def find_None_iff)
qed

interpretation saves: revisioned_store "save_step P" call_target call_expected product_revision for P
proof unfold_locales
  fix c d d' k
  assume "save_step P c d = (True, d')" "call_target c = Some k"
  with save_step_True [of P c d d'] obtain r where c:
    "committed P (call_doc c) (call_actor c) (call_request c) (Some k) (call_expected c) d r d'" by auto
  then have "\<exists>p. find_product d k = Some p \<and> p_revision p = call_expected c" by (auto simp: committed_def)
  with committed_product [OF c]
  show "product_revision d k = Some (call_expected c) \<and> product_revision d' k = Some (call_expected c + 1)"
    by (auto simp: product_revision_def product_key_def)
next
  fix c d b d' k n
  assume step: "save_step P c d = (b, d')" and other: "\<not> b \<or> call_target c \<noteq> Some k"
    and n: "product_revision d k = Some n"
  show "product_revision d' k = Some n"
  proof (cases b)
    case False
    with step have "d' = d" using save_step_False [of P c d d'] by simp
    with n show ?thesis by simp
  next
    case True
    with step save_step_True [of P c d d'] obtain r where c:
      "committed P (call_doc c) (call_actor c) (call_request c) (call_target c) (call_expected c) d r d'" by auto
    have "k \<noteq> product_key P (call_target c) d"
      using other True n product_key_new [of P "call_doc c" "call_actor c" "call_request c" "call_expected c" d r d'] c
      by (cases "call_target c") (auto simp: product_key_def product_revision_def)
    with committed_product [OF c] n show ?thesis by (auto simp: product_revision_def)
  qed
qed

subsection \<open>Properties\<close>

lemma sample_db_ok: "catalog_ok sample_db"
  by (simp add: catalog_ok_def sample_db_def empty_db_def products_ok_def category_links_ok_def texts_ok_def
      variants_ok_def values_ok_def images_ok_def)

lemma sample_commit: "\<exists>r. catalog_save sample_postgres sample_draft sample_admin ''r1'' None 0 sample_db = Inr (r, sample_db1) \<and>
    \<not> has_key r ''failure''"
proof -
  have "find_product sample_db1 sample_product \<noteq> None" by (simp add: find_product_def sample_db1_def sample_rows_def)
  then have "\<not> has_key (json_or_null (catalog_document sample_postgres sample_db1 sample_product)) ''failure''"
    by (auto simp: catalog_document_def json_or_null_def)
  with sample_create show ?thesis by blast
qed

lemma sample_recommit:
  "\<exists>r. catalog_save sample_postgres sample_update sample_admin ''r2'' (Some sample_product) 1 sample_db1 = Inr (r, sample_db2) \<and>
    \<not> has_key r ''failure''"
proof -
  have "find_product sample_db2 sample_product \<noteq> None" by (simp add: find_product_def sample_db2_def sample_rows_def)
  then have "\<not> has_key (json_or_null (catalog_document sample_postgres sample_db2 sample_product)) ''failure''"
    by (auto simp: catalog_document_def json_or_null_def)
  with sample_update_1 show ?thesis by blast
qed

text \<open>
  A catalog with a variant that the update leaves out and one of another product, and one that holds
  another product only.
\<close>

definition sample_old :: variant_row where
  "sample_old = \<lparr>v_id = sample_category, v_product = sample_product, v_sku = ''K-0'', v_name = ''Old'', v_price = 100, v_active = True\<rparr>"

definition sample_other :: variant_row where
  "sample_other = \<lparr>v_id = sample_admin, v_product = sample_admin, v_sku = ''L-1'', v_name = ''Lamp'', v_price = 200, v_active = True\<rparr>"

definition sample_lamp :: product_row where
  "sample_lamp = \<lparr>p_id = sample_admin, p_slug = ''lamp'', p_brand = None, p_status = ''active'',
     p_revision = 4, p_created = 1000, p_updated = 1000\<rparr>"

lemma sample_ids_differ: "sample_category \<noteq> sample_variant_id" "sample_admin \<noteq> sample_variant_id" "sample_admin \<noteq> sample_product"
  by code_simp+

lemma sample_uuid_admin: "sample_admin \<noteq> sample_uuid n"
proof -
  have "CHR ''a'' \<notin> set (digits n)" using digits_numeral [of n] by (auto simp: numeral_string_def list_all_iff is_digit_def)
  then have "CHR ''a'' \<notin> set (sample_uuid n)" by (auto simp: sample_uuid_def Let_def dest: in_set_dropD)
  moreover have "CHR ''a'' \<in> set sample_admin" by (simp add: sample_admin_def)
  ultimately show ?thesis by metis
qed

definition sample_lamp_db :: db where
  "sample_lamp_db = sample_db\<lparr>products := [sample_lamp], variants := [sample_other]\<rparr>"

definition sample_lamp_db1 :: db where
  "sample_lamp_db1 = sample_db1\<lparr>products := sample_lamp # products sample_db1, variants := sample_other # variants sample_db1\<rparr>"

lemma sample_lamp_create:
  "catalog_save sample_postgres sample_draft sample_admin ''r1'' None 0 sample_lamp_db =
     Inr (json_or_null (catalog_document sample_postgres sample_lamp_db1 sample_product), sample_lamp_db1)"
  by (simp add: save_eval sample_lamp_db_def sample_lamp_db1_def sample_lamp_def sample_other_def
      sample_db1_def sample_rows_def sample_created_def sample_db_def empty_db_def sample_draft_def
      sample_draft_of_def sample_texts_def sample_variant_def sample_keys sample_functions sample_ids_differ
      sample_random sample_prices throw_if_def Let_def del: decimal_text.simps cong: bind_res_weak)

lemma sample_lamp_ok: "catalog_ok sample_lamp_db"
proof -
  have "slug ''lamp''" by code_simp
  then show ?thesis
    by (simp add: catalog_ok_def sample_lamp_db_def sample_lamp_def sample_other_def sample_db_def empty_db_def products_ok_def
        category_links_ok_def texts_ok_def variants_ok_def values_ok_def images_ok_def known_status_def variant_bounds_def
        char_count_def leading_def byte_def)
qed

lemma sample_lamp_fresh: "fresh_uuids sample_postgres sample_lamp_db"
  using sample_uuid_admin
  by (auto simp: fresh_uuids_def sample_lamp_db_def sample_lamp_def sample_other_def sample_functions dest: sym)

definition sample_shop1 :: db where
  "sample_shop1 = sample_db1\<lparr>variants := variants sample_db1 @ [sample_old, sample_other]\<rparr>"

definition sample_shop2 :: db where
  "sample_shop2 = sample_db2\<lparr>variants := variants sample_db2 @ [sample_old\<lparr>v_active := False\<rparr>, sample_other]\<rparr>"

lemma sample_shop_update:
  "catalog_save sample_postgres sample_update sample_admin ''r2'' (Some sample_product) 1 sample_shop1 =
     Inr (json_or_null (catalog_document sample_postgres sample_shop2 sample_product), sample_shop2)"
  by (simp add: save_eval sample_shop1_def sample_shop2_def sample_old_def sample_other_def
      sample_db1_def sample_db2_def sample_rows_def sample_created_def sample_updated_def
      sample_db_def empty_db_def sample_update_def catalog_document_def
      sample_draft_of_def sample_texts_def sample_variant_def sample_keys sample_functions sample_ids_differ
      sample_random sample_prices throw_if_def Let_def del: decimal_text.simps cong: bind_res_weak)

lemma sample_shop_save:
  "\<exists>r. catalog_save sample_postgres sample_update sample_admin ''r2'' (Some sample_product) 1 sample_shop1 = Inr (r, sample_shop2) \<and>
    \<not> has_key r ''failure''"
proof -
  have "find_product sample_shop2 sample_product \<noteq> None"
    by (simp add: find_product_def sample_shop2_def sample_db2_def sample_rows_def)
  then have "\<not> has_key (json_or_null (catalog_document sample_postgres sample_shop2 sample_product)) ''failure''"
    by (auto simp: catalog_document_def json_or_null_def)
  with sample_shop_update show ?thesis by blast
qed

text \<open>
  C1. A save is all or nothing.  If the reply of \<open>catalog_save\<close> has a \<open>failure\<close> member the
  database is exactly what it was, whatever statement failed and however far the call had
  gone, and the failure is one of the four codes; if it has none, the reply is the catalog
  document of the product as it now is.
\<close>

theorem catalog_save_atomic:
  assumes "catalog_save P doc actor corr target expected d = Inr (r, d')"
  shows "if has_key r ''failure'' then d' = d \<and> (\<exists>c \<in> save_failures. r = failure c)
    else catalog_document P d' (product_key P target d) = Some r"
  using catalog_save_Inr [OF assms] committed_result [of P doc actor corr target expected d r d'] by auto

theorem catalog_save_atomic_witness:
  "catalog_document sample_postgres sample_db1 sample_product \<noteq> None"
proof -
  obtain r where r: "catalog_save sample_postgres sample_draft sample_admin ''r1'' None 0 sample_db = Inr (r, sample_db1)"
      "\<not> has_key r ''failure''" using sample_commit by blast
  from catalog_save_atomic [OF r(1)] r(2) show ?thesis
    by (simp add: product_key_def sample_functions sample_db_def empty_db_def sample_random)
qed

text \<open>
  C2. Optimistic locking.  An update answers \<open>NOT_FOUND\<close> exactly when the product does not
  exist and \<open>REVISION_CONFLICT\<close> exactly when its revision is not the expected one; an update
  that succeeds found the expected revision and leaves the product with the next one.
\<close>

theorem catalog_save_revision:
  assumes "catalog_save P doc actor corr (Some key) expected d = Inr (r, d')"
  shows "(r = failure ''NOT_FOUND'' \<longleftrightarrow> product_revision d key = None) \<and>
    (r = failure ''REVISION_CONFLICT'' \<longleftrightarrow> (\<exists>n. product_revision d key = Some n \<and> n \<noteq> expected)) \<and>
    (has_key r ''failure'' \<or>
      product_revision d key = Some expected \<and> product_revision d' key = Some (expected + 1))"
proof (cases "committed P doc actor corr (Some key) expected d r d'")
  case True
  from committed_result [OF True] have "\<And>c. r \<noteq> failure c" by auto
  moreover from True have "product_revision d key = Some expected"
    by (auto simp: committed_def product_revision_def)
  moreover have "product_revision d' key = Some (expected + 1)"
    using committed_product [OF True] by (auto simp: product_revision_def product_key_def)
  ultimately show ?thesis by simp
next
  case False
  with assms show ?thesis
    by (auto simp: catalog_save_def save_block_def product_revision_def Let_def bind_res_eq_Inr committed_def
        split: option.splits if_splits sum.splits sql_error.splits)
qed

theorem catalog_save_revision_witness:
  "product_revision sample_db1 sample_product = Some 1 \<and> product_revision sample_db2 sample_product = Some 2 \<and>
   (\<exists>n. product_revision sample_db2 sample_product = Some n \<and> n \<noteq> 1)"
proof -
  obtain r where r: "catalog_save sample_postgres sample_update sample_admin ''r2'' (Some sample_product) 1 sample_db1 = Inr (r, sample_db2)"
      "\<not> has_key r ''failure''" using sample_recommit by blast
  from catalog_save_revision [OF r(1)] r(2) show ?thesis by simp
qed

text \<open>
  C3. No lost update.  Whatever saves are run one after the other, from any number of
  editors, the successful updates of one product form a chain: the first was based on the
  revision the product had, each next one on the result of the one before it, and the final
  revision counts them.  So of any number of updates based on one revision at most one succeeds.
\<close>

theorem saves_form_chain:
  assumes "run_all (save_step P) calls d = (outcomes, d')" and "product_revision d key = Some n"
    and "won = map fst (filter (\<lambda>(c, b). b \<and> call_target c = Some key) (zip calls outcomes))"
  shows "map call_expected won = map (\<lambda>i. n + int i) [0..<length won] \<and> distinct (map call_expected won) \<and>
    product_revision d' key = Some (n + int (length won))"
  using saves.winners_chain [OF assms(1,2)] saves.no_two_winners [OF assms(1,2)]
  by (simp add: assms(3) saves.winners_def)

theorem saves_form_chain_witness:
  "run_all (save_step sample_postgres)
     [\<lparr>call_doc = sample_update, call_actor = sample_admin, call_request = ''r2'', call_target = Some sample_product, call_expected = 1\<rparr>,
      \<lparr>call_doc = sample_draft, call_actor = sample_admin, call_request = ''r3'', call_target = Some sample_product, call_expected = 1\<rparr>]
     sample_db1 = ([True, False], sample_db2) \<and> product_revision sample_db2 sample_product = Some 2"
proof -
  let ?calls = "[\<lparr>call_doc = sample_update, call_actor = sample_admin, call_request = ''r2'', call_target = Some sample_product, call_expected = 1\<rparr>,
      \<lparr>call_doc = sample_draft, call_actor = sample_admin, call_request = ''r3'', call_target = Some sample_product, call_expected = 1\<rparr>]"
  obtain r where r: "catalog_save sample_postgres sample_update sample_admin ''r2'' (Some sample_product) 1 sample_db1 = Inr (r, sample_db2)"
      "\<not> has_key r ''failure''" using sample_recommit by blast
  have run: "run_all (save_step sample_postgres) ?calls sample_db1 = ([True, False], sample_db2)"
    by (simp add: save_step_def r sample_update_2)
  have n: "product_revision sample_db1 sample_product = Some 1"
    by (simp add: product_revision_def find_product_def sample_db1_def sample_rows_def)
  from saves_form_chain [OF run n refl] run show ?thesis by simp
qed

text \<open>
  C4. Every save keeps the catalog consistent: identifiers, slugs, SKUs and the other keys stay
  unique, every reference (brand, category, product, variant, attribute, media, user) points
  to a row, and slugs, statuses, revisions, text lengths, prices and positions stay in bounds.
\<close>

theorem catalog_save_invariant:
  assumes "catalog_save P doc actor corr target expected d = Inr (r, d')" and "catalog_ok d"
  shows "catalog_ok d'"
  using catalog_save_Inr [OF assms(1)] committed_keeps [of P doc actor corr target expected d r d'] assms(2) by auto

theorem catalog_save_invariant_witness: "catalog_ok sample_db1"
  using catalog_save_invariant [OF sample_create sample_db_ok] .

text \<open>
  C23. A save touches one product only.  If the generated identifiers are new, the catalog
  document of every other product (its row, categories, texts, variants with their attribute
  values, and images) is the same before and after.
\<close>

theorem catalog_save_frame:
  assumes "catalog_save P doc actor corr target expected d = Inr (r, d')" and "catalog_ok d" and "fresh_uuids P d"
    and "other \<noteq> product_key P target d"
  shows "catalog_document P d' other = catalog_document P d other"
  using catalog_save_Inr [OF assms(1)] committed_same_for [of P doc actor corr target expected d r d' other]
    same_for_document assms(2-) by auto

theorem catalog_save_frame_witness:
  "catalog_document sample_postgres sample_lamp_db1 sample_admin = catalog_document sample_postgres sample_lamp_db sample_admin \<and>
   catalog_document sample_postgres sample_lamp_db sample_admin \<noteq> None"
proof
  have "sample_admin \<noteq> product_key sample_postgres None sample_lamp_db"
    using sample_uuid_admin by (simp add: product_key_def sample_functions)
  then show "catalog_document sample_postgres sample_lamp_db1 sample_admin = catalog_document sample_postgres sample_lamp_db sample_admin"
    by (rule catalog_save_frame [OF sample_lamp_create sample_lamp_ok sample_lamp_fresh])
  show "catalog_document sample_postgres sample_lamp_db sample_admin \<noteq> None"
    by (simp add: catalog_document_def find_product_def sample_lamp_db_def sample_lamp_def)
qed

text \<open>
  C25. Every successful save, and nothing else, writes one audit record: who did it, in which
  request, to which product, whether it was created or updated, and the old and the new
  revision.
\<close>

theorem catalog_save_audited:
  assumes "catalog_save P doc actor corr target expected d = Inr (r, d')"
  shows "audit d' = audit d @ (if has_key r ''failure'' then [] else
    [\<lparr>l_actor = actor, l_action = (if target = None then ''product.created'' else ''product.updated''),
      l_entity = product_key P target d, l_request = corr, l_changes = JObj
       [(''oldRevision'', case target of None \<Rightarrow> JNull | Some _ \<Rightarrow> JInt expected),
        (''newRevision'', JInt (case target of None \<Rightarrow> 1 | Some _ \<Rightarrow> expected + 1)),
        (''status'', json_or_null (field doc ''status''))], l_created = clock d\<rparr>])"
  using catalog_save_Inr [OF assms] committed_result [of P doc actor corr target expected d r d']
    committed_audit [of P doc actor corr target expected d r d'] by auto

theorem catalog_save_audited_witness: "length (audit sample_db1) = length (audit sample_db) + 1"
proof -
  obtain r where r: "catalog_save sample_postgres sample_draft sample_admin ''r1'' None 0 sample_db = Inr (r, sample_db1)"
      "\<not> has_key r ''failure''" using sample_commit by blast
  from catalog_save_audited [OF r(1)] r(2) show ?thesis by simp
qed



end
