(* ===== verification/Catalog_Views.thy ===== *)
theory Catalog_Views
  imports Catalog_Service Catalog_History
begin

text \<open>
  What readers see: the documents that leave the service, for the public and for the
  administration, and the pages of the search.
\<close>

subsection \<open>Documents survive the database's text form\<close>

lemma decode_out: "postgres_ok J P \<Longrightarrow> wf_json v \<Longrightarrow> decode J (jsonb_out P v) = Inr v"
  by (simp add: decode_ok postgres_ok_def)

lemma distinct_filter_pair:
  "distinct (map (\<lambda>x. (f x, g x)) xs) \<Longrightarrow> distinct (map g (filter (\<lambda>x. f x = k) xs))"
  by (auto simp: distinct_map inj_on_def)

lemma variant_json_wf:
  assumes "catalog_ok d" "v \<in> set (variants d)"
  shows "wf_json (variant_json d v)"
proof -
  have "distinct (map (\<lambda>a. (a_variant a, a_code a)) (attribute_values d))"
    using assms(1) by (simp add: catalog_ok_def values_ok_def)
  from distinct_filter_pair [OF this, of "v_id v"]
  have codes: "distinct (map a_code (filter (\<lambda>a. a_variant a = v_id v) (attribute_values d)))" .
  have "0 \<le> v_price v" "v_price v \<le> 100000000"
    using assms by (auto simp: catalog_ok_def variants_ok_def variant_bounds_def)
  with codes show ?thesis by (simp add: variant_json_def list_all_iff comp_def)
qed

lemma document_wf:
  assumes "catalog_ok d" "catalog_document P d k = Some doc"
  shows "wf_json doc"
proof -
  from assms(2) obtain p where p: "find_product d k = Some p" by (auto simp: catalog_document_def split: option.splits)
  then have rev: "0 < p_revision p" "p_revision p < 2 ^ 31"
    using assms(1) find_product_id [OF p] by (auto simp: catalog_ok_def products_ok_def)
  have "distinct (map (\<lambda>t. (t_product t, t_locale t)) (product_texts d))"
    using assms(1) by (simp add: catalog_ok_def texts_ok_def)
  from distinct_filter_pair [OF this, of k]
  have locales: "distinct (map (\<lambda>t. fst (translation_json t)) (filter (\<lambda>t. t_product t = k) (product_texts d)))"
    by (simp add: translation_json_def)
  have "wf_json (image_json i)" "wf_json (json_option b)" "wf_json (snd (translation_json t))" for i b t
    by (simp_all add: image_json_def json_option_def translation_json_def split: option.splits)
  with rev locales variant_json_wf [OF assms(1)] assms(2) p show ?thesis
    by (auto simp: catalog_document_def list_all_iff comp_def case_prod_unfold)
qed

subsection \<open>The public view of a document\<close>

definition public_view :: "json \<Rightarrow> json" where
  "public_view doc = JObj (AList.update ''variants''
     (JArr (filter active_of (elements (member (members_of doc) ''variants'')))) (members_of doc))"

lemma active_of_variant [simp]: "active_of (variant_json d v) = v_active v"
  by (simp add: active_of_def variant_json_def)

lemma document_variants:
  "catalog_document P d k = Some doc \<Longrightarrow> elements (member (members_of doc) ''variants'') = map (variant_json d)
     (sort_key (\<lambda>v. collation_key P (v_sku v)) (filter (\<lambda>v. v_product v = k) (variants d)))"
  by (auto simp: catalog_document_def split: option.splits)

lemma document_object: "catalog_document P d k = Some doc \<Longrightarrow> doc = JObj (members_of doc)"
  by (auto simp: catalog_document_def split: option.splits)

lemma public_document_catalog:
  assumes "jsoncpp_ok J" "catalog_document P d k = Some doc"
  shows "public_document J doc = Inr (public_view doc)"
proof -
  have "boolean_flags (elements (member (members_of doc) ''variants''))"
    by (simp add: document_variants [OF assms(2)] boolean_flags_def list_all_iff variant_json_def)
  from public_document_object [OF assms(1) this] document_object [OF assms(2)] show ?thesis
    by (simp add: public_view_def)
qed

text \<open>What a public document shows.\<close>

definition public_ok :: "db \<Rightarrow> json \<Rightarrow> bool" where
  "public_ok d doc \<longleftrightarrow> (\<exists>p \<in> set (products d). member (members_of doc) ''id'' = JStr (p_id p) \<and>
     member (members_of doc) ''status'' = JStr ''active'' \<and> p_status p = ''active'' \<and>
     elements (member (members_of doc) ''variants'') \<noteq> [] \<and>
     (\<forall>x \<in> set (elements (member (members_of doc) ''variants'')).
        \<exists>v \<in> set (variants d). v_product v = p_id p \<and> v_active v \<and> x = variant_json d v))"

lemma find_product_unique:
  assumes "distinct (map p_id (products d))" "p \<in> set (products d)"
  shows "find_product d (p_id p) = Some p"
proof -
  obtain q where q: "find_product d (p_id p) = Some q" using find_product_ids [of "p_id p" d] assms(2) by auto
  with find_product_id [OF q] assms have "q = p" by (auto simp: distinct_map inj_on_def)
  with q show ?thesis by simp
qed

lemma public_view_ok:
  assumes "catalog_ok d" "p \<in> set (products d)" "p_status p = ''active''"
    "\<exists>v \<in> set (variants d). v_product v = p_id p \<and> v_active v"
  shows "\<exists>doc. catalog_document P d (p_id p) = Some doc \<and> public_ok d (public_view doc)"
proof -
  have "find_product d (p_id p) = Some p"
    using assms(1,2) by (auto simp: catalog_ok_def products_ok_def intro: find_product_unique)
  then obtain doc where doc: "catalog_document P d (p_id p) = Some doc"
      "member (members_of doc) ''id'' = JStr (p_id p)" "member (members_of doc) ''status'' = JStr (p_status p)"
    by (simp add: catalog_document_def)
  have shown: "elements (member (members_of (public_view doc)) ''variants'') = map (variant_json d) (filter v_active
      (sort_key (\<lambda>v. collation_key P (v_sku v)) (filter (\<lambda>v. v_product v = p_id p) (variants d))))"
    by (simp add: public_view_def document_variants [OF doc(1)] filter_map comp_def)
  have "public_ok d (public_view doc)"
    unfolding public_ok_def shown
    by (rule bexI [of _ p]) (use assms doc in \<open>auto simp: public_view_def filter_empty_conv\<close>)
  with doc(1) show ?thesis by blast
qed

subsection \<open>The public search\<close>

lemma list_statement_Inr:
  assumes "list_statement P f admin d = Inr (text, d')"
  shows "\<exists>category brand. text = jsonb_out P (JObj
      [(''items'', JArr (map (\<lambda>r. json_or_null (catalog_document P d (li_id r))) (listed_page P d f category brand admin))),
       (''total'', JInt (int (length (filtered P d f category brand admin)))),
       (''page'', JInt (f_page f)), (''limit'', JInt (f_limit f))]) \<and> d' = d"
  using assms by (auto simp: list_statement_def bind_res_eq_Inr)

lemma listed_page_filtered:
  "r \<in> set (listed_page P d f category brand admin) \<Longrightarrow> r \<in> set (filtered P d f category brand admin)"
  by (auto simp: listed_page_def page_rows_def listed_rows_def dest!: in_set_takeD in_set_dropD)

lemma listed_public:
  assumes "catalog_ok d" "r \<in> set (listed_page P d f category brand admin)"
  shows "\<exists>doc. catalog_document P d (li_id r) = Some doc \<and> (\<not> admin \<longrightarrow> public_ok d (public_view doc))"
proof -
  from listed_page_filtered [OF assms(2)] obtain p t where p: "p \<in> set (products d)" "li_id r = p_id p"
      "product_matches P d f category brand admin p t" "priced_variants d f admin (p_id p) \<noteq> []"
    by (auto simp: filtered_iff)
  have "\<exists>doc. catalog_document P d (p_id p) = Some doc"
    using find_product_ids [of "p_id p" d] p(1) by (auto simp: catalog_document_def)
  moreover have "\<exists>doc. catalog_document P d (p_id p) = Some doc \<and> public_ok d (public_view doc)" if "\<not> admin"
    using that p by (intro public_view_ok [OF assms(1)]) (auto simp: product_matches_def priced_variants_def filter_empty_conv)
  ultimately show ?thesis using p(2) by auto
qed

text \<open>The numbers of a page fit JSON's integers.\<close>

definition countable_rows :: "db \<Rightarrow> bool" where
  "countable_rows d \<longleftrightarrow> length (products d) * length (product_texts d) < 2 ^ 63"

lemma filtered_length: "length (filtered P d f category brand admin) \<le> length (products d) * length (product_texts d)"
proof -
  have inner: "length (concat (map (\<lambda>t. if Q t then [g t] else []) ts)) \<le> length ts" for Q and g :: "'a \<Rightarrow> listed" and ts
    by (induction ts) auto
  have outer: "(\<And>x. length (h x) \<le> n) \<Longrightarrow> length (concat (map h xs)) \<le> length xs * n" for h :: "'b \<Rightarrow> 'c list" and xs n
  proof (induction xs)
    case (Cons x xs)
    from Cons.prems [of x] Cons.IH [OF Cons.prems] show ?case by simp
  qed simp
  show ?thesis unfolding filtered_def Let_def by (rule outer) (rule inner)
qed

lemma list_document_wf:
  assumes "catalog_ok d" "countable_rows d" "0 \<le> f_page f" "f_page f < 2 ^ 31" "0 \<le> f_limit f" "f_limit f < 2 ^ 31"
  shows "wf_json (JObj
      [(''items'', JArr (map (\<lambda>r. json_or_null (catalog_document P d (li_id r))) (listed_page P d f category brand admin))),
       (''total'', JInt (int (length (filtered P d f category brand admin)))),
       (''page'', JInt (f_page f)), (''limit'', JInt (f_limit f))])"
proof -
  have "wf_json (json_or_null (catalog_document P d (li_id r)))" for r
    using document_wf [OF assms(1)] by (cases "catalog_document P d (li_id r)") (auto simp: json_or_null_def)
  moreover have "length (filtered P d f category brand admin) < 2 ^ 63"
    using filtered_length assms(2) unfolding countable_rows_def by (rule le_less_trans)
  ultimately show ?thesis using assms(3-6) by (auto simp: list_all_iff)
qed

subsection \<open>Order\<close>

lemma order_key_prices:
  assumes "order_key P srt a \<le> order_key P srt b"
  shows "(srt = ''price_asc'' \<longrightarrow> li_price a \<le> li_price b) \<and> (srt = ''price_desc'' \<longrightarrow> li_price b \<le> li_price a) \<and>
    (srt = ''name'' \<longrightarrow> collation_key P (li_name a) \<le> collation_key P (li_name b)) \<and>
    (srt = ''newest'' \<longrightarrow> li_created b \<le> li_created a)"
proof (intro conjI impI)
  show "li_price a \<le> li_price b" if "srt = ''price_asc''"
    using assms that by (simp add: order_key_def) auto
  show "li_price b \<le> li_price a" if "srt = ''price_desc''"
    using assms that by (simp add: order_key_def less_desc_def) auto
  show "collation_key P (li_name a) \<le> collation_key P (li_name b)" if "srt = ''name''"
    using assms that by (simp add: order_key_def less_desc_def) auto
  show "li_created b \<le> li_created a" if "srt = ''newest''"
    using assms that by (simp add: order_key_def less_desc_def) auto
qed

definition in_order :: "postgres \<Rightarrow> string \<Rightarrow> listed \<Rightarrow> listed \<Rightarrow> bool" where
  "in_order P srt a b \<longleftrightarrow> (srt = ''price_asc'' \<longrightarrow> li_price a \<le> li_price b) \<and>
     (srt = ''price_desc'' \<longrightarrow> li_price b \<le> li_price a) \<and>
     (srt = ''name'' \<longrightarrow> collation_key P (li_name a) \<le> collation_key P (li_name b)) \<and>
     (srt = ''newest'' \<longrightarrow> li_created b \<le> li_created a)"

lemma listed_rows_order: "sorted_wrt (in_order P (f_sort f)) (listed_rows P d f category brand admin)"
proof -
  have "sorted_wrt (\<lambda>a b. order_key P (f_sort f) a \<le> order_key P (f_sort f) b) (listed_rows P d f category brand admin)"
    using sorted_sort_key [of "order_key P (f_sort f)" "filtered P d f category brand admin"]
    by (simp only: sorted_map listed_rows_def)
  then show ?thesis
    by (rule sorted_wrt_mono_rel [rotated]) (auto simp: in_order_def dest: order_key_prices)
qed

lemma filtered_page [simp]:
  "filtered P d (f\<lparr>f_page := k\<rparr>) category brand admin = filtered P d f category brand admin"
  by (simp add: filtered_def product_matches_def priced_variants_def)

subsection \<open>Saving through the service\<close>

lemma repository_save_served:
  assumes "w_fates w = []" and P: "postgres_ok J P" and ok: "catalog_ok (w_db w)"
    and "repository_save J P draft actor corr key revision w = (r, w')"
  shows "(\<exists>m. r = Inl (DbError m) \<and> w' = w) \<or>
    (\<exists>doc a c target v d'. jsonb_in P (encode J draft) = Some doc \<and> uuid_in P actor = Some a \<and> uuid_in P corr = Some c \<and>
       (if key = [] then target = None else \<exists>k. uuid_in P key = Some k \<and> target = Some k) \<and>
       catalog_save P doc a c target revision (w_db w) = Inr (v, d') \<and> r = Inr v \<and> w' = w\<lparr>w_db := d'\<rparr>)"
proof (cases "save_statement J P draft actor corr key revision (w_db w)")
  case (Inl e)
  with assms(1,4) show ?thesis by (auto simp: repository_save_def bind_act_simp exec_sql_served)
next
  case (Inr td)
  obtain reply d' where td: "td = (reply, d')" by (cases td)
  from Inr td obtain doc a c target v where s: "jsonb_in P (encode J draft) = Some doc" "uuid_in P actor = Some a"
      "uuid_in P corr = Some c" "cast (uuid_in P) (if key = [] then None else Some key) = Inr target"
      "catalog_save P doc a c target revision (w_db w) = Inr (v, d')" "reply = jsonb_out P v"
    by (auto simp: save_statement_def bind_res_eq_Inr cast_eq_Inr split: option.splits)
  have "wf_json v"
  proof (cases "committed P doc a c target revision (w_db w) v d'")
    case True
    from document_wf [OF committed_keeps [OF True ok]] committed_result [OF True] show ?thesis by blast
  next
    case False
    with catalog_save_Inr [OF s(5)] obtain code where "v = failure code" by blast
    then show ?thesis by (simp add: failure_def)
  qed
  then have "decode J reply = Inr v" using decode_out [OF P] s(6) by simp
  with assms(1,4) Inr td s(5) have "r = Inr v" "w' = w\<lparr>w_db := d'\<rparr>"
    by (simp_all add: repository_save_def bind_act_simp exec_sql_served)
  with s(1-5) show ?thesis by (auto simp: cast_eq_Inr split: if_splits)
qed

lemma has_key_member: "jsoncpp_ok J \<Longrightarrow> is_object v \<Longrightarrow> is_member J v k = Inr (has_key v k)"
  by (cases v) (auto simp: jsoncpp_rules map_of_eq_None_iff)

definition http_of_failure :: "string \<Rightarrow> int" where
  "http_of_failure c = (if c = ''NOT_FOUND'' then 404 else if c = ''INVALID_REFERENCE'' then 422 else 409)"

lemma service_save_served:
  assumes J: "jsoncpp_ok J" and P: "postgres_ok J P" and ok: "catalog_ok (w_db w)" and "w_fates w = []"
    and save: "service_save J P draft actor corr key revision w = (r, w')"
  shows "(\<exists>doc a c target v d'. valid_draft J draft \<and> jsonb_in P (encode J draft) = Some doc \<and>
       uuid_in P actor = Some a \<and> uuid_in P corr = Some c \<and>
       (if key = [] then target = None else uuid key \<and> 1 \<le> revision \<and> target = Some (lower key)) \<and>
       committed P doc a c target revision (w_db w) v d' \<and> r = Inr v \<and> w' = w\<lparr>w_db := d'\<rparr>) \<or>
    w' = w \<and> (\<exists>e. r = Inl e)"
proof (cases "validate_draft J draft = Inr () \<and> \<not> (key \<noteq> [] \<and> (\<not> uuid key \<or> revision < 1))")
  case False
  then have "w' = w \<and> (\<exists>e. r = Inl e)"
    using save by (cases "validate_draft J draft") (auto simp: service_save_def bind_act_simp split: if_splits)
  then show ?thesis ..
next
  case True
  then have valid: "valid_draft J draft" using validate_draft_Inr [OF J] by blast
  obtain x w1 where rs: "repository_save J P draft actor corr key revision w = (x, w1)" by fastforce
  from repository_save_served [OF assms(4) P ok rs] show ?thesis
  proof (elim disjE exE conjE)
    fix m assume "x = Inl (DbError m)" "w1 = w"
    with save True rs show ?thesis by (auto simp: service_save_def bind_act_simp split: if_splits)
  next
    fix doc a c target v d'
    assume s: "jsonb_in P (encode J draft) = Some doc" "uuid_in P actor = Some a" "uuid_in P corr = Some c"
      "if key = [] then target = None else \<exists>k. uuid_in P key = Some k \<and> target = Some k"
      "catalog_save P doc a c target revision (w_db w) = Inr (v, d')" "x = Inr v" "w1 = w\<lparr>w_db := d'\<rparr>"
    have target: "if key = [] then target = None else uuid key \<and> 1 \<le> revision \<and> target = Some (lower key)"
      using s(4) True P by (auto simp: postgres_ok_def split: if_splits)
    show ?thesis
    proof (cases "committed P doc a c target revision (w_db w) v d'")
      case com: True
      with committed_result [OF com] have "is_member J v ''failure'' = Inr False"
        using has_key_member [OF J, of v] by simp
      then have "r = Inr v" "w' = w1"
        using save True rs s(6) by (auto simp: service_save_def bind_act_simp split: if_splits)
      with com s valid target show ?thesis by blast
    next
      case False
      with catalog_save_Inr [OF s(5)] obtain code where v: "v = failure code" "d' = w_db w" by auto
      have "is_member J v ''failure'' = Inr True" using has_key_member [OF J, of v "''failure''"] by (simp add: v failure_def)
      moreover have "get_at J v ''failure'' = Inr (JStr code)" by (simp add: v failure_def jsoncpp_rules [OF J])
      ultimately have "w' = w \<and> r = Inl (save_error code)"
        using save True rs s(6,7) v(2) J by (auto simp: service_save_def bind_act_simp jsoncpp_rules split: if_splits)
      then show ?thesis by blast
    qed
  qed
qed

lemma find_filter: "find Q xs = Some x \<Longrightarrow> \<exists>ys. filter Q xs = x # ys"
  by (induction xs) (auto split: if_splits)

lemma cast_filter:
  "postgres_ok J P \<Longrightarrow> s = [] \<or> uuid s \<Longrightarrow> cast (uuid_in P) (if s = [] then None else Some s) =
     Inr (if s = [] then None else Some (lower s))"
  by (auto simp: cast_def postgres_ok_def)

subsection \<open>Properties\<close>

text \<open>
  A save through the service is all or nothing, and only a valid draft can be saved.  When
  the database answers, the service either returns the catalog document of the product as
  stored, for a draft that passed the checks, with the catalog consistent afterwards (and a
  new revision for an update), or throws and changes nothing at all.
\<close>

lemma service_save_all_or_nothing:
  assumes "jsoncpp_ok J" and "postgres_ok J P" and "catalog_ok (w_db w)" and "w_fates w = []"
    and "service_save J P draft actor corr key revision w = (r, w')"
  shows "case r of Inl e \<Rightarrow> w' = w
    | Inr v \<Rightarrow> valid_draft J draft \<and> catalog_ok (w_db w') \<and>
        (if key = [] then catalog_document P (w_db w') (random_uuid P (uuid_counter (w_db w))) = Some v
         else uuid key \<and> catalog_document P (w_db w') (lower key) = Some v \<and>
           product_revision (w_db w) (lower key) = Some revision \<and>
           product_revision (w_db w') (lower key) = Some (revision + 1))"
  using service_save_served [OF assms]
proof (elim disjE exE conjE)
  fix doc a c target v d'
  assume s: "valid_draft J draft" "if key = [] then target = None else uuid key \<and> 1 \<le> revision \<and> target = Some (lower key)"
    "committed P doc a c target revision (w_db w) v d'" "r = Inr v" "w' = w\<lparr>w_db := d'\<rparr>"
  have new: "catalog_document P d' (product_key P target (w_db w)) = Some v" using committed_result [OF s(3)] by simp
  have rev: "target = Some k \<Longrightarrow> product_revision (w_db w) k = Some revision \<and> product_revision d' k = Some (revision + 1)" for k
    using committed_product [OF s(3)] s(3) by (auto simp: product_revision_def product_key_def committed_def)
  show ?thesis
    using s(1,2,4,5) committed_keeps [OF s(3) assms(3)] new rev by (auto simp: product_key_def split: if_splits)
qed simp

text \<open>The answer of the public search to an accepted filter.\<close>

definition filter_key :: "string \<Rightarrow> string option" where
  "filter_key s = (if s = [] then None else Some (lower s))"

definition stored_item :: "postgres \<Rightarrow> db \<Rightarrow> listed \<Rightarrow> json" where
  "stored_item P d r = json_or_null (catalog_document P d (li_id r))"

definition shown_item :: "postgres \<Rightarrow> db \<Rightarrow> listed \<Rightarrow> json" where
  "shown_item P d r = public_view (stored_item P d r)"

definition list_body :: "(listed \<Rightarrow> json) \<Rightarrow> postgres \<Rightarrow> db \<Rightarrow> search_filter \<Rightarrow> string option \<Rightarrow> string option \<Rightarrow> bool \<Rightarrow> json" where
  "list_body item P d f category brand admin = JObj
     [(''items'', JArr (map item (listed_page P d f category brand admin))),
      (''total'', JInt (int (length (filtered P d f category brand admin)))),
      (''page'', JInt (f_page f)), (''limit'', JInt (f_limit f))]"

definition public_page :: "postgres \<Rightarrow> db \<Rightarrow> search_filter \<Rightarrow> json" where
  "public_page P d f = list_body (shown_item P d) P d f (filter_key (f_category f)) (filter_key (f_brand f)) False"

lemma shown_public:
  assumes "jsoncpp_ok J" and "catalog_ok d" and "r \<in> set (listed_page P d f category brand False)"
  shows "public_document J (stored_item P d r) = Inr (shown_item P d r)" "public_ok d (shown_item P d r)"
  using listed_public [OF assms(2,3)] public_document_catalog [OF assms(1)]
  by (auto simp: json_or_null_def stored_item_def shown_item_def)

lemma filter_bounds:
  assumes "parse_filter req = Inr f"
  shows "1 \<le> f_page f" "f_page f \<le> 10000" "1 \<le> f_limit f" "f_limit f \<le> 48"
    "f_category f = [] \<or> uuid (f_category f)" "f_brand f = [] \<or> uuid (f_brand f)"
  using assms unfolding parse_filter_Inr filter_texts_def filter_numbers_def in_bounds_def by blast+

lemma items_shown:
  assumes "jsoncpp_ok J" and "catalog_ok d"
  shows "bind_res (get_at J (list_body (stored_item P d) P d f category brand False) ''items'') (\<lambda>items.
     bind_res (map_res (public_document J) (elements items)) (\<lambda>docs.
     set_at J (list_body (stored_item P d) P d f category brand False) ''items'' (JArr docs))) =
     Inr (list_body (shown_item P d) P d f category brand False)"
proof -
  let ?rows = "listed_page P d f category brand False"
  have "map_res (public_document J) (map (stored_item P d) ?rows) = Inr (map (shown_item P d) ?rows)"
    unfolding map_res_map using shown_public(1) [OF assms] by (intro map_res_total) simp
  then show ?thesis by (simp add: list_body_def jsoncpp_rules [OF assms(1)])
qed

lemma list_read_back:
  assumes "postgres_ok J P" and "catalog_ok d" and "countable_rows d" and "parse_filter req = Inr f"
  shows "decode J (jsonb_out P (list_body (stored_item P d) P d f category brand admin)) =
     Inr (list_body (stored_item P d) P d f category brand admin)"
  unfolding list_body_def stored_item_def
  by (rule decode_out [OF assms(1) list_document_wf [OF assms(2,3)]]) (use filter_bounds [OF assms(4)] in auto)

lemma public_list_page:
  assumes J: "jsoncpp_ok J" and P: "postgres_ok J P" and ok: "catalog_ok (w_db w)" and "countable_rows (w_db w)"
    and filt: "parse_filter req = Inr f" and served: "w_fates w = []"
  shows "service_list J P f False w = (Inr (public_page P (w_db w) f), w)"
proof -
  let ?reply = "list_body (stored_item P (w_db w)) P (w_db w) f (filter_key (f_category f)) (filter_key (f_brand f)) False"
  note texts = filter_bounds(5,6) [OF filt]
  have "list_statement P f False (w_db w) = Inr (jsonb_out P ?reply, w_db w)"
    unfolding list_statement_def cast_filter [OF P texts(1)] cast_filter [OF P texts(2)] bind_res_Inr
      list_body_def stored_item_def filter_key_def ..
  then have "exec_sql (list_statement P f False) w = (Inr (jsonb_out P ?reply), w)"
    unfolding exec_sql_served [OF served] by simp
  then show ?thesis
    using items_shown [OF J ok] list_read_back [OF P ok assms(4) filt]
    by (simp add: service_list_def repository_list_def bind_act_simp public_page_def)
qed

text \<open>
  C15. The public search answers, and shows nothing unpublished.  For every filter the parser
  accepts the search returns, without touching the database, at most 48 items; each is the
  document of an active product, and every variant in it is an active variant of that product;
  there is at least one.
\<close>

theorem public_list_safe:
  assumes J: "jsoncpp_ok J" and P: "postgres_ok J P" and ok: "catalog_ok (w_db w)" and "countable_rows (w_db w)"
    and filt: "parse_filter req = Inr f" and served: "w_fates w = []"
  shows "\<exists>items v. service_list J P f False w = (Inr v, w) \<and> member (members_of v) ''items'' = JArr items \<and>
    (\<forall>item \<in> set items. public_ok (w_db w) item) \<and> length items \<le> 48"
proof -
  let ?rows = "listed_page P (w_db w) f (filter_key (f_category f)) (filter_key (f_brand f)) False"
  have "length ?rows \<le> 48" using filter_bounds [OF filt] by (simp add: listed_page_def page_rows_def)
  moreover have "\<forall>r \<in> set ?rows. public_ok (w_db w) (shown_item P (w_db w) r)"
    using shown_public(2) [OF J ok] by blast
  moreover have "member (members_of (public_page P (w_db w) f)) ''items'' = JArr (map (shown_item P (w_db w)) ?rows)"
    by (simp add: public_page_def list_body_def)
  ultimately show ?thesis using public_list_page [OF assms] by (intro exI conjI) auto
qed

text \<open>
  C16. A public lookup answers exactly for the visible products.  If a product with the slug (which
  PostgreSQL reads up to a NUL character) is
  active and has an active variant, the reply is its document with the inactive variants removed;
  otherwise (no such product, a draft, an archived one, or no active variant) the answer is the
  same \<open>404\<close>.
\<close>

theorem public_find_visible:
  assumes J: "jsoncpp_ok J" and P: "postgres_ok J P" and ok: "catalog_ok (w_db w)" and served: "w_fates w = []"
    and key: "key \<noteq> []" "length key \<le> 160"
  shows "case find (\<lambda>p. p_slug p = c_str key \<and> visible_product (w_db w) p) (products (w_db w)) of
      None \<Rightarrow> service_find J P key False w = (Inl product_not_found, w)
    | Some p \<Rightarrow> \<exists>doc. catalog_document P (w_db w) (p_id p) = Some doc \<and> public_ok (w_db w) (public_view doc) \<and>
        service_find J P key False w = (Inr (public_view doc), w)"
proof -
  let ?d = "w_db w"
  let ?v = "\<lambda>p. p_slug p = c_str key \<and> visible_product ?d p"
  have q: "exec_sql (find_statement P key False) w =
      (Inr (map (\<lambda>p. jsonb_out P (json_or_null (catalog_document P ?d (p_id p)))) (filter ?v (products ?d))), w)"
    using served by (simp add: exec_sql_served find_statement_def)
  show ?thesis
  proof (cases "find ?v (products ?d)")
    case None
    then have "filter ?v (products ?d) = []" by (auto simp: find_None_iff filter_empty_conv)
    with None q key show ?thesis by (simp add: service_find_def repository_find_def bind_act_simp)
  next
    case (Some p)
    then have p: "p \<in> set (products ?d)" "?v p" by (auto simp: find_Some_iff)
    have head: "\<exists>ps. filter ?v (products ?d) = p # ps" by (rule find_filter [OF Some])
    from public_view_ok [OF ok p(1)] p(2) obtain doc where
      doc: "catalog_document P ?d (p_id p) = Some doc" "public_ok ?d (public_view doc)"
      by (auto simp: visible_product_def list_ex_iff)
    have "decode J (jsonb_out P doc) = Inr doc" by (rule decode_out [OF P document_wf [OF ok doc(1)]])
    moreover have "\<not> is_null doc" using document_object [OF doc(1)] by (metis is_null.simps(7))
    ultimately have "service_find J P key False w = (Inr (public_view doc), w)"
      using q key head public_document_catalog [OF J doc(1)]
      by (auto simp: service_find_def repository_find_def bind_act_simp doc(1) json_or_null_def)
    with Some doc show ?thesis by simp
  qed
qed

text \<open>
  C17. Paging loses nothing and repeats nothing.  For a given filter, order and page size, the
  pages one to n, put together, are the first n pages' worth of the ordered result; no product is
  listed twice; the order is the one asked for, whatever the filter.
\<close>

theorem search_pages:
  assumes "catalog_ok d" and "1 \<le> f_limit f" and "rows = listed_rows P d f category brand admin"
  shows "concat (map (\<lambda>k. listed_page P d (f\<lparr>f_page := int k\<rparr>) category brand admin) [1..<Suc n]) =
      take (n * nat (f_limit f)) rows \<and>
    distinct (map li_id rows) \<and> set rows = set (filtered P d f category brand admin) \<and>
    sorted_wrt (in_order P (f_sort f)) rows"
proof -
  have "listed_page P d (f\<lparr>f_page := int k\<rparr>) category brand admin = page_rows (int k) (f_limit f) rows" for k
    by (simp add: listed_page_def listed_rows_def assms(3))
  moreover have "distinct (map li_id (filtered P d f category brand admin))"
    using assms(1) by (intro filtered_distinct) (simp_all add: catalog_ok_def products_ok_def texts_ok_def)
  then have "distinct (map li_id rows)"
    unfolding assms(3) listed_rows_def by (metis distinct_map distinct_sort set_sort)
  ultimately show ?thesis
    using pages_append [OF assms(2)] listed_rows_order [of P f d category brand admin] assms(3)
    by (simp add: listed_rows_def del: upt_Suc)
qed

text \<open>
  C19. A search by name has no wildcards.  The pattern the query builds matches a name exactly
  when the name contains the text as typed (up to case), also when that text holds percent
  signs, underscores or backslashes; \<open>fold_case\<close> is only assumed to leave those alone.
\<close>

theorem search_is_literal:
  assumes "fold_case P (''%'' @ like_escape q @ ''%'') = ''%'' @ like_escape (fold_case P q) @ ''%''"
  shows "ilike P name (''%'' @ like_escape q @ ''%'') \<longleftrightarrow> sublist (fold_case P q) (fold_case P name)"
  unfolding ilike_def assms by (rule like_contains)

theorem search_is_literal_witness: "\<not> ilike sample_postgres ''Ceainic'' (''%'' @ like_escape ''50%'' @ ''%'')"
proof -
  have "fold_case sample_postgres (''%'' @ like_escape ''50%'' @ ''%'') = ''%'' @ like_escape (fold_case sample_postgres ''50%'') @ ''%''"
    by code_simp
  note iff = search_is_literal [OF this, of "''Ceainic''"]
  have "fold_case sample_postgres ''50%'' = ''50%''" "fold_case sample_postgres ''Ceainic'' = ''ceainic''" by code_simp+
  then show ?thesis unfolding iff by (simp add: sublist_Cons_right)
qed

subsection \<open>Examples\<close>

definition sample_catalog_world :: world where
  "sample_catalog_world = \<lparr>w_db = sample_db1, w_fates = [], w_objects = [], w_transfers = [], w_random = 0\<rparr>"

lemma sample_db1_ok: "catalog_ok sample_db1"
proof -
  obtain r where r: "catalog_save sample_postgres sample_draft sample_admin ''r1'' None 0 sample_db = Inr (r, sample_db1)"
      "\<not> has_key r ''failure''" using sample_commit by blast
  from committed_keeps [OF committed_iff [OF r(1), THEN iffD2, OF r(2)] sample_db_ok] show ?thesis .
qed

lemma sample_catalog_world_facts:
  "w_db sample_catalog_world = sample_db1" "w_fates sample_catalog_world = []" "countable_rows sample_db1"
  by (simp_all add: sample_catalog_world_def countable_rows_def sample_db1_def sample_rows_def)

lemma sample_filter: "parse_filter (sample_request\<lparr>get_parameter := (\<lambda>_. [])\<rparr>) = Inr \<lparr>f_locale = ''ru'', f_query = [],
    f_category = [], f_brand = [], f_sort = ''newest'', f_page = 1, f_limit = 12, f_min_price = 0, f_max_price = 100000000\<rparr>"
  by (simp add: parse_filter_def sample_request_def integer_def throw_if_def Let_def)

lemma service_save_all_or_nothing_witness:
  "service_save sample_jsoncpp sample_postgres JNull sample_admin sample_admin [] 0 sample_catalog_world =
     (Inl (validation_failed ''A product object is required''), sample_catalog_world)"
proof -
  have run: "service_save sample_jsoncpp sample_postgres JNull sample_admin sample_admin [] 0 sample_catalog_world =
     (Inl (validation_failed ''A product object is required''),
      snd (service_save sample_jsoncpp sample_postgres JNull sample_admin sample_admin [] 0 sample_catalog_world))"
    by (simp add: service_save_def bind_act_simp validate_draft_def)
  from service_save_all_or_nothing [OF sample_jsoncpp_ok sample_postgres_ok _ _ run] run show ?thesis
    by (simp add: sample_catalog_world_facts sample_db1_ok)
qed

theorem public_list_safe_witness:
  "\<exists>items v. service_list sample_jsoncpp sample_postgres \<lparr>f_locale = ''ru'', f_query = [], f_category = [],
     f_brand = [], f_sort = ''newest'', f_page = 1, f_limit = 12, f_min_price = 0, f_max_price = 100000000\<rparr> False sample_catalog_world =
     (Inr v, sample_catalog_world) \<and> member (members_of v) ''items'' = JArr items \<and> length items \<le> 48"
  using public_list_safe [OF sample_jsoncpp_ok sample_postgres_ok _ _ sample_filter, of sample_catalog_world]
  by (auto simp: sample_catalog_world_facts sample_db1_ok)

theorem public_find_visible_witness:
  "\<exists>v. service_find sample_jsoncpp sample_postgres ''kettle'' False sample_catalog_world = (Inr v, sample_catalog_world)"
  using public_find_visible [OF sample_jsoncpp_ok sample_postgres_ok, of sample_catalog_world "''kettle''"] sample_db1_ok
  by (auto simp: sample_catalog_world_facts sample_db1_def sample_rows_def visible_product_def)

theorem search_pages_witness:
  "distinct (map li_id (listed_rows sample_postgres sample_db1 \<lparr>f_locale = ''ru'', f_query = [], f_category = [],
     f_brand = [], f_sort = ''newest'', f_page = 1, f_limit = 12, f_min_price = 0, f_max_price = 100000000\<rparr> None None False))"
  using search_pages [OF sample_db1_ok _ refl, of "\<lparr>f_locale = ''ru'', f_query = [], f_category = [],
     f_brand = [], f_sort = ''newest'', f_page = 1, f_limit = 12, f_min_price = 0, f_max_price = 100000000\<rparr>"] by simp

end
