(* ===== verification/Catalog_Rows.thy ===== *)
theory Catalog_Rows
  imports Catalog_History
begin

text \<open>
  The rows that a successful \<open>catalog_save\<close> leaves for its product: each element of the draft's
  \<open>variants\<close> has its variant and attribute values, and the links, texts and images are those of
  the draft, in its order.
\<close>

subsection \<open>The rows of the draft's variants\<close>

text \<open>
  The identifiers that the elements of \<open>variants\<close> name.  What is asked of \<open>gen_random_uuid()\<close>: the next
  \<open>n\<close> identifiers it returns are different from each other, from those of the variants and from
  the given ones.
\<close>

definition given_keys :: "postgres \<Rightarrow> json list \<Rightarrow> string list" where
  "given_keys P items = List.map_filter (given_key P) items"

definition new_uuids :: "postgres \<Rightarrow> string list \<Rightarrow> nat \<Rightarrow> db \<Rightarrow> bool" where
  "new_uuids P ks n d \<longleftrightarrow> inj_on (random_uuid P) {uuid_counter d..<uuid_counter d + n} \<and>
     (\<forall>i \<in> {uuid_counter d..<uuid_counter d + n}. random_uuid P i \<notin> v_id ` set (variants d) \<union> set ks)"

text \<open>The rows that one element wrote, and that are still there.\<close>

definition row_stored :: "postgres \<Rightarrow> string \<Rightarrow> db \<Rightarrow> json \<Rightarrow> string \<Rightarrow> bool" where
  "row_stored P key d item k \<longleftrightarrow> (\<exists>w ms. w \<in> set (variants d) \<and> v_id w = k \<and> v_product w = key \<and> item_columns P item w \<and>
     (\<forall>k'. given_key P item = Some k' \<longrightarrow> k = k') \<and> object_members (field item ''attributes'') = Inr ms \<and>
     list_all2 (value_of P k) ms (filter (\<lambda>a. a_variant a = k) (attribute_values d)))"

lemma given_keys_simps [simp]:
  "given_keys P [] = []"
  "given_keys P (x # xs) = (case given_key P x of None \<Rightarrow> given_keys P xs | Some k \<Rightarrow> k # given_keys P xs)"
  by (simp_all add: given_keys_def List.map_filter_def split: option.splits)

lemma put_variant_mem:
  assumes "distinct (map v_id vs)" "\<forall>v \<in> set vs. v_id v = v_id w \<longrightarrow> v_product v = v_product w"
  shows "w \<in> set (put_variant w vs)"
proof (cases "v_id w \<in> v_id ` set vs")
  case True
  then obtain v where "v \<in> set vs" "v_id v = v_id w" by auto
  moreover from this assms(2) have "w\<lparr>v_product := v_product v\<rparr> = w" by simp
  ultimately show ?thesis using True by (auto simp: put_variant_def image_iff intro: rev_bexI [of v])
qed (simp add: put_variant_def)

lemma put_variant_other: "v \<in> set vs \<Longrightarrow> v_id v \<noteq> v_id w \<Longrightarrow> v \<in> set (put_variant w vs)"
  by (auto simp: put_variant_def)

text \<open>One turn of the loop: it stores its element and keeps what is stored under other keys.\<close>

definition turn_key :: "postgres \<Rightarrow> json \<Rightarrow> db \<Rightarrow> db \<Rightarrow> string \<Rightarrow> bool" where
  "turn_key P item d d' k \<longleftrightarrow> (case given_key P item of
     Some k' \<Rightarrow> k = k' \<and> uuid_counter d' = uuid_counter d
   | None \<Rightarrow> k = random_uuid P (uuid_counter d) \<and> uuid_counter d' = Suc (uuid_counter d))"

lemma save_variant_stored:
  assumes "save_variant P key item (ks, d) = Inr (ks', d')"
    and ids: "distinct (map v_id (variants d))" and new: "new_uuids P given (Suc n) d"
  shows "\<exists>k. ks' = ks @ [k] \<and> turn_key P item d d' k \<and> row_stored P key d' item k \<and>
      v_id ` set (variants d') = insert k (v_id ` set (variants d)) \<and> distinct (map v_id (variants d')) \<and>
      (\<forall>i j. j \<noteq> k \<longrightarrow> row_stored P key d i j \<longrightarrow> row_stored P key d' i j)"
proof -
  from save_variant_Inr [OF assms(1)] obtain w ms as d1 where s:
      "variant_key P item d (v_id w, d1)" "ks' = ks @ [v_id w]" "v_product w = key" "item_columns P item w"
      "has_key item ''id'' \<longrightarrow> (\<exists>v \<in> set (variants d). v_id v = v_id w \<and> v_product v = key)"
      "object_members (field item ''attributes'') = Inr ms" "list_all2 (value_of P (v_id w)) ms as"
      "d' = d1\<lparr>variants := put_variant w (variants d),
              attribute_values := filter (\<lambda>a. a_variant a \<noteq> v_id w) (attribute_values d) @ as\<rparr>" by blast
  have key: "turn_key P item d d' (v_id w)"
    using s(1) by (auto simp: turn_key_def given_key_def variant_key_def s(8))
  have own: "\<forall>v \<in> set (variants d). v_id v = v_id w \<longrightarrow> v_product v = v_product w"
  proof (cases "has_key item ''id''")
    case True
    with s(3,5) ids show ?thesis by (auto simp: distinct_map inj_on_def)
  next
    case False
    then have "field_text P item ''id'' = None" by (simp add: no_key_no_field field_text_def)
    with s(1) have "v_id w = random_uuid P (uuid_counter d)" by (simp add: variant_key_def)
    with new have "v_id w \<notin> v_id ` set (variants d)" by (simp add: new_uuids_def)
    then show ?thesis by (metis imageI)
  qed
  have as: "filter (\<lambda>a. a_variant a = v_id w) as = as" "\<And>j. j \<noteq> v_id w \<Longrightarrow> filter (\<lambda>a. a_variant a = j) as = []"
    using s(7) by (auto simp: list_all2_conv_all_nth filter_empty_conv filter_id_conv in_set_conv_nth value_of_def)
  have vals: "filter (\<lambda>a. a_variant a = j) (attribute_values d') =
      (if j = v_id w then as else filter (\<lambda>a. a_variant a = j) (attribute_values d))" for j
    using as by (auto simp: s(8) filter_empty_conv intro!: filter_cong)
  from key have "\<forall>k'. given_key P item = Some k' \<longrightarrow> v_id w = k'" by (auto simp: turn_key_def)
  then have "row_stored P key d' item (v_id w)"
    unfolding row_stored_def vals using s(3,4,6,7) put_variant_mem [OF ids own]
    by (intro exI [of _ w] exI [of _ ms]) (simp add: s(8))
  moreover have "row_stored P key d' i j" if "j \<noteq> v_id w" "row_stored P key d i j" for i j
    using that put_variant_other [of _ "variants d" w] unfolding row_stored_def vals by (auto simp: s(8))
  ultimately show ?thesis
    using key s(2) put_variant_ids [of w "variants d"] put_variant_distinct [OF ids, of w]
    by (intro exI [of _ "v_id w"]) (simp add: s(8))
qed

lemma new_uuids_step:
  assumes new: "new_uuids P given (Suc n) d" and "turn_key P item d d' k" and "given_key P item = Some k \<longrightarrow> k \<in> set given"
    and "v_id ` set (variants d') = insert k (v_id ` set (variants d))"
  shows "new_uuids P given n d' \<and> k \<notin> random_uuid P ` {uuid_counter d'..<uuid_counter d' + n}"
proof -
  let ?I = "{uuid_counter d..<uuid_counter d + Suc n}" and ?J = "{uuid_counter d'..<uuid_counter d' + n}"
  have sub: "?J \<subseteq> ?I" using assms(2) by (auto simp: turn_key_def split: option.splits)
  have other: "random_uuid P i \<noteq> k" if i: "i \<in> ?J" for i
  proof (cases "given_key P item")
    case None
    with assms(2) i have "k = random_uuid P (uuid_counter d)" "i \<noteq> uuid_counter d" by (auto simp: turn_key_def)
    moreover have "uuid_counter d \<in> ?I" "i \<in> ?I" using sub i by auto
    ultimately show ?thesis using new by (metis new_uuids_def inj_onD)
  next
    case (Some k')
    with assms(2,3) have "k \<in> set given" by (simp add: turn_key_def)
    with new sub i show ?thesis by (auto simp: new_uuids_def)
  qed
  have "inj_on (random_uuid P) ?J"
    by (rule inj_on_subset [OF _ sub]) (use new in \<open>simp add: new_uuids_def\<close>)
  moreover have "\<forall>i \<in> ?J. random_uuid P i \<notin> v_id ` set (variants d) \<union> set given"
    using new sub unfolding new_uuids_def by blast
  ultimately have "new_uuids P given n d'" using assms(4) other unfolding new_uuids_def by simp
  with other show ?thesis by blast
qed

lemma fold_variants_stored:
  assumes "fold_res (save_variant P key) items (ks, d) = Inr (ks', d')"
    and "distinct (map v_id (variants d))" and "new_uuids P given (length items) d"
    and "set (given_keys P items) \<subseteq> set given" and "distinct (given_keys P items)"
  shows "\<exists>new. ks' = ks @ new \<and> list_all2 (row_stored P key d') items new \<and>
      set new \<subseteq> set (given_keys P items) \<union> random_uuid P ` {uuid_counter d..<uuid_counter d + length items} \<and>
      (\<forall>i j. j \<notin> set new \<longrightarrow> row_stored P key d i j \<longrightarrow> row_stored P key d' i j)"
  using assms
proof (induction items arbitrary: ks d)
  case (Cons x xs)
  then obtain ks1 d1 where step: "save_variant P key x (ks, d) = Inr (ks1, d1)"
      "fold_res (save_variant P key) xs (ks1, d1) = Inr (ks', d')"
    by (auto simp: bind_res_eq_Inr)
  have now: "new_uuids P given (Suc (length xs)) d" using Cons.prems(3) by simp
  from save_variant_stored [OF step(1) Cons.prems(2) now] obtain k where k: "ks1 = ks @ [k]" "turn_key P x d d1 k"
      "row_stored P key d1 x k" "v_id ` set (variants d1) = insert k (v_id ` set (variants d))"
      "distinct (map v_id (variants d1))" "\<And>i j. j \<noteq> k \<Longrightarrow> row_stored P key d i j \<Longrightarrow> row_stored P key d1 i j" by blast
  have given: "given_key P x = Some k \<longrightarrow> k \<in> set given" using Cons.prems(4) by auto
  from new_uuids_step [OF now k(2) given k(4)] have fresh: "new_uuids P given (length xs) d1"
      "k \<notin> random_uuid P ` {uuid_counter d1..<uuid_counter d1 + length xs}" by auto
  have rest: "set (given_keys P xs) \<subseteq> set given" "distinct (given_keys P xs)"
    using Cons.prems(4,5) by (auto split: option.splits)
  from Cons.IH [OF step(2) k(5) fresh(1) rest] obtain new where new: "ks' = ks1 @ new"
      "list_all2 (row_stored P key d') xs new"
      "set new \<subseteq> set (given_keys P xs) \<union> random_uuid P ` {uuid_counter d1..<uuid_counter d1 + length xs}"
      "\<And>i j. j \<notin> set new \<Longrightarrow> row_stored P key d1 i j \<Longrightarrow> row_stored P key d' i j" by blast
  have k_given: "k \<notin> set (given_keys P xs)"
  proof (cases "given_key P x")
    case None
    with k(2) have "k = random_uuid P (uuid_counter d)" by (simp add: turn_key_def)
    with now rest(1) show ?thesis by (auto simp: new_uuids_def)
  next
    case (Some k')
    with k(2) Cons.prems(5) show ?thesis by (simp add: turn_key_def)
  qed
  with new(3) fresh(2) have "k \<notin> set new" by blast
  with new(4) k(3) have "row_stored P key d' x k" by blast
  moreover have "{uuid_counter d1..<uuid_counter d1 + length xs} \<subseteq> {uuid_counter d..<uuid_counter d + Suc (length xs)}"
      "k \<in> set (given_keys P (x # xs)) \<union> random_uuid P ` {uuid_counter d..<uuid_counter d + Suc (length xs)}"
    using k(2) by (auto simp: turn_key_def split: option.splits)
  then have "set (k # new) \<subseteq> set (given_keys P (x # xs)) \<union>
      random_uuid P ` {uuid_counter d..<uuid_counter d + Suc (length xs)}"
    using new(3) by (auto split: option.splits)
  ultimately show ?case
    using k(1,6) new by (intro exI [of _ "k # new"]) simp
qed simp

subsection \<open>The rows of the product after a commit\<close>

lemma new_uuids_later:
  assumes "new_uuids P given (m + n) d" "variants e = variants d" "uuid_counter d \<le> uuid_counter e"
    "uuid_counter e \<le> uuid_counter d + m"
  shows "new_uuids P given n e"
proof -
  have sub: "{uuid_counter e..<uuid_counter e + n} \<subseteq> {uuid_counter d..<uuid_counter d + (m + n)}"
    using assms(3,4) by auto
  have "inj_on (random_uuid P) {uuid_counter e..<uuid_counter e + n}"
    by (rule inj_on_subset [OF _ sub]) (use assms(1) in \<open>simp add: new_uuids_def\<close>)
  with assms(1,2) sub show ?thesis unfolding new_uuids_def by auto
qed

lemma stored_retire:
  assumes "row_stored P key d3 item k" "k \<in> set retained"
    and "variants d' = variants (retire_variants key retained d3)" "attribute_values d' = attribute_values d3"
  shows "row_stored P key d' item k"
proof -
  have "w \<in> set (variants d')" if "w \<in> set (variants d3)" "v_id w = k" for w
    using that assms(2,3) by (auto simp: retire_variants_def image_iff intro: bexI [of _ w])
  with assms(1,4) show ?thesis unfolding row_stored_def by auto
qed

lemma committed_stored:
  assumes c: "committed P doc actor corr target expected d r d'" and ok: "catalog_ok d"
    and items: "array_elements (field doc ''variants'') = Inr items"
    and new: "new_uuids P (given_keys P items) (Suc (length items)) d" and "distinct (given_keys P items)"
  shows "\<exists>ks. list_all2 (row_stored P (product_key P target d) d') items ks \<and>
      (\<forall>v \<in> set (variants d'). v_product v = product_key P target d \<longrightarrow> v_active v \<longrightarrow> v_id v \<in> set ks)"
proof -
  let ?key = "product_key P target d"
  from committed_parts [OF c] obtain previous d0 where s:
      "save_parts P doc actor corr target previous ?key d0 = Inr (r, d')"
      "d0 = d\<lparr>uuid_counter := uuid_counter d0, products := products d0\<rparr>" "uuid_counter d \<le> uuid_counter d0"
      "uuid_counter d0 \<le> uuid_counter d + 1"
    by (auto split: option.splits)
  have d0: "variants d0 = variants d" by (subst s(2), simp)
  from save_parts_variants [OF s(1)] items obtain retained d2 d3 where v:
      "fold_res (save_variant P ?key) items ([], d2) = Inr (retained, d3)"
      "variants d2 = variants d0" "uuid_counter d2 = uuid_counter d0"
      "variants d' = variants (retire_variants ?key retained d3)" "attribute_values d' = attribute_values d3" by auto
  have ids: "distinct (map v_id (variants d2))" using ok v(2) d0 by (simp add: catalog_ok_def variants_ok_def)
  have "new_uuids P (given_keys P items) (length items) d2"
    by (rule new_uuids_later [of _ _ 1]) (use new v(2,3) d0 s(3,4) in simp_all)
  from fold_variants_stored [OF v(1) ids this subset_refl assms(5)]
  have "list_all2 (row_stored P ?key d3) items retained" by auto
  then have "list_all2 (row_stored P ?key d') items retained"
    by (rule list.rel_mono_strong) (rule stored_retire [OF _ _ v(4,5)])
  moreover have "\<forall>v \<in> set (variants d'). v_product v = ?key \<longrightarrow> v_active v \<longrightarrow> v_id v \<in> set retained"
    unfolding v(4) by (auto simp: retire_variants_def)
  ultimately show ?thesis by blast
qed

lemma committed_rows:
  assumes c: "committed P doc actor corr target expected d r d'"
  shows "\<exists>xs ms ys. array_elements (field doc ''categoryIds'') = Inr xs \<and>
      list_all2 (uuid_of P) xs (map snd (filter (\<lambda>(q, _). q = product_key P target d) (product_categories d'))) \<and>
      object_members (field doc ''translations'') = Inr ms \<and>
      list_all2 (text_row P (product_key P target d)) ms
        (filter (\<lambda>t. t_product t = product_key P target d) (product_texts d')) \<and>
      array_elements (field doc ''mediaIds'') = Inr ys \<and>
      list_all2 (image_row_of P (product_key P target d)) (zip ys (map int [0..<length ys]))
        (filter (\<lambda>i. i_product i = product_key P target d) (images d'))"
proof -
  let ?key = "product_key P target d"
  from committed_parts [OF c] obtain previous d0 where
      "save_parts P doc actor corr target previous ?key d0 = Inr (r, d')" by blast
  then obtain d1 d2 items retained d3 d4 row where s:
    "write_categories P doc ?key d0 = Inr d1" "write_texts P doc ?key d1 = Inr d2"
    "fold_res (save_variant P ?key) items ([], d2) = Inr (retained, d3)"
    "write_images P doc ?key (retire_variants ?key retained d3) = Inr d4" "insert_audit row d4 = Inr d'"
    by (rule save_parts_Inr)
  note loop = loop_frame_tables [OF fold_variants_frame [OF s(3)]]
  from write_categories_Inr [OF s(1)] obtain xs cs where cs: "array_elements (field doc ''categoryIds'') = Inr xs"
      "list_all2 (uuid_of P) xs cs"
      "d1 = d0\<lparr>product_categories := filter (\<lambda>(q, _). q \<noteq> ?key) (product_categories d0) @ map (Pair ?key) cs\<rparr>" by blast
  from write_texts_Inr [OF s(2)] obtain ms ts where ts: "object_members (field doc ''translations'') = Inr ms"
      "list_all2 (text_row P ?key) ms ts"
      "d2 = d1\<lparr>product_texts := filter (\<lambda>t. t_product t \<noteq> ?key) (product_texts d1) @ ts\<rparr>" by blast
  from write_images_Inr [OF s(4)] obtain ys "is" where is': "array_elements (field doc ''mediaIds'') = Inr ys"
      "list_all2 (image_row_of P ?key) (zip ys (map int [0..<length ys])) is"
      "d4 = (retire_variants ?key retained d3)\<lparr>images := filter (\<lambda>i. i_product i \<noteq> ?key) (images (retire_variants ?key retained d3)) @ is\<rparr>" by blast
  have d': "product_categories d' = product_categories d1" "product_texts d' = product_texts d2" "images d' = images d4"
    using s(5) is'(3) ts(3) loop by (auto simp: insert_audit_Inr retire_variants_def)
  have "\<forall>t \<in> set ts. t_product t = ?key" "\<forall>i \<in> set is. i_product i = ?key"
    using ts(2) is'(2) by (auto simp: list_all2_conv_all_nth in_set_conv_nth text_row_def image_row_of_def)
  then have "filter (\<lambda>t. t_product t = ?key) (product_texts d') = ts" "filter (\<lambda>i. i_product i = ?key) (images d') = is"
    by (simp_all add: d' ts(3) is'(3) filter_empty_conv filter_id_conv)
  moreover have "map snd (filter (\<lambda>(q, _). q = ?key) (product_categories d')) = cs"
    by (simp add: d' cs(3) filter_empty_conv filter_map comp_def case_prod_unfold)
  ultimately show ?thesis using cs(1,2) ts(1,2) is'(1,2)
    by (intro exI [of _ xs] exI [of _ ms] exI [of _ ys]) simp
qed

text \<open>
  Two elements that name one identifier (in two spellings, say) write to one row: the later one
  overwrites the earlier, without an error.
\<close>

lemma same_key_overwrites:
  assumes "save_variant P key first (ks, d) = Inr (ks1, d1)" and "save_variant P key second (ks1, d1) = Inr (ks2, d2)"
    and "given_key P first = Some k" and "given_key P second = Some k"
  shows "v_id ` set (variants d2) = v_id ` set (variants d1) \<and> k \<in> v_id ` set (variants d2) \<and>
    (\<forall>v \<in> set (variants d2). v_id v = k \<longrightarrow> item_columns P second v)"
proof -
  have turn: "\<exists>w. v_id w = k \<and> item_columns P item w \<and> variants e' = put_variant w (variants e)"
    if "save_variant P key item (js, e) = Inr (js', e')" "given_key P item = Some k" for item js e js' e'
    using save_variant_Inr [OF that(1)] that(2) by (force simp: variant_key_def given_key_def)
  from turn [OF assms(1,3)] obtain w1 where w1: "v_id w1 = k" "variants d1 = put_variant w1 (variants d)" by blast
  from turn [OF assms(2,4)] obtain w where w: "v_id w = k" "item_columns P second w" "variants d2 = put_variant w (variants d1)" by blast
  have "k \<in> v_id ` set (variants d1)" using w1 put_variant_ids [of w1] by simp
  with w put_variant_ids [of w "variants d1"] show ?thesis by (auto simp: put_variant_def item_columns_def)
qed

end
