(* ===== verification/Catalog_Readback.thy ===== *)
theory Catalog_Readback
  imports Catalog_Views Catalog_Rows
begin

text \<open>
  The round trip of the editor: a draft that is saved comes back, in the reply of the save and in
  a later read, as the product document with its texts, its references and each of its variants.
\<close>

subsection \<open>The document against the draft\<close>

definition part :: "json \<Rightarrow> string \<Rightarrow> json" where
  "part v k = member (members_of v) k"

definition shows_translation :: "json \<Rightarrow> json \<Rightarrow> bool" where
  "shows_translation t u \<longleftrightarrow> (\<forall>k \<in> {''name'', ''description'', ''seoTitle'', ''seoDescription''}. part u k = part t k)"

definition shows_variant :: "json \<Rightarrow> json \<Rightarrow> bool" where
  "shows_variant item x \<longleftrightarrow> (\<forall>k \<in> {''sku'', ''name'', ''active'', ''attributes''}. part x k = part item k) \<and>
     (case part item ''priceMinor'' of JInt i \<Rightarrow> part x ''priceMinor'' = JInt i | _ \<Rightarrow> True) \<and>
     (case part item ''id'' of JStr s \<Rightarrow> part x ''id'' = JStr (lower s) | _ \<Rightarrow> True)"

definition same_uuid :: "json \<Rightarrow> json" where
  "same_uuid v = (case v of JStr s \<Rightarrow> JStr (lower s) | _ \<Rightarrow> v)"

definition reads_back :: "json \<Rightarrow> json \<Rightarrow> bool" where
  "reads_back draft v \<longleftrightarrow>
     (\<forall>k \<in> {''slug'', ''status''}. part v k = part draft k) \<and>
     part v ''brandId'' = same_uuid (part draft ''brandId'') \<and>
     part v ''categoryIds'' = JArr (map JStr (sort (map (lower \<circ> str_of) (elements (part draft ''categoryIds''))))) \<and>
     map (\<lambda>i. part i ''id'') (elements (part v ''images'')) = map same_uuid (elements (part draft ''mediaIds'')) \<and>
     list_all2 (\<lambda>(l, t) (l', u). l' = l \<and> shows_translation t u)
       (members_of (part draft ''translations'')) (members_of (part v ''translations'')) \<and>
     (\<forall>item \<in> set (elements (part draft ''variants'')). \<exists>x \<in> set (elements (part v ''variants'')). shows_variant item x) \<and>
     (\<forall>x \<in> set (elements (part v ''variants'')). active_of x \<longrightarrow>
        (\<exists>item \<in> set (elements (part draft ''variants'')). shows_variant item x)) \<and>
     distinct (map sku_of (elements (part v ''variants'')))"

lemma field_text_str: "member m k = JStr s \<Longrightarrow> field_text P (JObj m) k = Some s"
  by (auto simp: member_def field_text_def split: option.splits)

lemma uuid_of_str: "postgres_ok J P \<Longrightarrow> uuid s \<Longrightarrow> uuid_of P (JStr s) c \<longleftrightarrow> c = lower s"
  by (auto simp: uuid_of_def postgres_ok_def)

lemma uuid_rows:
  assumes "postgres_ok J P" "list_all uuid ss"
  shows "list_all2 (uuid_of P) (map JStr ss) cs \<longleftrightarrow> cs = map lower ss"
  using assms(2)
proof (induction ss arbitrary: cs)
  case (Cons s ss)
  then show ?case by (cases cs) (simp_all add: uuid_of_str [OF assms(1)])
qed simp

lemma image_rows:
  assumes "list_all2 (image_row_of P key) (zip ys (map int [0..<length ys])) is"
  shows "sort_key i_position is = is" "list_all2 (uuid_of P) ys (map i_media is)"
proof -
  have n: "length is = length ys" using assms by (simp add: list_all2_lengthD [symmetric])
  have rows: "i_position (is ! i) = int i \<and> uuid_of P (ys ! i) (i_media (is ! i))" if "i < length ys" for i
    using list_all2_nthD [OF assms, of i] that by (simp add: image_row_of_def)
  have "map i_position is = map int [0..<length ys]"
    by (rule nth_equalityI) (simp_all add: n rows)
  then have "sorted (map i_position is)" by (simp add: sorted_iff_nth_mono)
  then show "sort_key i_position is = is" by (rule sort_key_id_if_sorted)
  show "list_all2 (uuid_of P) ys (map i_media is)"
    by (rule list_all2_all_nthI) (simp_all add: n rows)
qed

text \<open>The parts of a well-formed, storable document are both, too.\<close>

lemma map_of_key: "v \<noteq> JNull \<Longrightarrow> member m k = v \<Longrightarrow> (k, v) \<in> set m"
  by (auto simp: member_def dest: map_of_SomeD split: option.splits)

lemma part_wf: "wf_json (JObj m) \<Longrightarrow> wf_json (member m k)"
  using map_of_key [of "member m k" m k] by (cases "member m k = JNull") (auto simp: list_all_iff)

lemma part_storable: "storable (JObj m) \<Longrightarrow> storable (member m k)"
  using map_of_key [of "member m k" m k] by (cases "member m k = JNull") (auto simp: list_all_iff)

lemma member_mem: "distinct (map fst m) \<Longrightarrow> (k, v) \<in> set m \<Longrightarrow> member m k = v"
  by (simp add: member_def)

lemma attribute_fits:
  assumes "valid_attributes (JObj as)" and "wf_json (JObj as)" and "storable (JObj as)" and e: "(k, v) \<in> set as"
  shows "storable (JStr k) \<and> storable v \<and> valid_text 1 300 v"
proof -
  have "c_str k = k" using e assms(3) by (auto simp: list_all_iff)
  then have "valid_text 1 300 (member as k)"
    using assms(1) e unfolding valid_attributes_def by (metis fst_conv image_eqI json.inject(6))
  moreover have "member as k = v" using e assms(2) by (intro member_mem) auto
  ultimately show ?thesis using e assms(3) by (auto simp: list_all_iff)
qed

lemma attribute_texts:
  assumes "valid_attributes (JObj as)" "wf_json (JObj as)" "storable (JObj as)"
  shows "\<forall>e \<in> set as. \<exists>s. snd e = JStr s"
  using attribute_fits [OF assms] by (force simp: valid_text_def)

lemma value_rows:
  assumes "list_all2 (value_of P k) ms as" "\<forall>e \<in> set ms. \<exists>s. snd e = JStr s"
  shows "map (\<lambda>a. (a_code a, JStr (a_value a))) as = ms"
  using assms by (induction rule: list_all2_induct) (auto simp: value_of_def)

lemma stored_shows:
  assumes J: "jsoncpp_ok J" and P: "postgres_ok J P" and item: "valid_variant J item" "wf_json item" "storable item"
    and "row_stored P key d item k"
  shows "\<exists>w \<in> set (variants d). v_id w = k \<and> v_product w = key \<and> shows_variant item (variant_json d w)"
proof -
  from item(1) obtain m where m: "item = JObj m" "valid_text 1 64 (member m ''sku'')" "valid_text 1 160 (member m ''name'')"
      "''id'' \<in> fst ` set m \<longrightarrow> (\<exists>s. member m ''id'' = JStr s \<and> uuid s)"
      "valid_price J (member m ''priceMinor'')" "is_bool (member m ''active'')"
      "valid_attributes (member m ''attributes'')"
    unfolding valid_variant_def by blast
  from assms(6) obtain w ms where w: "w \<in> set (variants d)" "v_id w = k" "v_product w = key" "item_columns P item w"
      "\<forall>k'. given_key P item = Some k' \<longrightarrow> k = k'"
      "object_members (field item ''attributes'') = Inr ms"
      "list_all2 (value_of P k) ms (filter (\<lambda>a. a_variant a = k) (attribute_values d))"
    unfolding row_stored_def by blast
  obtain sku name b as where v: "member m ''sku'' = JStr sku" "member m ''name'' = JStr name" "member m ''active'' = JBool b"
      "member m ''attributes'' = JObj as"
    using m(2,3,6,7) by (auto simp: valid_text_def is_bool_iff valid_attributes_def)
  have "field item ''attributes'' = Some (JObj as)"
    using v(4) m(1) by (auto simp: member_def split: option.splits)
  then have "ms = as" using w(6) by (simp add: object_members_def)
  with value_rows [OF w(7)] attribute_texts [of as] m(7) v(4) part_wf [of m "''attributes''"]
    part_storable [of m "''attributes''"] item(2,3) m(1)
  have attrs: "map (\<lambda>a. (a_code a, JStr (a_value a))) (filter (\<lambda>a. a_variant a = k) (attribute_values d)) = as" by simp
  have texts: "v_sku w = sku" "v_name w = name"
    using w(4) field_text_str [OF v(1), of P] field_text_str [OF v(2), of P] by (auto simp: item_columns_def m(1))
  have flag: "v_active w = b"
    using w(4) v(3) P by (auto simp: item_columns_def m(1) field_text_def member_def postgres_ok_def split: option.splits if_splits)
  have price: "v_price w = i" if "member m ''priceMinor'' = JInt i" for i
  proof -
    have "bigint_in P (decimal_text i) = Inr i"
      using m(5) that P J by (simp add: valid_price_def is_int64_JInt postgres_ok_def del: decimal_text.simps)
    moreover have "field_text P item ''priceMinor'' = Some (decimal_text i)"
      using that by (auto simp: m(1) field_text_def member_def simp del: decimal_text.simps split: option.splits)
    ultimately show ?thesis using w(4) by (simp add: item_columns_def del: decimal_text.simps)
  qed
  have id: "k = lower s" if "member m ''id'' = JStr s" for s
  proof -
    have "''id'' \<in> fst ` set m" using map_of_key [OF _ that] by force
    with m(4) that have "uuid s" by auto
    with P have "given_key P item = Some (lower s)"
      by (simp add: given_key_def m(1) field_text_str [OF that] postgres_ok_def)
    with w(5) show ?thesis by simp
  qed
  have "shows_variant item (variant_json d w)"
    using attrs texts flag price id v w(2)
    by (auto simp: shows_variant_def part_def variant_json_def m(1) split: json.splits)
  with w(1-3) show ?thesis by blast
qed

lemma text_rows:
  assumes "list_all2 (text_row P key) ms ts" "list_all (\<lambda>e. valid_translation (snd e)) ms"
  shows "list_all2 (\<lambda>(l, t) (l', u). l' = l \<and> shows_translation t u) ms (map translation_json ts)"
  using assms
proof (induction rule: list_all2_induct)
  case (Cons e es t ts)
  from Cons(4) obtain m where m: "snd e = JObj m" "valid_text 1 200 (member m ''name'')"
      "valid_text 0 20000 (member m ''description'')" "valid_text 0 200 (member m ''seoTitle'')"
      "valid_text 0 500 (member m ''seoDescription'')"
    by (auto simp: valid_translation_def)
  then obtain n de ti se where v: "member m ''name'' = JStr n" "member m ''description'' = JStr de"
      "member m ''seoTitle'' = JStr ti" "member m ''seoDescription'' = JStr se"
    by (auto simp: valid_text_def)
  from Cons(1) field_text_str [OF v(1), of P] field_text_str [OF v(2), of P] field_text_str [OF v(3), of P]
    field_text_str [OF v(4), of P]
  have "t_locale t = fst e \<and> t_name t = n \<and> t_description t = de \<and> t_seo_title t = ti \<and> t_seo_description t = se"
    by (simp add: text_row_def m(1))
  with Cons v show ?case
    by (auto simp: translation_json_def shows_translation_def part_def m(1) case_prod_unfold)
qed simp

lemma both_locale_names:
  assumes "length ts = 2" "distinct (map fst ts)" "valid_translation (member ts ''ru'')" "valid_translation (member ts ''ro'')"
  shows "set ts = {(''ru'', member ts ''ru''), (''ro'', member ts ''ro'')}"
proof -
  let ?two = "{(''ru'', member ts ''ru''), (''ro'', member ts ''ro'')}"
  have "member ts ''ru'' \<noteq> JNull" "member ts ''ro'' \<noteq> JNull" using assms(3,4) by (auto simp: valid_translation_def)
  then have sub: "?two \<subseteq> set ts" using map_of_key by force
  have "card (set ts) = card ?two" using assms(1,2) by (simp add: distinct_card distinct_map)
  with sub show ?thesis by (intro card_subset_eq [symmetric]) auto
qed

lemma both_locales:
  assumes "length ts = 2" "distinct (map fst ts)" "valid_translation (member ts ''ru'')" "valid_translation (member ts ''ro'')"
  shows "list_all (\<lambda>e. valid_translation (snd e)) ts"
  using both_locale_names [OF assms] assms(3,4) by (simp add: list_all_iff)

lemma given_keys_lower:
  assumes "postgres_ok J P" "list_all (valid_variant J) vs"
  shows "given_keys P vs = map lower (ids_of vs)"
  using assms(2)
proof (induction vs)
  case (Cons v vs)
  then obtain m where m: "v = JObj m" "''id'' \<in> fst ` set m \<longrightarrow> (\<exists>s. member m ''id'' = JStr s \<and> uuid s)"
    by (auto simp: valid_variant_def)
  have "given_key P v = map_option lower (id_of v)"
  proof (cases "''id'' \<in> fst ` set m")
    case True
    with m(2) obtain s where "member m ''id'' = JStr s" "uuid s" by blast
    with True assms(1) show ?thesis by (simp add: given_key_def id_of_def m(1) field_text_str postgres_ok_def)
  next
    case False
    then have "map_of m ''id'' = None" by (simp add: map_of_eq_None_iff)
    with False show ?thesis by (simp add: given_key_def id_of_def m(1) field_text_def)
  qed
  with Cons show ?case by (simp add: ids_of_def List.map_filter_def split: option.splits)
qed (simp add: ids_of_def)

lemma array_part: "member m k = JArr xs \<Longrightarrow> array_elements (field (JObj m) k) = Inr xs"
  by (auto simp: member_def array_elements_def split: option.splits)

lemma object_part: "member m k = JObj xs \<Longrightarrow> object_members (field (JObj m) k) = Inr xs"
  by (auto simp: member_def object_members_def split: option.splits)

text \<open>The parts of the document, over the rows.\<close>

lemma document_parts:
  assumes "catalog_document P d k = Some v"
  shows "\<exists>p. find_product d k = Some p \<and> part v ''slug'' = JStr (p_slug p) \<and> part v ''status'' = JStr (p_status p) \<and>
      part v ''brandId'' = json_option (p_brand p) \<and>
      part v ''categoryIds'' = JArr (map JStr (sort (map snd (filter (\<lambda>(q, _). q = k) (product_categories d))))) \<and>
      part v ''translations'' = JObj (map translation_json (filter (\<lambda>t. t_product t = k) (product_texts d))) \<and>
      part v ''variants'' = JArr (map (variant_json d)
         (sort_key (\<lambda>v. collation_key P (v_sku v)) (filter (\<lambda>v. v_product v = k) (variants d)))) \<and>
      part v ''images'' = JArr (map image_json (sort_key i_position (filter (\<lambda>i. i_product i = k) (images d))))"
  using assms by (auto simp: catalog_document_def part_def split: option.splits)

lemma variants_read_back:
  assumes J: "jsoncpp_ok J" and P: "postgres_ok J P"
    and c: "committed P (JObj m) actor corr target expected d r d'" and ok: "catalog_ok d"
    and vs: "member m ''variants'' = JArr vs" "list_all (valid_variant J) vs" "list_all wf_json vs" "list_all storable vs"
    and new: "new_uuids P (map lower (ids_of vs)) (Suc (length vs)) d" "distinct (map lower (ids_of vs))"
    and xs: "xs = map (variant_json d') (sort_key (\<lambda>v. collation_key P (v_sku v))
      (filter (\<lambda>v. v_product v = product_key P target d) (variants d')))"
  shows "(\<forall>item \<in> set vs. \<exists>x \<in> set xs. shows_variant item x) \<and>
      (\<forall>x \<in> set xs. active_of x \<longrightarrow> (\<exists>item \<in> set vs. shows_variant item x)) \<and> distinct (map sku_of xs)"
proof -
  let ?key = "product_key P target d"
  have unique: "distinct (map v_id (variants d'))" "distinct (map v_sku (variants d'))"
    using committed_keeps [OF c ok] by (simp_all add: catalog_ok_def variants_ok_def)
  obtain ks where ks: "list_all2 (row_stored P ?key d') vs ks"
      "\<forall>v \<in> set (variants d'). v_product v = ?key \<longrightarrow> v_active v \<longrightarrow> v_id v \<in> set ks"
    using committed_stored [OF c ok array_part [OF vs(1)]] new unfolding given_keys_lower [OF P vs(2)] by blast
  have shown: "\<exists>w \<in> set (variants d'). v_id w = ks ! i \<and> v_product w = ?key \<and> shows_variant (vs ! i) (variant_json d' w)"
    if "i < length vs" for i
    using that vs(2-4) by (intro stored_shows [OF J P _ _ _ list_all2_nthD [OF ks(1) that]]) (auto simp: list_all_length)
  have set_xs: "set xs = variant_json d' ` {v \<in> set (variants d'). v_product v = ?key}" by (simp add: xs)
  have "map sku_of xs = map v_sku (sort_key (\<lambda>v. collation_key P (v_sku v)) (filter (\<lambda>v. v_product v = ?key) (variants d')))"
    by (simp add: xs sku_of_def variant_json_def)
  moreover have "distinct (map v_sku (sort_key f zs)) \<longleftrightarrow> distinct (map v_sku zs)" for f :: "variant_row \<Rightarrow> string" and zs
    by (simp add: distinct_map)
  ultimately have skus: "distinct (map sku_of xs)" using distinct_map_filter [OF unique(2)] by simp
  have "\<exists>x \<in> set xs. shows_variant item x" if item: "item \<in> set vs" for item
  proof -
    from item obtain i where i: "i < length vs" "item = vs ! i" by (auto simp: in_set_conv_nth)
    from shown [OF i(1)] show ?thesis unfolding set_xs i(2) by blast
  qed
  moreover have "\<exists>item \<in> set vs. shows_variant item x" if x: "x \<in> set xs" "active_of x" for x
  proof -
    from x obtain v where v: "v \<in> set (variants d')" "v_product v = ?key" "v_active v" "x = variant_json d' v"
      by (auto simp: set_xs)
    with ks(2) obtain i where i: "i < length ks" "v_id v = ks ! i" by (metis in_set_conv_nth)
    have n: "i < length vs" using i(1) list_all2_lengthD [OF ks(1)] by simp
    from shown [OF n] obtain w where w: "w \<in> set (variants d')" "v_id w = v_id v" "shows_variant (vs ! i) (variant_json d' w)"
      using i(2) by auto
    with unique(1) v(1) have "w = v" by (auto simp: distinct_map inj_on_def)
    with w(3) v(4) n show ?thesis by auto
  qed
  ultimately show ?thesis using skus by blast
qed

lemma references_read_back:
  assumes P: "postgres_ok J P" and c: "committed P (JObj m) actor corr target expected d r d'"
    and cats: "member m ''categoryIds'' = JArr (map JStr cs)" "list_all uuid cs"
    and imgs: "member m ''mediaIds'' = JArr (map JStr ys)" "list_all uuid ys"
  shows "map snd (filter (\<lambda>(q, _). q = product_key P target d) (product_categories d')) = map lower cs"
    "map i_media (sort_key i_position (filter (\<lambda>i. i_product i = product_key P target d) (images d'))) = map lower ys"
proof -
  let ?is = "filter (\<lambda>i. i_product i = product_key P target d) (images d')"
  from committed_rows [OF c] have rows:
      "list_all2 (uuid_of P) (map JStr cs) (map snd (filter (\<lambda>(q, _). q = product_key P target d) (product_categories d')))"
      "list_all2 (image_row_of P (product_key P target d)) (zip (map JStr ys) (map int [0..<length (map JStr ys)])) ?is"
    using array_part [OF cats(1)] array_part [OF imgs(1)] by auto
  from rows(1) show "map snd (filter (\<lambda>(q, _). q = product_key P target d) (product_categories d')) = map lower cs"
    by (simp add: uuid_rows [OF P cats(2)])
  from image_rows [OF rows(2)] show "map i_media (sort_key i_position ?is) = map lower ys"
    by (simp add: uuid_rows [OF P imgs(2)])
qed

lemma texts_read_back:
  assumes c: "committed P (JObj m) actor corr target expected d r d'"
    and ts: "member m ''translations'' = JObj ts" "list_all (\<lambda>e. valid_translation (snd e)) ts"
  shows "list_all2 (\<lambda>(l, t) (l', u). l' = l \<and> shows_translation t u) ts
    (map translation_json (filter (\<lambda>t. t_product t = product_key P target d) (product_texts d')))"
proof -
  from committed_rows [OF c] object_part [OF ts(1)]
  have "list_all2 (text_row P (product_key P target d)) ts (filter (\<lambda>t. t_product t = product_key P target d) (product_texts d'))"
    by auto
  from text_rows [OF this ts(2)] show ?thesis .
qed

lemma brand_read_back:
  assumes P: "postgres_ok J P" and "cast (uuid_in P) (field_text P (JObj m) ''brandId'') = Inr b"
    and "member m ''brandId'' = JNull \<or> (\<exists>s. member m ''brandId'' = JStr s \<and> uuid s)"
  shows "json_option b = same_uuid (member m ''brandId'')"
  using assms(3)
proof
  assume null: "member m ''brandId'' = JNull"
  then have "field_text P (JObj m) ''brandId'' = None"
    by (auto simp: member_def field_text_def split: option.splits)
  with assms(2) null show ?thesis by (simp add: cast_def json_option_def same_uuid_def)
next
  assume "\<exists>s. member m ''brandId'' = JStr s \<and> uuid s"
  then obtain s where s: "member m ''brandId'' = JStr s" "uuid s" by blast
  with assms(2) P have "b = Some (lower s)"
    by (auto simp: field_text_str [OF s(1)] cast_def postgres_ok_def)
  with s(1) show ?thesis by (simp add: json_option_def same_uuid_def)
qed

lemma committed_reads_back:
  assumes J: "jsoncpp_ok J" and P: "postgres_ok J P" and "valid_draft J draft" and wf: "wf_json draft" and st: "storable draft"
    and c: "committed P draft actor corr target expected d v d'" and ok: "catalog_ok d"
    and new: "new_uuids P (map lower (ids_of (elements (part draft ''variants''))))
      (Suc (jsize (part draft ''variants''))) d"
      "distinct (map lower (ids_of (elements (part draft ''variants''))))"
  shows "reads_back draft v"
proof -
  from assms(3) obtain m ts vs where m: "draft = JObj m" "valid_text 1 160 (member m ''slug'')"
      "member m ''status'' \<in> {JStr ''draft'', JStr ''active'', JStr ''archived''}"
      "member m ''brandId'' = JNull \<or> (\<exists>b. member m ''brandId'' = JStr b \<and> uuid b)"
      "valid_ids 1 10 (member m ''categoryIds'')" "valid_ids 0 10 (member m ''mediaIds'')"
      "member m ''translations'' = JObj ts" "length ts = 2" "valid_translation (member ts ''ru'')" "valid_translation (member ts ''ro'')"
      "member m ''variants'' = JArr vs" "list_all (valid_variant J) vs"
    unfolding valid_draft_def valid_variants_def by blast
  obtain sl st cs ys where str: "member m ''slug'' = JStr sl" "member m ''status'' = JStr st"
      "member m ''categoryIds'' = JArr (map JStr cs)" "list_all uuid cs"
      "member m ''mediaIds'' = JArr (map JStr ys)" "list_all uuid ys"
    using m(2,3,5,6) by (auto simp: valid_text_def valid_ids_def)
  have deep: "wf_json (JObj ts)" "list_all wf_json vs" "list_all storable vs"
    using part_wf [of m "''translations''"] part_wf [of m "''variants''"] part_storable [of m "''variants''"] wf assms(5)
    by (simp_all add: m(1,7,11))
  let ?key = "product_key P target d"
  from committed_result [OF c] have doc: "catalog_document P d' ?key = Some v" by blast
  from document_parts [OF doc] obtain p where p: "find_product d' ?key = Some p"
      "part v ''slug'' = JStr (p_slug p)" "part v ''status'' = JStr (p_status p)" "part v ''brandId'' = json_option (p_brand p)"
      "part v ''categoryIds'' = JArr (map JStr (sort (map snd (filter (\<lambda>(q, _). q = ?key) (product_categories d')))))"
      "part v ''translations'' = JObj (map translation_json (filter (\<lambda>t. t_product t = ?key) (product_texts d')))"
      "part v ''variants'' = JArr (map (variant_json d')
         (sort_key (\<lambda>v. collation_key P (v_sku v)) (filter (\<lambda>v. v_product v = ?key) (variants d'))))"
      "part v ''images'' = JArr (map image_json (sort_key i_position (filter (\<lambda>i. i_product i = ?key) (images d'))))" by blast
  from committed_product [OF c] p(1) have row: "field_text P draft ''slug'' = Some (p_slug p)"
      "field_text P draft ''status'' = Some (p_status p)"
      "cast (uuid_in P) (field_text P draft ''brandId'') = Inr (p_brand p)" by auto
  have scalars: "p_slug p = sl" "p_status p = st"
    using row(1,2) field_text_str [OF str(1), of P] field_text_str [OF str(2), of P] by (simp_all add: m(1))
  note vars = variants_read_back [OF J P c [unfolded m(1)] ok m(11,12) deep(2,3) _ _ refl]
  have "distinct (map fst ts)" using deep(1) by simp
  note texts = texts_read_back [OF c [unfolded m(1)] m(7) both_locales [OF m(8) this m(9,10)]]
  note refs = references_read_back [OF P c [unfolded m(1)] str(3-6)]
  have images: "map (\<lambda>i. part i ''id'') (map image_json zs) = map JStr (map i_media zs)" for zs
    by (simp add: part_def image_json_def)
  have draft: "part draft k = member m k" for k by (simp add: part_def m(1))
  have lowers: "map (lower \<circ> str_of) (map JStr cs) = map lower cs" "map same_uuid (map JStr ys) = map JStr (map lower ys)"
    by (simp_all add: same_uuid_def)
  show ?thesis
    unfolding reads_back_def draft p(4-8) str m(7,11) elements.simps members_of.simps images refs lowers
    using vars new texts brand_read_back [OF P row(3) [unfolded m(1)] m(4)]
    by (simp add: p(2,3) scalars str draft m(11) jsize_def)
qed

subsection \<open>Reading a product by its identifier\<close>

lemma service_find_admin:
  assumes P: "postgres_ok J P" and ok: "catalog_ok (w_db w)" and "w_fates w = []" and key: "uuid key"
    and doc: "catalog_document P (w_db w) (lower key) = Some v"
  shows "service_find J P key True w = (Inr v, w)"
proof -
  obtain p where p: "find_product (w_db w) (lower key) = Some p"
    using doc by (auto simp: catalog_document_def split: option.splits)
  from find_filter [OF p [unfolded find_product_def]] find_product_id [OF p] obtain ps where
    rows: "filter (\<lambda>p. p_id p = lower key) (products (w_db w)) = p # ps" "p_id p = lower key" by blast
  have "exec_sql (find_statement P key True) w = (Inr (map (\<lambda>p. jsonb_out P (json_or_null (catalog_document P (w_db w) (p_id p))))
      (p # ps)), w)"
    using P key assms(3) rows(1) by (simp add: exec_sql_served find_statement_def cast_def not_null_def postgres_ok_def)
  moreover have "decode J (jsonb_out P v) = Inr v" by (rule decode_out [OF P document_wf [OF ok doc]])
  moreover have "\<not> is_null v" using document_object [OF doc] by (metis is_null.simps(7))
  ultimately show ?thesis
    using key uuid_length [OF key] uuid_nonempty [OF key] rows(2) doc
    by (simp add: service_find_def repository_find_def bind_act_simp json_or_null_def)
qed

subsection \<open>Properties\<close>

text \<open>
  C12. What is saved is what is read back.  When the service has saved a draft, its reply is the
  document of the product, reading the product by its identifier gives that document again, and
  the document holds the draft: slug and status, the brand, the categories (sorted), the images
  in their order, the four texts of each translation, and for each variant of the draft one with
  its SKU, name, price, flag, attributes and identifier; a variant of the document that no
  element of the draft describes is inactive.  UUIDs come back in lower case.  The draft must
  name no variant twice, and the generated UUIDs must be new.
\<close>

theorem saved_draft_reads_back:
  assumes "jsoncpp_ok J" and "postgres_ok J P" and "catalog_ok (w_db w)" and "w_fates w = []"
    and "service_save J P draft actor corr key revision w = (Inr v, w')"
    and "wf_json draft" and "uuids_ok P"
    and "new_uuids P (map lower (ids_of (elements (part draft ''variants'')))) (Suc (jsize (part draft ''variants''))) (w_db w)"
    and "distinct (map lower (ids_of (elements (part draft ''variants''))))"
    and "new = (if key = [] then random_uuid P (uuid_counter (w_db w)) else key)"
  shows "reads_back draft v \<and> service_find J P new True w' = (Inr v, w')"
  using service_save_served [OF assms(1-5)]
proof (elim disjE exE conjE)
  fix doc a c target v0 d'
  assume s: "valid_draft J draft" "jsonb_in P (encode J draft) = Some doc"
    "if key = [] then target = None else uuid key \<and> 1 \<le> revision \<and> target = Some (lower key)"
    "committed P doc a c target revision (w_db w) v0 d'" "Inr v = Inr v0" "w' = w\<lparr>w_db := d'\<rparr>"
  have doc: "doc = draft" "storable draft" using jsonb_in_print [OF assms(2,6)] s(2) by (auto simp: encode_def split: if_splits)
  with s(4,5) have c: "committed P draft a c target revision (w_db w) v d'" by simp
  have "canonical (random_uuid P (uuid_counter (w_db w)))" using assms(7) by (simp add: uuids_ok_def)
  with s(3) assms(10) have new: "product_key P target (w_db w) = lower new" "uuid new"
    by (auto simp: product_key_def canonical_def split: if_splits)
  with committed_result [OF c] have "catalog_document P (w_db w') (lower new) = Some v" by (simp add: s(6))
  then have "service_find J P new True w' = (Inr v, w')"
    using committed_keeps [OF c assms(3)] assms(4) new(2) by (intro service_find_admin [OF assms(2)]) (simp_all add: s(6))
  with committed_reads_back [OF assms(1,2) s(1) assms(6) doc(2) c assms(3,8,9)] show ?thesis ..
qed simp

subsection \<open>Example\<close>

definition sample_editor_world :: world where
  "sample_editor_world = \<lparr>w_db = sample_db, w_fates = [], w_objects = [], w_transfers = [], w_random = 0\<rparr>"

lemma sample_draft_storable: "wf_json sample_draft" "storable sample_draft"
  by (simp_all add: sample_draft_def sample_draft_of_def sample_variant_def sample_texts_def sample_category_def)

lemma sample_service_save: "\<exists>v w'. service_save sample_jsoncpp sample_postgres sample_draft sample_admin sample_admin [] 0 sample_editor_world = (Inr v, w')"
proof -
  let ?d1 = "sample_rows 1 19900 [sample_created\<lparr>l_request := sample_admin\<rparr>]"
  let ?v = "json_or_null (catalog_document sample_postgres ?d1 sample_product)"
  have save: "catalog_save sample_postgres sample_draft sample_admin sample_admin None 0 sample_db = Inr (?v, ?d1)"
    by (simp add: save_eval sample_rows_def sample_created_def sample_db_def empty_db_def sample_draft_def
        sample_draft_of_def sample_texts_def sample_variant_def sample_keys sample_functions
        sample_random sample_prices throw_if_def Let_def del: decimal_text.simps cong: bind_res_weak)
  have com: "committed sample_postgres sample_draft sample_admin sample_admin None 0 sample_db ?v ?d1"
  proof -
    have "find_product ?d1 sample_product \<noteq> None" by (simp add: find_product_def sample_rows_def)
    then have "\<not> has_key ?v ''failure''" by (auto simp: catalog_document_def json_or_null_def)
    with committed_iff [OF save] show ?thesis by simp
  qed
  have "wf_json ?v"
    using document_wf [OF committed_keeps [OF com sample_db_ok]] committed_result [OF com] by blast
  then have "decode sample_jsoncpp (jsonb_out sample_postgres ?v) = Inr ?v" by (rule decode_out [OF sample_postgres_ok])
  moreover have "jsonb_in sample_postgres (encode sample_jsoncpp sample_draft) = Some sample_draft"
    using sample_postgres_ok sample_draft_storable by (simp add: postgres_ok_def encode_def)
  ultimately have "repository_save sample_jsoncpp sample_postgres sample_draft sample_admin sample_admin [] 0 sample_editor_world =
      (Inr ?v, sample_editor_world\<lparr>w_db := ?d1\<rparr>)"
    using save by (simp add: repository_save_def save_statement_def bind_act_simp exec_sql_served sample_editor_world_def
        sample_functions cast_def not_null_def)
  moreover have "is_member sample_jsoncpp ?v ''failure'' = Inr False"
    using has_key_member [OF sample_jsoncpp_ok, of ?v "''failure''"] committed_result [OF com] by simp
  moreover have "validate_draft sample_jsoncpp sample_draft = Inr ()"
    using validate_draft_Inr [OF sample_jsoncpp_ok] sample_draft_valid by simp
  ultimately have "service_save sample_jsoncpp sample_postgres sample_draft sample_admin sample_admin [] 0 sample_editor_world =
      (Inr ?v, sample_editor_world\<lparr>w_db := ?d1\<rparr>)" by (simp add: service_save_def bind_act_simp)
  then show ?thesis by blast
qed

theorem saved_draft_reads_back_witness:
  "\<exists>v w'. service_save sample_jsoncpp sample_postgres sample_draft sample_admin sample_admin [] 0 sample_editor_world = (Inr v, w') \<and>
     reads_back sample_draft v \<and> service_find sample_jsoncpp sample_postgres sample_product True w' = (Inr v, w')"
proof -
  obtain v w' where run:
    "service_save sample_jsoncpp sample_postgres sample_draft sample_admin sample_admin [] 0 sample_editor_world = (Inr v, w')"
    using sample_service_save by blast
  have ids: "ids_of (elements (part sample_draft ''variants'')) = []"
    by (simp add: part_def sample_draft_def sample_draft_of_def ids_of_def id_of_def sample_variant_def List.map_filter_def)
  have window: "{0..<Suc (Suc 0)} = {0, Suc 0}" by auto
  have new: "new_uuids sample_postgres [] (Suc (Suc 0)) (w_db sample_editor_world)"
    by (simp add: new_uuids_def sample_editor_world_def sample_db_def empty_db_def sample_functions window sample_random
        sample_product_def sample_variant_id_def)
  have key: "sample_product = (if [] = ([] :: string) then random_uuid sample_postgres (uuid_counter (w_db sample_editor_world)) else [])"
    by (simp add: sample_editor_world_def sample_db_def empty_db_def sample_functions sample_random)
  have world: "catalog_ok (w_db sample_editor_world)" "w_fates sample_editor_world = []" by (simp_all add: sample_editor_world_def sample_db_ok)
  have one: "jsize (part sample_draft ''variants'') = Suc 0"
    by (simp add: jsize_def part_def sample_draft_def sample_draft_of_def)
  from saved_draft_reads_back [OF sample_jsoncpp_ok sample_postgres_ok world run sample_draft_storable(1) sample_uuids_ok _ _ key]
    ids new one run show ?thesis by auto
qed

end
