(* ===== verification/Catalog_Progress.thy ===== *)
theory Catalog_Progress
  imports Catalog_Readback
begin

text \<open>
  When a save succeeds.  Each statement of \<open>catalog_save\<close> is shown to succeed when the rows it
  needs exist and the values it must find free are free; together they give a condition on the
  database (\<open>draft_fits\<close>) under which a valid draft is saved.
\<close>

subsection \<open>The statements succeed\<close>

lemma insert_categories_succeed:
  assumes "list_all2 (uuid_of P) xs cs" and "distinct cs" and "\<forall>c \<in> set cs. (key, c) \<notin> set (product_categories d)"
  shows "fold_res (insert_category P key) xs d = Inr (d\<lparr>product_categories := product_categories d @ map (Pair key) cs\<rparr>)"
  using assms
proof (induction arbitrary: d rule: list_all2_induct)
  case (Cons x xs c cs)
  have "insert_category P key x d = Inr (d\<lparr>product_categories := product_categories d @ [(key, c)]\<rparr>)"
    using Cons.hyps(1) Cons.prems(2) by (simp add: insert_category_def cast_uuid_of [symmetric] not_null_def throw_if_def)
  moreover have "\<forall>c' \<in> set cs. (key, c') \<notin> set (product_categories (d\<lparr>product_categories := product_categories d @ [(key, c)]\<rparr>))"
    using Cons.prems by auto
  ultimately show ?case using Cons.IH Cons.prems(1) by simp
qed simp

lemma write_categories_succeed:
  assumes "array_elements (field doc ''categoryIds'') = Inr xs" and "list_all2 (uuid_of P) xs cs" and "distinct cs"
    and "set cs \<subseteq> c_id ` set (categories d)"
  shows "\<exists>d'. write_categories P doc key d = Inr d'"
proof -
  let ?d0 = "d\<lparr>product_categories := filter (\<lambda>(q, _). q \<noteq> key) (product_categories d)\<rparr>"
  have "fold_res (insert_category P key) xs ?d0 = Inr (?d0\<lparr>product_categories := product_categories ?d0 @ map (Pair key) cs\<rparr>)"
    by (rule insert_categories_succeed [OF assms(2,3)]) auto
  with assms(1,4) show ?thesis by (auto simp: write_categories_def throw_if_def list_ex_iff)
qed

lemma insert_texts_succeed:
  assumes "list_all2 (text_row P key) ms ts" and "list_all text_bounds ts"
    and "distinct (map (\<lambda>t. (t_product t, t_locale t)) (product_texts d @ ts))"
  shows "fold_res (insert_text P key) ms d = Inr (d\<lparr>product_texts := product_texts d @ ts\<rparr>)"
  using assms
proof (induction arbitrary: d rule: list_all2_induct)
  case (Cons m ms t ts)
  have "insert_text P key m d = Inr (d\<lparr>product_texts := product_texts d @ [t]\<rparr>)"
    unfolding insert_text_Inr using Cons.hyps(1) Cons.prems by (intro exI [of _ t]) auto
  with Cons.IH [of "d\<lparr>product_texts := product_texts d @ [t]\<rparr>"] Cons.prems show ?case by simp
qed simp

lemma insert_values_succeed:
  assumes "list_all2 (value_of P vkey) ms as" and "distinct (map (\<lambda>a. (a_variant a, a_code a)) (attribute_values d @ as))"
  shows "fold_res (insert_value P vkey) ms d = Inr (d\<lparr>attribute_values := attribute_values d @ as\<rparr>)"
  using assms
proof (induction arbitrary: d rule: list_all2_induct)
  case (Cons m ms a as)
  have "insert_value P vkey m d = Inr (d\<lparr>attribute_values := attribute_values d @ [a]\<rparr>)"
    unfolding insert_value_Inr using Cons.hyps(1) Cons.prems by (intro exI [of _ a]) auto
  with Cons.IH [of "d\<lparr>attribute_values := attribute_values d @ [a]\<rparr>"] Cons.prems show ?case by simp
qed simp

lemma insert_images_succeed:
  assumes "list_all2 (image_row_of P key) es is" and "distinct (map i_media is)" and "distinct (map i_position is)"
    and "\<forall>i \<in> set is. \<forall>j \<in> set (images d). i_product j = key \<longrightarrow> i_media i \<noteq> i_media j \<and> i_position i \<noteq> i_position j"
  shows "fold_res (insert_image P key) es d = Inr (d\<lparr>images := images d @ is\<rparr>)"
  using assms
proof (induction arbitrary: d rule: list_all2_induct)
  case (Cons e es i "is")
  obtain x pos where e: "e = (x, pos)" by (cases e)
  have row: "\<lparr>i_product = key, i_media = i_media i, i_position = pos\<rparr> = i" "uuid_of P x (i_media i)" "0 \<le> pos" "pos \<le> 9"
      "i_position i = pos"
    using Cons.hyps(1) by (auto simp: image_row_of_def e)
  have "insert_image P key (x, pos) d = Inr (d\<lparr>images := images d @ [i]\<rparr>)"
    unfolding insert_image_Inr by (rule exI [of _ "i_media i"], unfold row(1)) (use row Cons.prems(3) in fastforce)
  moreover have new: "\<forall>x \<in> set is. \<forall>j \<in> set (images (d\<lparr>images := images d @ [i]\<rparr>)). i_product j = key \<longrightarrow>
      i_media x \<noteq> i_media j \<and> i_position x \<noteq> i_position j"
    using Cons.prems by (auto simp: image_iff)
  ultimately show ?case using Cons.IH [OF _ _ new] Cons.prems(1,2) by (simp add: e)
qed simp

subsection \<open>The rows that an element of the draft gives\<close>

text \<open>
  What an element of \<open>variants\<close> needs: the variant it names exists and belongs to the product; its
  SKU is free or its own; its attributes are defined; its price is written as an integer.
\<close>

definition variant_fits :: "db \<Rightarrow> string \<Rightarrow> json \<Rightarrow> bool" where
  "variant_fits d key item \<longleftrightarrow>
     (\<forall>k. id_of item = Some k \<longrightarrow> (\<exists>v \<in> set (variants d). v_id v = lower k \<and> v_product v = key)) \<and>
     (\<forall>v \<in> set (variants d). v_sku v = sku_of item \<longrightarrow> map_option lower (id_of item) = Some (v_id v)) \<and>
     fst ` set (members_of (part item ''attributes'')) \<subseteq> d_code ` set (attributes d) \<and>
     (\<exists>i. part item ''priceMinor'' = JInt i)"

definition draft_variant :: "jsoncpp \<Rightarrow> json \<Rightarrow> bool" where
  "draft_variant J item \<longleftrightarrow> valid_variant J item \<and> wf_json item \<and> storable item"

text \<open>The parts of a valid draft that can be stored.\<close>

lemma draft_parts:
  assumes valid: "valid_draft J draft" and wf: "wf_json draft" and st: "storable draft"
  obtains m cs ys ts vs where "draft = JObj m"
    "member m ''categoryIds'' = JArr (map JStr cs)" "list_all uuid cs" "1 \<le> length cs" "length cs \<le> 10"
    "member m ''mediaIds'' = JArr (map JStr ys)" "list_all uuid ys" "length ys \<le> 10"
    "member m ''translations'' = JObj ts" "length ts = 2" "valid_translation (member ts ''ru'')" "valid_translation (member ts ''ro'')"
    "wf_json (JObj ts)" "storable (JObj ts)"
    "member m ''variants'' = JArr vs" "list_all (draft_variant J) vs" "distinct (map sku_of vs)"
proof -
  from valid obtain m ts vs cs ys where m: "draft = JObj m"
      "member m ''categoryIds'' = JArr (map JStr cs)" "list_all uuid cs" "1 \<le> length cs" "length cs \<le> 10"
      "member m ''mediaIds'' = JArr (map JStr ys)" "list_all uuid ys" "length ys \<le> 10"
      "member m ''translations'' = JObj ts" "length ts = 2" "valid_translation (member ts ''ru'')" "valid_translation (member ts ''ro'')"
      "member m ''variants'' = JArr vs" "list_all (valid_variant J) vs" "distinct (map sku_of vs)"
    unfolding valid_draft_def valid_variants_def valid_ids_def by blast
  have ts: "wf_json (JObj ts)" "storable (JObj ts)"
    using part_wf [of m "''translations''"] part_storable [of m "''translations''"] wf st by (simp_all add: m(1,9))
  have "list_all wf_json vs" "list_all storable vs"
    using part_wf [of m "''variants''"] part_storable [of m "''variants''"] wf st by (simp_all add: m(1,13))
  with m(14) have "list_all (draft_variant J) vs" by (simp add: draft_variant_def list_all_iff)
  with m ts show ?thesis by (intro that)
qed

lemma field_text_part: "part item k \<noteq> JNull \<Longrightarrow> is_object item \<Longrightarrow> field_text P item k = json_text P (part item k)"
  by (cases item) (auto simp: part_def member_def field_text_def split: option.splits)

lemma given_id:
  assumes "postgres_ok J P" and "valid_variant J item"
  shows "cast (uuid_in P) (field_text P item ''id'') = Inr (map_option lower (id_of item))" "has_key item ''id'' \<longleftrightarrow> id_of item \<noteq> None"
proof -
  from assms(2) obtain m where m: "item = JObj m" "''id'' \<in> fst ` set m \<longrightarrow> (\<exists>s. member m ''id'' = JStr s \<and> uuid s)"
    by (auto simp: valid_variant_def)
  show "has_key item ''id'' \<longleftrightarrow> id_of item \<noteq> None"
    by (auto simp: id_of_def m(1) map_of_eq_None_iff)
  show "cast (uuid_in P) (field_text P item ''id'') = Inr (map_option lower (id_of item))"
  proof (cases "''id'' \<in> fst ` set m")
    case True
    with m(2) obtain s where "member m ''id'' = JStr s" "uuid s" by blast
    with True assms(1) show ?thesis by (simp add: cast_def id_of_def m(1) field_text_str postgres_ok_def)
  next
    case False
    then have "map_of m ''id'' = None" by (simp add: map_of_eq_None_iff)
    with False show ?thesis by (simp add: cast_def id_of_def m(1) field_text_def)
  qed
qed

lemma item_row:
  assumes J: "jsoncpp_ok J" and P: "postgres_ok J P" and item: "valid_variant J item" and price: "part item ''priceMinor'' = JInt i"
  shows "\<exists>w. v_id w = k \<and> v_product w = key \<and> v_sku w = sku_of item \<and> item_columns P item w \<and> variant_bounds w"
proof -
  from item obtain m where m: "item = JObj m" "valid_text 1 64 (member m ''sku'')" "valid_text 1 160 (member m ''name'')"
      "valid_price J (member m ''priceMinor'')" "is_bool (member m ''active'')"
    unfolding valid_variant_def by blast
  then obtain sku name b where v: "member m ''sku'' = JStr sku" "member m ''name'' = JStr name" "member m ''active'' = JBool b"
      "1 \<le> char_count sku" "char_count sku \<le> 64" "1 \<le> char_count name" "char_count name \<le> 160"
    by (auto simp: valid_text_def is_bool_iff)
  have i: "member m ''priceMinor'' = JInt i" using price by (simp add: part_def m(1))
  have range: "0 \<le> i" "i \<le> 100000000" and big: "bigint_in P (decimal_text i) = Inr i"
    using m(4) P as_int64_JInt [OF J] is_int64_JInt [OF J]
    by (auto simp: i valid_price_def postgres_ok_def simp del: decimal_text.simps)
  have texts: "field_text P item ''priceMinor'' = Some (decimal_text i)"
      "field_text P item ''active'' = Some (if b then ''true'' else ''false'')"
    using i v(3) by (auto simp: field_text_part part_def m(1) simp del: decimal_text.simps)
  have flag: "boolean_in P (if b then ''true'' else ''false'') = Some b" using P by (simp add: postgres_ok_def)
  let ?w = "\<lparr>v_id = k, v_product = key, v_sku = sku, v_name = name, v_price = i, v_active = b\<rparr>"
  have "item_columns P item ?w"
    unfolding item_columns_def texts using field_text_str [OF v(1)] field_text_str [OF v(2)] big flag by (simp add: m(1))
  moreover have "variant_bounds ?w" using v range by (simp add: variant_bounds_def)
  moreover have "v_sku ?w = sku_of item" by (simp add: sku_of_def m(1) v(1))
  ultimately show ?thesis by (intro exI [of _ ?w]) simp
qed

lemma write_values_succeed:
  assumes "draft_variant J item" and "fst ` set (members_of (part item ''attributes'')) \<subseteq> d_code ` set (attributes d)"
    and "distinct (map (\<lambda>a. (a_variant a, a_code a)) (attribute_values d))"
  shows "\<exists>d'. write_values P item vkey d = Inr d'"
proof -
  from assms(1) obtain m as where m: "item = JObj m" "member m ''attributes'' = JObj as" "valid_attributes (JObj as)"
    by (auto simp: draft_variant_def valid_variant_def valid_attributes_def)
  have wf: "wf_json (JObj as)" "storable (JObj as)"
    using assms(1) part_wf [of m "''attributes''"] part_storable [of m "''attributes''"] m(1,2) by (simp_all add: draft_variant_def)
  have short: "\<exists>s. x = JStr s \<and> char_count s \<le> 300" if e: "(c, x) \<in> set as" for c x
    using attribute_fits [OF m(3) wf e] by (auto simp: valid_text_def)
  let ?row = "\<lambda>e. \<lparr>a_variant = vkey, a_code = fst e, a_value = str_of (snd e)\<rparr>"
  let ?d0 = "d\<lparr>attribute_values := filter (\<lambda>a. a_variant a \<noteq> vkey) (attribute_values d)\<rparr>"
  have rows: "list_all2 (value_of P vkey) as (map ?row as)"
    using short by (force simp: list_all2_map2 value_of_def intro!: list.rel_refl_strong)
  have "distinct (map (\<lambda>e. (vkey, fst e)) as)" using wf(1) by (simp add: distinct_map inj_on_def)
  then have "distinct (map (\<lambda>a. (a_variant a, a_code a)) (map ?row as))" by (simp add: comp_def)
  then have "distinct (map (\<lambda>a. (a_variant a, a_code a)) (attribute_values ?d0 @ map ?row as))"
    using distinct_map_filter [OF assms(3)] by auto
  from insert_values_succeed [OF rows this] have fold: "fold_res (insert_value P vkey) as ?d0 =
      Inr (?d0\<lparr>attribute_values := attribute_values ?d0 @ map ?row as\<rparr>)" .
  have "object_members (field item ''attributes'') = Inr as" using object_part [OF m(2)] m(1) by simp
  moreover have "\<forall>e \<in> set as. \<exists>r \<in> set (attributes d). d_code r = fst e"
    using assms(2) by (force simp: part_def m(1,2))
  then have "\<not> list_ex (\<lambda>a. a_variant a = vkey \<and> \<not> list_ex (\<lambda>r. d_code r = a_code a) (attributes d)) (attribute_values ?d0 @ map ?row as)"
    by (simp add: list_ex_iff bex_Un)
  ultimately show ?thesis
    using fold by (simp add: write_values_def throw_if_def)
qed


lemma save_variant_succeed:
  assumes J: "jsoncpp_ok J" and P: "postgres_ok J P" and item: "draft_variant J item" and fits: "variant_fits d key item"
    and vals: "distinct (map (\<lambda>a. (a_variant a, a_code a)) (attribute_values d))"
  shows "\<exists>k d'. save_variant P key item (ks, d) = Inr (ks @ [k], d')"
proof -
  define given where "given = map_option lower (id_of item)"
  define k where "k = (case given of None \<Rightarrow> random_uuid P (uuid_counter d) | Some k \<Rightarrow> k)"
  define d1 where "d1 = (case given of None \<Rightarrow> d\<lparr>uuid_counter := Suc (uuid_counter d)\<rparr> | Some _ \<Rightarrow> d)"
  have valid: "valid_variant J item" using item by (simp add: draft_variant_def)
  note id = given_id [OF P valid, folded given_def]
  have same: "variants d1 = variants d" "attribute_values d1 = attribute_values d" "attributes d1 = attributes d"
    by (simp_all add: d1_def split: option.splits)
  have own: "has_key item ''id'' \<longrightarrow> list_ex (\<lambda>v. v_id v = k \<and> v_product v = key) (variants d1)"
    using fits unfolding same id(2) by (auto simp: variant_fits_def list_ex_iff k_def given_def)
  have sku: "\<forall>v \<in> set (variants d). v_sku v = sku_of item \<longrightarrow> v_id v = k"
    using fits by (auto simp: variant_fits_def k_def given_def)
  obtain i where "part item ''priceMinor'' = JInt i" using fits by (auto simp: variant_fits_def)
  from item_row [OF J P valid this, of k key] obtain w where w: "v_id w = k" "v_product w = key" "v_sku w = sku_of item"
      "item_columns P item w" "variant_bounds w" by blast
  let ?d2 = "d1\<lparr>variants := put_variant w (variants d)\<rparr>"
  have "upsert_variant P key k item d1 = Inr ?d2"
    unfolding upsert_variant_Inr same using w sku by (intro exI [of _ w]) auto
  moreover have "\<exists>d3. write_values P item k ?d2 = Inr d3"
    by (rule write_values_succeed [OF item]) (use fits vals same in \<open>simp_all add: variant_fits_def\<close>)
  then obtain d3 where "write_values P item k ?d2 = Inr d3" by blast
  ultimately show ?thesis
    using own by (auto simp: save_variant_def id(1) Let_def throw_if_def k_def [symmetric] d1_def [symmetric])
qed

lemma put_variant_kept:
  assumes "v \<in> set vs"
  shows "\<exists>x \<in> set (put_variant w vs). v_id x = v_id v \<and> v_product x = v_product v"
proof (cases "v_id v = v_id w")
  case True
  with assms have "w\<lparr>v_product := v_product v\<rparr> \<in> set (put_variant w vs)"
    by (auto simp: put_variant_def image_iff intro: rev_bexI)
  with True show ?thesis by (intro bexI [of _ "w\<lparr>v_product := v_product v\<rparr>"]) simp_all
next
  case False
  with assms have "v \<in> set (put_variant w vs)" by (rule put_variant_other)
  then show ?thesis by blast
qed

text \<open>The elements still to come fit after a turn of the loop.\<close>

lemma variant_fits_step:
  assumes "save_variant P key item (ks, d) = Inr (ks', d')" and "variant_fits d key later"
    and "field_text P item ''sku'' = Some (sku_of item)" and "sku_of later \<noteq> sku_of item"
  shows "variant_fits d' key later"
proof -
  from save_variant_Inr [OF assms(1)] obtain w d1 as where s: "variant_key P item d (v_id w, d1)" "item_columns P item w"
      "d' = d1\<lparr>variants := put_variant w (variants d),
        attribute_values := filter (\<lambda>a. a_variant a \<noteq> v_id w) (attribute_values d) @ as\<rparr>" by blast
  have d': "variants d' = put_variant w (variants d)" "attributes d' = attributes d" using s(1) by (auto simp: s(3) variant_key_def)
  have sku: "v_sku w \<noteq> sku_of later" using s(2) assms(3,4) by (simp add: item_columns_def)
  have old: "\<exists>v \<in> set (variants d). v_id v = v_id x \<and> v_sku v = v_sku x" if "x \<in> set (variants d')" "v_sku x = sku_of later" for x
    using that sku unfolding d' by (auto simp: put_variant_def split: if_splits)
  have kept: "\<exists>x \<in> set (variants d'). v_id x = v_id v \<and> v_product x = v_product v" if "v \<in> set (variants d)" for v
    unfolding d' using that by (rule put_variant_kept)
  show ?thesis
    unfolding variant_fits_def d'(2)
  proof (intro conjI allI ballI impI)
    fix k assume "id_of later = Some k"
    with assms(2) kept show "\<exists>v \<in> set (variants d'). v_id v = lower k \<and> v_product v = key" by (fastforce simp: variant_fits_def)
  next
    fix x assume "x \<in> set (variants d')" "v_sku x = sku_of later"
    with assms(2) old [OF this] show "map_option lower (id_of later) = Some (v_id x)" by (auto simp: variant_fits_def)
  qed (use assms(2) in \<open>simp_all add: variant_fits_def\<close>)
qed

lemma fold_variants_succeed:
  assumes J: "jsoncpp_ok J" and P: "postgres_ok J P" and "list_all (draft_variant J) vs" and "distinct (map sku_of vs)"
    and "list_all (variant_fits d key) vs" and "catalog_ok d" and "key \<in> p_id ` set (products d)"
  shows "\<exists>ks' d'. fold_res (save_variant P key) vs (ks, d) = Inr (ks', d')"
  using assms(3-)
proof (induction vs arbitrary: ks d)
  case (Cons x xs)
  have vals: "distinct (map (\<lambda>a. (a_variant a, a_code a)) (attribute_values d))"
    using Cons.prems(4) by (simp add: catalog_ok_def values_ok_def)
  from save_variant_succeed [OF J P _ _ vals, of x key ks] Cons.prems obtain k d1 where
    step: "save_variant P key x (ks, d) = Inr (ks @ [k], d1)" by auto
  have "valid_variant J x" using Cons.prems(1) by (simp add: draft_variant_def)
  then have "field_text P x ''sku'' = Some (sku_of x)"
    by (auto simp: valid_variant_def valid_text_def sku_of_def field_text_str)
  then have "variant_fits d1 key i" if "i \<in> set xs" for i
    using that Cons.prems(2,3) by (intro variant_fits_step [OF step]) (auto simp: list_all_iff image_iff)
  then have "list_all (variant_fits d1 key) xs" by (simp add: list_all_iff)
  moreover have "catalog_ok d1" and "key \<in> p_id ` set (products d1)"
    using save_variant_keeps [OF step Cons.prems(4,5)] loop_frame_tables(1) [OF save_variant_frame [OF step]] Cons.prems(5) by auto
  ultimately show ?case using Cons.IH [of d1 "ks @ [k]"] Cons.prems(1,2) step by auto
qed simp


subsection \<open>The save succeeds\<close>

definition references :: "json \<Rightarrow> string set \<Rightarrow> bool" where
  "references v ks \<longleftrightarrow> (let given = map (lower \<circ> str_of) (elements v) in distinct given \<and> set given \<subseteq> ks)"

text \<open>
  What a draft needs of the database.  An update names a product in the revision it was read in,
  and that revision can still be raised; the slug is free or the product's own; the brand, the categories
  and the images exist and none is named twice; every variant fits.
\<close>

definition draft_fits :: "postgres \<Rightarrow> db \<Rightarrow> string option \<Rightarrow> int \<Rightarrow> json \<Rightarrow> bool" where
  "draft_fits P d target revision draft \<longleftrightarrow>
     (case target of
        None \<Rightarrow> product_key P target d \<notin> p_id ` set (products d)
      | Some k \<Rightarrow> (\<exists>p. find_product d k = Some p \<and> p_revision p = revision) \<and> 0 < revision \<and> revision + 1 < 2 ^ 31) \<and>
     (\<forall>q \<in> set (products d). part draft ''slug'' = JStr (p_slug q) \<longrightarrow> target = Some (p_id q)) \<and>
     (\<forall>b. part draft ''brandId'' = JStr b \<longrightarrow> lower b \<in> b_id ` set (brands d)) \<and>
     references (part draft ''categoryIds'') (c_id ` set (categories d)) \<and>
     references (part draft ''mediaIds'') (m_id ` set (media d)) \<and>
     list_all (variant_fits d (product_key P target d)) (elements (part draft ''variants''))"

lemma write_texts_succeed:
  assumes "member m ''translations'' = JObj ts" and "wf_json (JObj ts)" and "length ts = 2"
    and "valid_translation (member ts ''ru'')" and "valid_translation (member ts ''ro'')"
    and "distinct (map (\<lambda>t. (t_product t, t_locale t)) (product_texts d))"
  shows "\<exists>d'. write_texts P (JObj m) key d = Inr d'"
proof -
  let ?row = "\<lambda>e. \<lparr>t_product = key, t_locale = fst e, t_name = str_of (part (snd e) ''name''),
      t_description = str_of (part (snd e) ''description''), t_seo_title = str_of (part (snd e) ''seoTitle''),
      t_seo_description = str_of (part (snd e) ''seoDescription'')\<rparr>"
  let ?d0 = "d\<lparr>product_texts := filter (\<lambda>t. t_product t \<noteq> key) (product_texts d)\<rparr>"
  have keys: "distinct (map fst ts)" using assms(2) by simp
  have locales: "fst e = ''ru'' \<or> fst e = ''ro''" if "e \<in> set ts" for e
    using that unfolding both_locale_names [OF assms(3) keys assms(4,5)] by auto
  have rows: "text_row P key e (?row e) \<and> text_bounds (?row e)" if "e \<in> set ts" for e
  proof -
    have "valid_translation (snd e)"
      using both_locales [OF assms(3) keys assms(4,5)] that by (simp add: list_all_iff)
    then obtain t n s1 s2 s3 where t: "snd e = JObj t" "member t ''name'' = JStr n" "member t ''description'' = JStr s1"
        "member t ''seoTitle'' = JStr s2" "member t ''seoDescription'' = JStr s3"
        "1 \<le> char_count n" "char_count n \<le> 200" "char_count s1 \<le> 20000" "char_count s2 \<le> 200" "char_count s3 \<le> 500"
      by (auto simp: valid_translation_def valid_text_def)
    then show ?thesis
      using locales [OF that] by (simp add: text_row_def text_bounds_def part_def field_text_str)
  qed
  have "list_all2 (text_row P key) ts (map ?row ts)" "list_all text_bounds (map ?row ts)"
    using rows by (auto simp: list_all2_map2 list_all_iff intro!: list.rel_refl_strong)
  moreover have "distinct (map (\<lambda>e. (key, fst e)) ts)" using assms(2) by (simp add: distinct_map inj_on_def)
  then have "distinct (map (\<lambda>t. (t_product t, t_locale t)) (map ?row ts))" by (simp add: comp_def)
  then have "distinct (map (\<lambda>t. (t_product t, t_locale t)) (product_texts ?d0 @ map ?row ts))"
    using distinct_map_filter [OF assms(6)] by auto
  ultimately have "fold_res (insert_text P key) ts ?d0 = Inr (?d0\<lparr>product_texts := product_texts ?d0 @ map ?row ts\<rparr>)"
    by (rule insert_texts_succeed)
  then show ?thesis using object_part [OF assms(1)] by (simp add: write_texts_def)
qed

lemma write_images_succeed:
  assumes P: "postgres_ok J P" and "member m ''mediaIds'' = JArr (map JStr ys)" and "list_all uuid ys" and "length ys \<le> 10"
    and "distinct (map lower ys)" and "lower ` set ys \<subseteq> m_id ` set (media d)"
  shows "\<exists>d'. write_images P (JObj m) key d = Inr d'"
proof -
  let ?d0 = "d\<lparr>images := filter (\<lambda>i. i_product i \<noteq> key) (images d)\<rparr>"
  let ?is = "map (\<lambda>n. \<lparr>i_product = key, i_media = lower (ys ! n), i_position = int n\<rparr>) [0..<length ys]"
  let ?es = "zip (map JStr ys) (map int [0..<length (map JStr ys)])"
  have "list_all2 (image_row_of P key) ?es ?is"
    using P assms(3,4) by (intro list_all2_all_nthI) (auto simp: image_row_of_def uuid_of_def postgres_ok_def list_all_length)
  moreover have ids: "map i_media ?is = map lower ys" by (rule nth_equalityI) simp_all
  have "distinct (map i_media ?is)" unfolding ids by (rule assms(5))
  moreover have "distinct (map i_position ?is)" by (simp add: distinct_map inj_on_def)
  ultimately have "fold_res (insert_image P key) ?es ?d0 = Inr (?d0\<lparr>images := images ?d0 @ ?is\<rparr>)"
    by (intro insert_images_succeed) auto
  moreover have "\<exists>r \<in> set (media d). m_id r = i_media i" if "i \<in> set ?is" for i
  proof -
    have "i_media i \<in> set (map i_media ?is)" using that by auto
    then show ?thesis unfolding ids using assms(6) by fastforce
  qed
  then have "\<forall>i \<in> set ?is. \<exists>r \<in> set (media d). m_id r = i_media i" by blast
  then have "\<not> list_ex (\<lambda>i. i_product i = key \<and> \<not> list_ex (\<lambda>r. m_id r = i_media i) (media d)) (images ?d0 @ ?is)"
    by (simp add: list_ex_iff bex_Un)
  ultimately show ?thesis
    using array_part [OF assms(2)] by (simp add: write_images_def throw_if_def)
qed


lemma save_parts_succeed:
  assumes J: "jsoncpp_ok J" and P: "postgres_ok J P" and "valid_draft J draft" and wf: "wf_json draft" and st: "storable draft"
    and ok: "catalog_ok d0" and key: "key \<in> p_id ` set (products d0)" and actor: "actor \<in> u_id ` set (users d0)"
    and cats: "references (part draft ''categoryIds'') (c_id ` set (categories d0))"
    and imgs: "references (part draft ''mediaIds'') (m_id ` set (media d0))"
    and fits: "list_all (variant_fits d0 key) (elements (part draft ''variants''))"
  shows "\<exists>v d'. save_parts P draft actor corr target previous key d0 = Inr (v, d')"
proof -
  from assms(3) wf st obtain m cs ys ts vs where m: "draft = JObj m"
      "member m ''categoryIds'' = JArr (map JStr cs)" "list_all uuid cs" "1 \<le> length cs" "length cs \<le> 10"
      "member m ''mediaIds'' = JArr (map JStr ys)" "list_all uuid ys" "length ys \<le> 10"
      "member m ''translations'' = JObj ts" "length ts = 2" "valid_translation (member ts ''ru'')" "valid_translation (member ts ''ro'')"
      "wf_json (JObj ts)" "storable (JObj ts)"
      "member m ''variants'' = JArr vs" "list_all (draft_variant J) vs" "distinct (map sku_of vs)"
    by (rule draft_parts)
  have ref: "distinct (map lower cs)" "lower ` set cs \<subseteq> c_id ` set (categories d0)"
      "distinct (map lower ys)" "lower ` set ys \<subseteq> m_id ` set (media d0)"
    using cats imgs by (auto simp: references_def part_def m(1,2,6) Let_def comp_def)
  have "list_all2 (uuid_of P) (map JStr cs) (map lower cs)" using uuid_rows [OF P m(3)] by simp
  then have "\<exists>d1. write_categories P draft key d0 = Inr d1"
    unfolding m(1) by (rule write_categories_succeed [OF array_part [OF m(2)]]) (use ref in simp_all)
  then obtain d1 where d1: "write_categories P draft key d0 = Inr d1" by blast
  note k1 = write_categories_keeps [OF d1 ok key]
  have "distinct (map (\<lambda>t. (t_product t, t_locale t)) (product_texts d1))" using k1 by (simp add: catalog_ok_def texts_ok_def)
  from write_texts_succeed [OF m(9) m(13) m(10-12) this] obtain d2 where
    d2: "write_texts P draft key d1 = Inr d2" unfolding m(1) by blast
  have k2: "catalog_ok d2" "key \<in> p_id ` set (products d2)"
    using write_texts_keeps [OF d2] k1 key by simp_all
  have same2: "variants d2 = variants d0" "attributes d2 = attributes d0" "media d2 = media d0" "users d2 = users d0"
    using d1 d2 by (auto dest!: write_categories_Inr write_texts_Inr)
  have "variant_fits d2 key = variant_fits d0 key" by (rule ext) (simp add: variant_fits_def same2)
  then have "list_all (variant_fits d2 key) vs" using fits by (simp add: part_def m(1,15))
  from fold_variants_succeed [OF J P m(16,17) this k2, of "[]"] obtain ks d3 where
    d3: "fold_res (save_variant P key) vs ([], d2) = Inr (ks, d3)" by blast
  let ?d3 = "retire_variants key ks d3"
  have same3: "media ?d3 = media d0" "users ?d3 = users d0"
    using loop_frame_tables [OF fold_variants_frame [OF d3]] same2 by (simp_all add: retire_variants_def)
  have "\<exists>d4. write_images P draft key ?d3 = Inr d4"
    unfolding m(1) by (rule write_images_succeed [OF P m(6-8) ref(3)]) (simp add: same3 ref(4))
  then obtain d4 where d4: "write_images P draft key ?d3 = Inr d4" by blast
  have "users d4 = users d0" using write_images_Inr [OF d4] same3(2) by auto
  with actor have audit: "insert_audit row d4 = Inr (d4\<lparr>audit := audit d4 @ [row]\<rparr>)" if "l_actor row = actor" for row
    using that by (simp add: insert_audit_Inr)
  have "array_elements (field draft ''variants'') = Inr vs" using array_part [OF m(15)] by (simp add: m(1))
  then show ?thesis by (simp add: save_parts_def d1 d2 d3 d4 audit)
qed


lemma brand_fits:
  assumes "postgres_ok J P" and "part draft ''brandId'' = JNull \<or> (\<exists>b. part draft ''brandId'' = JStr b \<and> uuid b)"
    and "draft = JObj m" and "\<forall>b. part draft ''brandId'' = JStr b \<longrightarrow> lower b \<in> bs"
  shows "\<exists>brand. cast (uuid_in P) (field_text P draft ''brandId'') = Inr brand \<and> (\<forall>b. brand = Some b \<longrightarrow> b \<in> bs)"
proof (cases "part draft ''brandId'' = JNull")
  case True
  then have "field_text P draft ''brandId'' = None"
    by (auto simp: assms(3) part_def member_def field_text_def split: option.splits)
  then show ?thesis by (simp add: cast_def)
next
  case False
  with assms(2) obtain b where b: "part draft ''brandId'' = JStr b" "uuid b" by blast
  then have "field_text P draft ''brandId'' = Some b" by (simp add: assms(3) field_text_part)
  with assms(1,4) b show ?thesis by (simp add: cast_def postgres_ok_def)
qed

lemma product_row_succeeds:
  assumes P: "postgres_ok J P" and valid: "valid_draft J draft" and fits: "draft_fits P d target revision draft"
  shows "\<exists>d0. (case target of
      None \<Rightarrow> insert_product P draft (product_key P target d) (d\<lparr>uuid_counter := Suc (uuid_counter d)\<rparr>) = Inr d0
    | Some k \<Rightarrow> \<exists>p. find_product d k = Some p \<and> p_revision p = revision \<and> update_product P draft p d = Inr d0)"
proof -
  from valid obtain m sl st where m: "draft = JObj m" "part draft ''slug'' = JStr sl" "slug sl"
      "part draft ''status'' = JStr st" "known_status st"
      "part draft ''brandId'' = JNull \<or> (\<exists>b. part draft ''brandId'' = JStr b \<and> uuid b)"
    by (auto simp: valid_draft_def valid_text_def part_def known_status_def)
  have texts: "field_text P draft ''slug'' = Some sl" "field_text P draft ''status'' = Some st"
    using m(1,2,4) by (simp_all add: field_text_part)
  have "\<forall>b. part draft ''brandId'' = JStr b \<longrightarrow> lower b \<in> b_id ` set (brands d)" using fits by (simp add: draft_fits_def)
  from brand_fits [OF P m(6,1) this] obtain brand where
    brand: "cast (uuid_in P) (field_text P draft ''brandId'') = Inr brand" "\<forall>b. brand = Some b \<longrightarrow> b \<in> b_id ` set (brands d)" by blast
  have slugs: "\<forall>q \<in> set (products d). p_slug q = sl \<longrightarrow> target = Some (p_id q)" using fits m(2) by (auto simp: draft_fits_def)
  show ?thesis
  proof (cases target)
    case None
    then have "\<forall>q \<in> set (products d). p_id q \<noteq> product_key P target d" using fits by (auto simp: draft_fits_def image_iff)
    with None texts brand slugs m(3,5) show ?thesis
      by (auto simp: insert_product_Inr product_constraints_Inr)
  next
    case (Some k)
    with fits obtain p where p: "find_product d k = Some p" "p_revision p = revision" "0 < revision" "revision + 1 < 2 ^ 31"
      by (auto simp: draft_fits_def)
    from p(1) have "p_id p = k" by (simp add: find_product_id)
    with p Some texts brand slugs m(3,5) show ?thesis
      by (auto simp: update_product_Inr product_constraints_Inr)
  qed
qed

lemma fitting_commits:
  assumes J: "jsoncpp_ok J" and P: "postgres_ok J P" and valid: "valid_draft J draft" and wf: "wf_json draft" "storable draft"
    and ok: "catalog_ok d" and actor: "actor \<in> u_id ` set (users d)" and fits: "draft_fits P d target revision draft"
  shows "\<exists>v d'. committed P draft actor corr target revision d v d'"
proof -
  let ?key = "product_key P target d"
  have parts: "\<exists>v d'. save_parts P draft actor corr target previous ?key d0 = Inr (v, d')"
    if d0: "d0 = d\<lparr>uuid_counter := n, products := ps\<rparr>" "catalog_ok d0" "?key \<in> p_id ` set ps" for n ps d0 previous
  proof (rule save_parts_succeed [OF J P valid wf d0(2)])
    have "variant_fits d0 ?key = variant_fits d ?key" by (rule ext) (simp add: variant_fits_def d0(1))
    then show "list_all (variant_fits d0 ?key) (elements (part draft ''variants''))" using fits by (simp add: draft_fits_def)
  qed (use actor fits d0 in \<open>simp_all add: draft_fits_def\<close>)
  from product_row_succeeds [OF P valid fits] obtain d0 where d0: "case target of
      None \<Rightarrow> insert_product P draft (product_key P target d) (d\<lparr>uuid_counter := Suc (uuid_counter d)\<rparr>) = Inr d0
    | Some k \<Rightarrow> \<exists>p. find_product d k = Some p \<and> p_revision p = revision \<and> update_product P draft p d = Inr d0" by blast
  show ?thesis
  proof (cases target)
    case None
    then have s: "insert_product P draft ?key (d\<lparr>uuid_counter := Suc (uuid_counter d)\<rparr>) = Inr d0" using d0 by simp
    have "catalog_ok (d\<lparr>uuid_counter := Suc (uuid_counter d)\<rparr>)" using ok by (simp add: catalog_ok_def)
    from insert_product_keeps [OF s this] insert_product_row [OF s]
    have "catalog_ok d0" "\<exists>ps. d0 = d\<lparr>uuid_counter := Suc (uuid_counter d), products := ps\<rparr>" "?key \<in> set (map p_id (products d0))" by auto
    with parts [of d0] s None show ?thesis by (fastforce simp: committed_def)
  next
    case (Some k)
    then obtain p where s: "find_product d k = Some p" "p_revision p = revision" "update_product P draft p d = Inr d0"
      using d0 by auto
    from s(1) have p: "p_id p = k" "p \<in> set (products d)" by (simp_all add: find_product_id)
    from update_product_keeps [OF s(3) ok p(2)] update_product_row [OF s(3)] p
    have "catalog_ok d0" "\<exists>ps. d0 = d\<lparr>uuid_counter := uuid_counter d, products := ps\<rparr>" "k \<in> set (map p_id (products d0))" by auto
    with parts [of d0] s Some show ?thesis by (fastforce simp: committed_def product_key_def)
  qed
qed


lemma committed_served:
  assumes J: "jsoncpp_ok J" and P: "postgres_ok J P" and "catalog_ok (w_db w)" and "w_fates w = []"
    and "valid_draft J draft" and "wf_json draft" and "storable draft" and "uuid actor" and "uuid corr"
    and "key = [] \<or> uuid key \<and> 1 \<le> revision"
    and c: "committed P draft (lower actor) (lower corr) (if key = [] then None else Some (lower key)) revision (w_db w) v d'"
  shows "service_save J P draft actor corr key revision w = (Inr v, w\<lparr>w_db := d'\<rparr>)"
proof -
  have keys: "cast (uuid_in P) (Some actor) = Inr (Some (lower actor))" "cast (uuid_in P) (Some corr) = Inr (Some (lower corr))"
      "cast (uuid_in P) (if key = [] then None else Some key) = Inr (if key = [] then None else Some (lower key))"
    using assms(8-10) P by (auto simp: cast_def postgres_ok_def simp del: decimal_text.simps)
  have "jsonb_in P (encode J draft) = Some draft" using jsonb_in_print [OF P assms(6)] assms(7) by (simp add: encode_def)
  then have "save_statement J P draft actor corr key revision (w_db w) = Inr (jsonb_out P v, d')"
    using committed_save [OF c] by (simp add: save_statement_def keys not_null_def)
  moreover have "decode J (jsonb_out P v) = Inr v"
    using document_wf [OF committed_keeps [OF c assms(3)]] committed_result [OF c] by (intro decode_out [OF P]) blast
  ultimately have "repository_save J P draft actor corr key revision w = (Inr v, w\<lparr>w_db := d'\<rparr>)"
    using assms(4) by (simp add: repository_save_def bind_act_simp exec_sql_served)
  moreover have "is_member J v ''failure'' = Inr False"
    using has_key_member [OF J, of v "''failure''"] committed_result [OF c] by simp
  moreover have "validate_draft J draft = Inr ()" using validate_draft_Inr [OF J] assms(5) by simp
  ultimately show ?thesis using assms(10) by (auto simp: service_save_def bind_act_simp)
qed

subsection \<open>Property\<close>

text \<open>
  C13. A fitting draft is saved.  Whenever the draft is valid and can be stored as jsonb, the author
  exists, and the database has what the draft names and leaves free what it claims
  (\<open>draft_fits\<close>), the save succeeds: no step of \<open>catalog_save\<close> raises, and the reply is the stored
  document of the product.
\<close>

theorem fitting_draft_is_saved:
  assumes "jsoncpp_ok J" and "postgres_ok J P" and "catalog_ok (w_db w)" and "w_fates w = []"
    and "valid_draft J draft" and "wf_json draft" and "storable draft"
    and "uuid actor" and "lower actor \<in> u_id ` set (users (w_db w))" and "uuid corr"
    and "key = [] \<or> uuid key" and "draft_fits P (w_db w) (if key = [] then None else Some (lower key)) revision draft"
  shows "\<exists>v d'. service_save J P draft actor corr key revision w = (Inr v, w\<lparr>w_db := d'\<rparr>) \<and>
     catalog_document P d' (if key = [] then random_uuid P (uuid_counter (w_db w)) else lower key) = Some v"
proof -
  from fitting_commits [OF assms(1,2,5-7,3,9,12)] obtain v d' where
    c: "committed P draft (lower actor) (lower corr) (if key = [] then None else Some (lower key)) revision (w_db w) v d'" by blast
  have "key = [] \<or> uuid key \<and> 1 \<le> revision" using assms(11,12) by (auto simp: draft_fits_def)
  from committed_served [OF assms(1-8,10) this c]
  have "service_save J P draft actor corr key revision w = (Inr v, w\<lparr>w_db := d'\<rparr>)" .
  moreover have "product_key P (if key = [] then None else Some (lower key)) (w_db w) =
      (if key = [] then random_uuid P (uuid_counter (w_db w)) else lower key)" by (simp add: product_key_def)
  ultimately show ?thesis using committed_result [OF c] by auto
qed

theorem fitting_draft_is_saved_witness:
  "\<exists>v d'. service_save sample_jsoncpp sample_postgres sample_draft sample_admin sample_admin [] 0 sample_editor_world =
     (Inr v, sample_editor_world\<lparr>w_db := d'\<rparr>)"
proof -
  have world: "w_db sample_editor_world = sample_db" "w_fates sample_editor_world = []" by (simp_all add: sample_editor_world_def)
  have variant: "variant_fits sample_db key (sample_variant [] ''K-1'' 19900)" for key
    by (simp add: variant_fits_def id_of_def part_def sample_variant_def sample_db_def empty_db_def)
  have "draft_fits sample_postgres sample_db None 0 sample_draft"
    using variant by (simp add: draft_fits_def references_def part_def sample_draft_def sample_draft_of_def sample_db_def
        empty_db_def sample_lower Let_def)
  moreover have "lower sample_admin \<in> u_id ` set (users sample_db)" by (simp add: sample_lower sample_db_def empty_db_def)
  ultimately show ?thesis
    using fitting_draft_is_saved [OF sample_jsoncpp_ok sample_postgres_ok _ _ sample_draft_valid sample_draft_storable
        sample_uuids(2) _ sample_uuids(2), of sample_editor_world "[]" 0] sample_db_ok
    by (auto simp: world)
qed

end
