(* ===== verification/Catalog_Written.thy ===== *)
theory Catalog_Written
  imports Catalog_Progress
begin

text \<open>
  What the tables hold when only validated drafts were written to them: beside the constraints of
  the schema (\<open>catalog_ok\<close>), the texts and numbers of rows are such as \<open>validateDraft\<close>
  accepts.  A committed save of a valid draft keeps it.
\<close>

definition fit_text :: "nat \<Rightarrow> nat \<Rightarrow> string \<Rightarrow> bool" where
  "fit_text mn mx s \<longleftrightarrow> valid_text mn mx (JStr s) \<and> storable (JStr s)"

definition text_written :: "translation_row \<Rightarrow> bool" where
  "text_written t \<longleftrightarrow> fit_text 1 200 (t_name t) \<and> fit_text 0 20000 (t_description t) \<and>
     fit_text 0 200 (t_seo_title t) \<and> fit_text 0 500 (t_seo_description t)"

definition value_written :: "value_row \<Rightarrow> bool" where
  "value_written a \<longleftrightarrow> storable (JStr (a_code a)) \<and> fit_text 1 300 (a_value a)"

definition values_of :: "value_row list \<Rightarrow> string \<Rightarrow> value_row list" where
  "values_of as k = filter (\<lambda>a. a_variant a = k) as"

definition variant_written :: "value_row list \<Rightarrow> variant_row \<Rightarrow> bool" where
  "variant_written as v \<longleftrightarrow> fit_text 1 64 (v_sku v) \<and> fit_text 1 160 (v_name v) \<and> length (values_of as (v_id v)) \<le> 30"

definition categories_of :: "db \<Rightarrow> string \<Rightarrow> string list" where
  "categories_of d k = map snd (filter (\<lambda>(q, _). q = k) (product_categories d))"

definition product_written :: "db \<Rightarrow> product_row \<Rightarrow> bool" where
  "product_written d p \<longleftrightarrow> fit_text 1 160 (p_slug p) \<and> 1 \<le> length (categories_of d (p_id p)) \<and>
     length (categories_of d (p_id p)) \<le> 10"

definition written :: "db \<Rightarrow> bool" where
  "written d \<longleftrightarrow> list_all (product_written d) (products d) \<and> list_all text_written (product_texts d) \<and>
     list_all (variant_written (attribute_values d)) (variants d) \<and> list_all value_written (attribute_values d)"

subsection \<open>The loop over the variants\<close>

lemma fit_part: "valid_text mn mx (member m k) \<Longrightarrow> storable (JObj m) \<Longrightarrow> \<exists>s. member m k = JStr s \<and> fit_text mn mx s"
  using part_storable [of m k] by (auto simp: valid_text_def fit_text_def)

lemma attributes_written:
  assumes "draft_variant J item" and "object_members (field item ''attributes'') = Inr ms" and "list_all2 (value_of P k) ms as"
  shows "list_all value_written as \<and> length as \<le> 30"
proof -
  from assms(1) obtain m ms' where m: "item = JObj m" "member m ''attributes'' = JObj ms'" "valid_attributes (JObj ms')"
    by (auto simp: draft_variant_def valid_variant_def valid_attributes_def)
  have wf: "wf_json (JObj ms')" "storable (JObj ms')"
    using assms(1) part_wf [of m "''attributes''"] part_storable [of m "''attributes''"] m(1,2) by (simp_all add: draft_variant_def)
  have ms: "ms = ms'" using assms(2) object_part [OF m(2)] by (simp add: m(1))
  have fit: "storable (JStr c) \<and> (\<exists>s. x = JStr s \<and> fit_text 1 300 s)" if e: "(c, x) \<in> set ms" for c x
    using attribute_fits [OF m(3) wf e [unfolded ms]] by (auto simp: fit_text_def valid_text_def)
  have "value_written a" if "a \<in> set as" for a
  proof -
    from that obtain i where i: "i < length as" "a = as ! i" by (auto simp: in_set_conv_nth)
    with assms(3) have n: "i < length ms" "value_of P k (ms ! i) a" by (auto simp: list_all2_conv_all_nth)
    with fit [of "fst (ms ! i)" "snd (ms ! i)"] show ?thesis by (auto simp: value_of_def value_written_def)
  qed
  moreover have "length as = length ms'" using assms(3) by (simp add: ms list_all2_lengthD)
  moreover have "length ms' \<le> 30" using m(3) by (simp add: valid_attributes_def)
  ultimately show ?thesis by (simp add: list_all_iff)
qed

definition loop_written :: "db \<Rightarrow> bool" where
  "loop_written d \<longleftrightarrow> list_all (variant_written (attribute_values d)) (variants d) \<and> list_all value_written (attribute_values d)"

lemma save_variant_written:
  assumes "save_variant P key item (ks, d) = Inr (ks', d')" and item: "draft_variant J item" and "loop_written d"
  shows "loop_written d'"
proof -
  from save_variant_Inr [OF assms(1)] obtain w ms as d1 where s: "item_columns P item w"
      "object_members (field item ''attributes'') = Inr ms" "list_all2 (value_of P (v_id w)) ms as"
      "d' = d1\<lparr>variants := put_variant w (variants d),
        attribute_values := filter (\<lambda>a. a_variant a \<noteq> v_id w) (attribute_values d) @ as\<rparr>" by blast
  note as = attributes_written [OF item s(2,3)]
  from item obtain m where m: "item = JObj m" "valid_text 1 64 (member m ''sku'')" "valid_text 1 160 (member m ''name'')" "storable (JObj m)"
    by (auto simp: draft_variant_def valid_variant_def)
  then obtain sku name where texts: "member m ''sku'' = JStr sku" "fit_text 1 64 sku" "member m ''name'' = JStr name" "fit_text 1 160 name"
    using fit_part by metis
  have w: "fit_text 1 64 (v_sku w)" "fit_text 1 160 (v_name w)"
    using s(1) texts field_text_str [OF texts(1), of P] field_text_str [OF texts(3), of P] by (simp_all add: item_columns_def m(1))
  have own: "\<forall>a \<in> set as. a_variant a = v_id w"
    using s(3) by (auto simp: list_all2_conv_all_nth in_set_conv_nth value_of_def)
  have vals: "values_of (attribute_values d') j = (if j = v_id w then as else values_of (attribute_values d) j)" for j
    using own by (auto simp: s(4) values_of_def filter_empty_conv filter_id_conv intro!: filter_cong)
  have "variant_written (attribute_values d') v" if v: "v \<in> set (variants d')" for v
  proof (cases "v_id v = v_id w")
    case True
    with v have "v_sku v = v_sku w \<and> v_name v = v_name w" by (auto simp: s(4) put_variant_def image_iff split: if_splits)
    with True w as show ?thesis by (simp add: variant_written_def vals)
  next
    case False
    with v have "v \<in> set (variants d)" by (auto simp: s(4) put_variant_def split: if_splits)
    with assms(3) False show ?thesis by (simp add: loop_written_def list_all_iff variant_written_def vals)
  qed
  moreover have "list_all value_written (attribute_values d')" using assms(3) as by (auto simp: s(4) loop_written_def list_all_iff)
  ultimately show ?thesis by (simp add: loop_written_def list_all_iff)
qed


lemma fold_variants_written:
  assumes "fold_res (save_variant P key) items ([], d) = Inr (ks, d')" and "list_all (draft_variant J) items" and "loop_written d"
  shows "loop_written d'"
proof -
  have "(\<lambda>(_, e). loop_written e) (ks, d')"
    by (rule fold_res_rel [OF assms(1)]) (use assms(2,3) in \<open>auto simp: list_all_iff dest: save_variant_written\<close>)
  then show ?thesis by simp
qed

subsection \<open>A save\<close>

lemma texts_written:
  assumes "list_all2 (text_row P key) ms ts" and "list_all (\<lambda>e. valid_translation (snd e) \<and> storable (snd e)) ms"
  shows "list_all text_written ts"
  using assms
proof (induction rule: list_all2_induct)
  case (Cons e es t ts)
  from Cons(4) obtain m where m: "snd e = JObj m" "storable (JObj m)" "valid_text 1 200 (member m ''name'')"
      "valid_text 0 20000 (member m ''description'')" "valid_text 0 200 (member m ''seoTitle'')"
      "valid_text 0 500 (member m ''seoDescription'')"
    by (auto simp: valid_translation_def)
  from fit_part [OF m(3,2)] fit_part [OF m(4,2)] fit_part [OF m(5,2)] fit_part [OF m(6,2)]
  obtain n de ti se where v: "member m ''name'' = JStr n" "fit_text 1 200 n" "member m ''description'' = JStr de" "fit_text 0 20000 de"
      "member m ''seoTitle'' = JStr ti" "fit_text 0 200 ti" "member m ''seoDescription'' = JStr se" "fit_text 0 500 se" by blast
  have "text_written t"
    using Cons(1) v(2,4,6,8) field_text_str [OF v(1), of P] field_text_str [OF v(3), of P] field_text_str [OF v(5), of P]
      field_text_str [OF v(7), of P] by (simp add: text_row_def text_written_def m(1))
  with Cons show ?case by simp
qed simp


lemma loop_written_retire: "loop_written d \<Longrightarrow> loop_written (retire_variants key ks d)"
  by (auto simp: loop_written_def retire_variants_def list_all_iff variant_written_def)

lemma save_parts_written:
  assumes c: "save_parts P draft actor corr target previous key d0 = Inr (r, d')"
    and valid: "valid_draft J draft" and wf: "wf_json draft" "storable draft"
    and old: "loop_written d0" "list_all text_written (product_texts d0)"
  shows "loop_written d' \<and> list_all text_written (product_texts d') \<and> 1 \<le> length (categories_of d' key) \<and>
    length (categories_of d' key) \<le> 10"
proof -
  from valid wf obtain m cs ys ts vs where m: "draft = JObj m"
      "member m ''categoryIds'' = JArr (map JStr cs)" "list_all uuid cs" "1 \<le> length cs" "length cs \<le> 10"
      "member m ''mediaIds'' = JArr (map JStr ys)" "list_all uuid ys" "length ys \<le> 10"
      "member m ''translations'' = JObj ts" "length ts = 2" "valid_translation (member ts ''ru'')" "valid_translation (member ts ''ro'')"
      "wf_json (JObj ts)" "storable (JObj ts)"
      "member m ''variants'' = JArr vs" "list_all (draft_variant J) vs" "distinct (map sku_of vs)"
    by (rule draft_parts)
  from c obtain d1 d2 items retained d3 d4 row where s:
    "write_categories P draft key d0 = Inr d1" "write_texts P draft key d1 = Inr d2"
    "array_elements (field draft ''variants'') = Inr items" "fold_res (save_variant P key) items ([], d2) = Inr (retained, d3)"
    "write_images P draft key (retire_variants key retained d3) = Inr d4" "insert_audit row d4 = Inr d'"
    by (rule save_parts_Inr)
  note loop = loop_frame_tables [OF fold_variants_frame [OF s(4)]]
  from write_categories_Inr [OF s(1)] array_part [OF m(2)] obtain cs' where cs': "length cs' = length cs"
      "d1 = d0\<lparr>product_categories := filter (\<lambda>(q, _). q \<noteq> key) (product_categories d0) @ map (Pair key) cs'\<rparr>"
    by (auto simp: m(1) dest: list_all2_lengthD)
  from write_texts_Inr [OF s(2)] object_part [OF m(9)] obtain ts' where ts': "list_all2 (text_row P key) ts ts'"
      "d2 = d1\<lparr>product_texts := filter (\<lambda>t. t_product t \<noteq> key) (product_texts d1) @ ts'\<rparr>"
    by (auto simp: m(1))
  have "distinct (map fst ts)" using m(13) by simp
  from both_locales [OF m(10) this m(11,12)] m(14) have "list_all (\<lambda>e. valid_translation (snd e) \<and> storable (snd e)) ts"
    by (auto simp: list_all_iff)
  from texts_written [OF ts'(1) this] have texts: "list_all text_written (product_texts d2)"
    using old(2) by (auto simp: ts'(2) cs'(2) list_all_iff)
  have items: "items = vs" using s(3) array_part [OF m(15)] by (simp add: m(1))
  have "loop_written d2" using old(1) by (simp add: ts'(2) cs'(2) loop_written_def)
  from fold_variants_written [OF s(4) [unfolded items] m(16) this] have "loop_written d3" .
  then have "loop_written (retire_variants key retained d3)" by (rule loop_written_retire)
  moreover from write_images_Inr [OF s(5)] obtain xs where "d4 = (retire_variants key retained d3)\<lparr>images := xs\<rparr>" by blast
  with s(6) have d': "product_categories d' = product_categories d3" "product_texts d' = product_texts d3"
      "variants d' = variants (retire_variants key retained d3)" "attribute_values d' = attribute_values (retire_variants key retained d3)"
    by (simp_all add: insert_audit_Inr retire_variants_def)
  have "categories_of d' key = cs'" "product_texts d' = product_texts d2"
    by (simp_all add: d'(1,2) loop ts'(2) cs'(2) categories_of_def filter_empty_conv filter_map comp_def case_prod_unfold)
  ultimately show ?thesis using texts cs'(1) m(4,5) d'(3,4) by (simp add: loop_written_def)
qed

lemma find_own: "x \<in> set xs \<Longrightarrow> distinct (map f xs) \<Longrightarrow> find (\<lambda>y. f y = f x) xs = Some x"
  by (induction xs) (auto simp: image_iff)

lemma find_product_own: "p \<in> set (products d) \<Longrightarrow> distinct (map p_id (products d)) \<Longrightarrow> find_product d (p_id p) = Some p"
  by (simp add: find_product_def find_own)

lemma committed_written:
  assumes c: "committed P draft actor corr target expected d r d'"
    and valid: "valid_draft J draft" and wf: "wf_json draft" "storable draft" and ok: "catalog_ok d" and old: "written d"
  shows "written d'"
proof -
  let ?key = "product_key P target d"
  from committed_parts [OF c] obtain previous d0 where s:
      "save_parts P draft actor corr target previous ?key d0 = Inr (r, d')"
      "d0 = d\<lparr>uuid_counter := uuid_counter d0, products := products d0\<rparr>" by blast
  have d0: "variants d0 = variants d" "attribute_values d0 = attribute_values d" "product_texts d0 = product_texts d"
      "product_categories d0 = product_categories d"
    by (subst s(2), simp)+
  have parts: "loop_written d'" "list_all text_written (product_texts d')" "1 \<le> length (categories_of d' ?key)"
      "length (categories_of d' ?key) \<le> 10"
    using save_parts_written [OF s(1) valid wf] old by (simp_all add: d0 loop_written_def written_def)
  have "product_written d' p" if p: "p \<in> set (products d')" for p
  proof -
    have "distinct (map p_id (products d'))" using committed_keeps [OF c ok] by (simp add: catalog_ok_def products_ok_def)
    with p have found: "find_product d' (p_id p) = Some p" by (rule find_product_own)
    show ?thesis
    proof (cases "p_id p = ?key")
      case True
      with committed_product [OF c] found have slug: "field_text P draft ''slug'' = Some (p_slug p)" by auto
      from valid obtain m where m: "draft = JObj m" "valid_text 1 160 (member m ''slug'')" by (auto simp: valid_draft_def)
      from fit_part [OF m(2)] wf(2) obtain sl where sl: "member m ''slug'' = JStr sl" "fit_text 1 160 sl" by (auto simp: m(1))
      with slug field_text_str [OF sl(1), of P] True parts show ?thesis by (simp add: product_written_def m(1))
    next
      case False
      with committed_product [OF c] found have "find_product d (p_id p) = Some p" by metis
      then have "product_written d p" using old find_product_id by (auto simp: written_def list_all_iff)
      moreover have "categories_of d' (p_id p) = categories_of d (p_id p)"
        using save_parts_other_tables(1) [OF s(1) False] by (simp add: categories_of_def d0)
      ultimately show ?thesis by (simp add: product_written_def)
    qed
  qed
  with parts show ?thesis by (simp add: written_def loop_written_def list_all_iff)
qed

end
