(* ===== verification/Storage.thy ===== *)
theory Storage
  imports Auth
begin

text \<open>
  modules/media/S3Storage.cpp: the object storage behind the images.  libcurl and the S3
  service it talks to are not part of the repository: they are a function from the options of
  a transfer and the stored objects to a reply, and \<open>s3_ok\<close> is what S3 documents about it.
  How a transfer ends on the network is taken from \<open>w_transfers\<close>.
\<close>

subsection \<open>The configuration\<close>

record s3_storage =
  st_endpoint :: string
  st_bucket :: string
  st_credentials :: string
  st_signing :: string

text \<open>The members are initialised in the order of their declaration, then the body runs.\<close>

definition make_storage :: "(string \<Rightarrow> string option) \<Rightarrow> s3_storage res" where
  "make_storage env =
    bind_res (required_env env ''S3_ENDPOINT'') (\<lambda>endpoint.
    bind_res (required_env env ''S3_BUCKET'') (\<lambda>bucket.
    bind_res (required_env env ''S3_ACCESS_KEY'') (\<lambda>access.
    bind_res (required_env env ''S3_SECRET_KEY'') (\<lambda>secret.
    bind_res (required_env env ''S3_REGION'') (\<lambda>region.
    bind_res (throw_if (\<not> bucket_name bucket \<or> ends_with endpoint ''/'')
      (StdError ''Invalid S3 configuration'')) (\<lambda>_.
    bind_res (required_env env ''APP_ENV'') (\<lambda>app.
    bind_res (throw_if (app \<noteq> ''development'' \<and> app \<noteq> ''test'' \<and> \<not> starts_with endpoint ''https://'')
      (StdError ''S3 requires TLS outside development'')) (\<lambda>_.
    Inr \<lparr>st_endpoint = endpoint, st_bucket = bucket, st_credentials = access @ '':'' @ secret,
         st_signing = ''aws:amz:'' @ region @ '':s3''\<rparr>))))))))"

subsection \<open>One transfer\<close>

record s3_request =
  rq_url :: string
  rq_signing :: string
  rq_credentials :: string
  rq_connect_timeout :: nat
  rq_timeout :: nat
  rq_protocols :: string
  rq_method :: string
  rq_data :: string
  rq_headers :: "string list"

record s3_reply =
  reply_status :: int
  reply_chunks :: "string list"

type_synonym objects = "(string \<times> string) list"
type_synonym s3_server = "s3_request \<Rightarrow> objects \<Rightarrow> s3_reply \<times> objects"

definition object_url :: "s3_storage \<Rightarrow> string \<Rightarrow> string" where
  "object_url st key = st_endpoint st @ ''/'' @ st_bucket st @ ''/'' @ key"

text \<open>The options set on the handle; without a body libcurl sends a GET.\<close>

definition transfer_options :: "sodium \<Rightarrow> s3_storage \<Rightarrow> string \<Rightarrow> string option \<Rightarrow> s3_request" where
  "transfer_options S st key data =
    \<lparr>rq_url = c_str (object_url st key), rq_signing = c_str (st_signing st),
     rq_credentials = c_str (st_credentials st), rq_connect_timeout = 3, rq_timeout = 15,
     rq_protocols = ''http,https'',
     rq_method = (case data of None \<Rightarrow> ''GET'' | Some _ \<Rightarrow> ''PUT''),
     rq_data = (case data of None \<Rightarrow> [] | Some d \<Rightarrow> d),
     rq_headers = [''Content-Type: image/webp'',
       ''x-amz-content-sha256: '' @ hash_token S (case data of None \<Rightarrow> [] | Some d \<Rightarrow> d)]\<rparr>"

text \<open>The write callback: \<open>None\<close> when it returns 0, which ends the transfer with an error.\<close>

definition write_chunk :: "string \<Rightarrow> string \<Rightarrow> string option" where
  "write_chunk value chunk =
     (if 10 * 1024 * 1024 < length value + length chunk then None else Some (value @ chunk))"

fun receive :: "string \<Rightarrow> string list \<Rightarrow> bool \<times> string" where
  "receive value [] = (True, value)"
| "receive value (chunk # chunks) =
     (case write_chunk value chunk of None \<Rightarrow> (False, value) | Some v \<Rightarrow> receive v chunks)"

text \<open>\<open>curl_easy_perform\<close>: whether it returned \<open>CURLE_OK\<close>, the status and the bytes written.\<close>

definition curl_perform ::
  "s3_server \<Rightarrow> s3_request \<Rightarrow> transfer \<Rightarrow> objects \<Rightarrow> (bool \<times> int \<times> string) \<times> objects" where
  "curl_perform V q fate objs =
    (case V q objs of (reply, objs') \<Rightarrow>
      (case fate of
         Cut_Early \<Rightarrow> ((False, 0, []), objs')
       | Cut_After n \<Rightarrow> ((False, reply_status reply, snd (receive [] (take n (reply_chunks reply)))), objs')
       | Answered \<Rightarrow> (case receive [] (reply_chunks reply) of (complete, v) \<Rightarrow>
           ((complete, reply_status reply, v), objs'))
       | _ \<Rightarrow> ((False, 0, []), objs)))"

definition storage_unavailable :: exn where
  "storage_unavailable = Error 503 ''STORAGE_UNAVAILABLE'' ''Media storage is unavailable''"

definition image_not_found :: exn where
  "image_not_found = Error 404 ''NOT_FOUND'' ''Image not found''"

definition storage_request ::
  "s3_server \<Rightarrow> sodium \<Rightarrow> s3_storage \<Rightarrow> string \<Rightarrow> string option \<Rightarrow> (world, string) act" where
  "storage_request V S st key data w =
    (let fate = (case w_transfers w of [] \<Rightarrow> Answered | f # _ \<Rightarrow> f);
         w' = w\<lparr>w_transfers := drop 1 (w_transfers w)\<rparr>
     in if fate = No_Handle then (Inl storage_unavailable, w')
        else case curl_perform V (transfer_options S st key data) fate (w_objects w) of
               ((complete, reply_code, result), objs) \<Rightarrow>
                 (if reply_code = 404 then Inl image_not_found
                  else if \<not> complete \<or> reply_code < 200 \<or> 300 \<le> reply_code then Inl storage_unavailable
                  else Inr result, w'\<lparr>w_objects := objs\<rparr>))"

definition storage_put :: "s3_server \<Rightarrow> sodium \<Rightarrow> s3_storage \<Rightarrow> string \<Rightarrow> string \<Rightarrow> (world, unit) act" where
  "storage_put V S st key data = bind_act (storage_request V S st key (Some data)) (\<lambda>_. ret ())"

definition storage_get :: "s3_server \<Rightarrow> sodium \<Rightarrow> s3_storage \<Rightarrow> string \<Rightarrow> (world, string) act" where
  "storage_get V S st key = storage_request V S st key None"

subsection \<open>What S3 documents\<close>

text \<open>
  A PUT with a 2xx status has stored its body under the URL and changed nothing else, one with
  another status has done so or nothing; a GET changes nothing, and with a 2xx status it
  answers the object stored.
\<close>

definition success :: "s3_reply \<Rightarrow> bool" where
  "success reply \<longleftrightarrow> 200 \<le> reply_status reply \<and> reply_status reply < 300"

definition s3_ok :: "s3_server \<Rightarrow> bool" where
  "s3_ok V \<longleftrightarrow> (\<forall>q objs reply objs'. V q objs = (reply, objs') \<longrightarrow>
     (rq_method q = ''PUT'' \<longrightarrow> map_of objs' = (map_of objs)(rq_url q \<mapsto> rq_data q) \<or>
        \<not> success reply \<and> map_of objs' = map_of objs) \<and>
     (rq_method q = ''GET'' \<longrightarrow> map_of objs' = map_of objs \<and>
        (success reply \<longrightarrow> map_of objs (rq_url q) = Some (concat (reply_chunks reply)))))"

lemma s3_put:
  "s3_ok V \<Longrightarrow> V q objs = (reply, objs') \<Longrightarrow> rq_method q = ''PUT'' \<Longrightarrow>
     map_of objs' = (map_of objs)(rq_url q \<mapsto> rq_data q) \<or> \<not> success reply \<and> map_of objs' = map_of objs"
  unfolding s3_ok_def by blast

lemma s3_get:
  "s3_ok V \<Longrightarrow> V q objs = (reply, objs') \<Longrightarrow> rq_method q = ''GET'' \<Longrightarrow>
     map_of objs' = map_of objs \<and> (success reply \<longrightarrow> map_of objs (rq_url q) = Some (concat (reply_chunks reply)))"
  unfolding s3_ok_def by blast

lemma receive_complete: "receive v chunks = (True, r) \<Longrightarrow> r = v @ concat chunks"
  by (induction v chunks rule: receive.induct) (auto simp: write_chunk_def split: if_splits)

lemma receive_bounded: "length v \<le> 10 * 1024 * 1024 \<Longrightarrow> length (snd (receive v chunks)) \<le> 10 * 1024 * 1024"
  by (induction v chunks rule: receive.induct) (auto simp: write_chunk_def)

subsection \<open>The storage as an interface\<close>

text \<open>
  The class \<open>Storage\<close> as its clients use it: a \<open>put\<close> that returns has stored the data, one
  that throws may have stored them, and neither touches another key; a \<open>get\<close> that returns
  answers what is stored.
\<close>

primrec put_all :: "('k \<Rightarrow> 'd \<Rightarrow> 's \<Rightarrow> bool \<times> 's) \<Rightarrow> ('k \<times> 'd) list \<Rightarrow> 's \<Rightarrow> bool \<times> 's" where
  "put_all put [] s = (True, s)"
| "put_all put (x # xs) s = (case put (fst x) (snd x) s of (b, t) \<Rightarrow> if b then put_all put xs t else (False, t))"

locale object_store =
  fixes put :: "'k \<Rightarrow> 'd \<Rightarrow> 's \<Rightarrow> bool \<times> 's"
    and get :: "'k \<Rightarrow> 's \<Rightarrow> 'd option \<times> 's"
    and view :: "'s \<Rightarrow> 'k \<Rightarrow> 'd option"
    and valid :: "'k \<Rightarrow> bool"
  assumes put_stores: "valid k \<Longrightarrow> put k d s = (True, t) \<Longrightarrow> view t k = Some d"
    and put_other: "valid k \<Longrightarrow> valid k' \<Longrightarrow> k' \<noteq> k \<Longrightarrow> put k d s = (b, t) \<Longrightarrow> view t k' = view s k'"
    and put_fails: "valid k \<Longrightarrow> put k d s = (False, t) \<Longrightarrow> view t k = view s k \<or> view t k = Some d"
    and get_reads: "valid k \<Longrightarrow> get k s = (Some d, t) \<Longrightarrow> view s k = Some d"
    and get_keeps: "valid k \<Longrightarrow> valid k' \<Longrightarrow> get k s = (r, t) \<Longrightarrow> view t k' = view s k'"
begin

lemma get_after_put:
  assumes "valid k" and "put k d s = (True, t)" and "get k t = (Some d', u)"
  shows "d' = d"
  using put_stores [OF assms(1,2)] get_reads [OF assms(1,3)] by simp

text \<open>No object is ever lost: a stored key stays stored.\<close>

lemma put_grows:
  assumes "valid k" and "valid k'" and "put k d s = (b, t)" and "view s k' \<noteq> None"
  shows "view t k' \<noteq> None"
proof (cases "k' = k")
  case True
  with assms put_stores [of k d s t] put_fails [of k d s t] show ?thesis by (cases b) auto
next
  case False
  with assms put_other show ?thesis by simp
qed

lemma put_all_other:
  "\<forall>x \<in> set xs. valid (fst x) \<Longrightarrow> valid k' \<Longrightarrow> k' \<notin> fst ` set xs \<Longrightarrow> put_all put xs s = (b, t) \<Longrightarrow>
     view t k' = view s k'"
proof (induction xs arbitrary: s)
  case (Cons x xs)
  obtain c u where u: "put (fst x) (snd x) s = (c, u)" by fastforce
  with Cons.prems have "view u k' = view s k'" using put_other [of "fst x" k' "snd x" s c u] by auto
  with Cons u show ?case by (auto split: if_splits)
qed simp

lemma put_all_grows:
  "\<forall>x \<in> set xs. valid (fst x) \<Longrightarrow> valid k' \<Longrightarrow> put_all put xs s = (b, t) \<Longrightarrow> view s k' \<noteq> None \<Longrightarrow>
     view t k' \<noteq> None"
proof (induction xs arbitrary: s)
  case (Cons x xs)
  obtain c u where u: "put (fst x) (snd x) s = (c, u)" by fastforce
  with Cons.prems have "view u k' \<noteq> None" using put_grows [of "fst x" k' "snd x" s c u] by simp
  with Cons u show ?case by (auto split: if_splits)
qed simp

lemma put_all_stores:
  "\<forall>x \<in> set xs. valid (fst x) \<Longrightarrow> distinct (map fst xs) \<Longrightarrow> put_all put xs s = (True, t) \<Longrightarrow>
     \<forall>(k, d) \<in> set xs. view t k = Some d"
proof (induction xs arbitrary: s)
  case (Cons x xs)
  obtain c u where u: "put (fst x) (snd x) s = (c, u)" by fastforce
  with Cons.prems have c: "c" and rest: "put_all put xs u = (True, t)" by (auto split: if_splits)
  have "view u (fst x) = Some (snd x)" using put_stores [of "fst x" "snd x" s u] Cons.prems(1) u c by simp
  moreover have "view t (fst x) = view u (fst x)"
    using put_all_other [OF _ _ _ rest, of "fst x"] Cons.prems(1,2) by auto
  moreover have "\<forall>(k, d) \<in> set xs. view t k = Some d"
    using Cons.IH [OF _ _ rest] Cons.prems(1,2) by simp
  ultimately show ?case by auto
qed simp

end

text \<open>\<open>S3Storage\<close> with a service that keeps its documentation, on keys without a NUL.\<close>

definition store_put :: "s3_server \<Rightarrow> sodium \<Rightarrow> s3_storage \<Rightarrow> string \<Rightarrow> string \<Rightarrow> world \<Rightarrow> bool \<times> world" where
  "store_put V S st key data w = (case storage_put V S st key data w of (r, w') \<Rightarrow> (ok r, w'))"

definition store_get :: "s3_server \<Rightarrow> sodium \<Rightarrow> s3_storage \<Rightarrow> string \<Rightarrow> world \<Rightarrow> string option \<times> world" where
  "store_get V S st key w = (case storage_get V S st key w of
     (Inl _, w') \<Rightarrow> (None, w') | (Inr d, w') \<Rightarrow> (Some d, w'))"

definition stored :: "s3_storage \<Rightarrow> world \<Rightarrow> string \<Rightarrow> string option" where
  "stored st w key = map_of (w_objects w) (object_url st key)"

definition storable_key :: "s3_server \<Rightarrow> s3_storage \<Rightarrow> string \<Rightarrow> bool" where
  "storable_key V st key \<longleftrightarrow> s3_ok V \<and> CHR 0x00 \<notin> set (object_url st key)"

lemma transfer_options_simps [simp]:
  "rq_method (transfer_options S st key (Some d)) = ''PUT''"
  "rq_method (transfer_options S st key None) = ''GET''"
  "rq_data (transfer_options S st key (Some d)) = d"
  "CHR 0x00 \<notin> set (object_url st key) \<Longrightarrow> rq_url (transfer_options S st key data) = object_url st key"
  by (simp_all add: transfer_options_def c_str_no_nul)

lemma object_url_inj [simp]: "object_url st key = object_url st key' \<longleftrightarrow> key = key'"
  by (simp add: object_url_def)

lemma curl_perform_put:
  assumes "s3_ok V" and "rq_method q = ''PUT''" and "curl_perform V q fate objs = ((complete, n, v), objs')"
  shows "map_of objs' = (map_of objs)(rq_url q \<mapsto> rq_data q) \<or>
    \<not> (complete \<and> 200 \<le> n \<and> n < 300) \<and> map_of objs' = map_of objs"
proof -
  obtain reply o1 where V: "V q objs = (reply, o1)" by fastforce
  with s3_put [OF assms(1) V assms(2)] assms(3) show ?thesis
    by (auto simp: curl_perform_def success_def split: transfer.splits prod.splits)
qed

lemma curl_perform_get:
  assumes "s3_ok V" and "rq_method q = ''GET''" and "curl_perform V q fate objs = ((complete, n, v), objs')"
  shows "map_of objs' = map_of objs \<and>
    (complete \<and> 200 \<le> n \<and> n < 300 \<longrightarrow> map_of objs (rq_url q) = Some v)"
proof -
  obtain reply o1 where V: "V q objs = (reply, o1)" by fastforce
  with s3_get [OF assms(1) V assms(2)] assms(3) show ?thesis
    by (auto simp: curl_perform_def success_def dest: receive_complete split: transfer.splits prod.splits)
qed

lemma storage_request_put:
  assumes "storable_key V st key" and "storage_request V S st key (Some d) w = (r, w')"
  shows "map_of (w_objects w') = (map_of (w_objects w))(object_url st key \<mapsto> d) \<or>
    \<not> ok r \<and> map_of (w_objects w') = map_of (w_objects w)"
proof -
  define fate where "fate = (case w_transfers w of [] \<Rightarrow> Answered | f # _ \<Rightarrow> f)"
  obtain complete n v objs where c: "curl_perform V (transfer_options S st key (Some d)) fate (w_objects w) = ((complete, n, v), objs)"
    by (metis prod_cases3 surj_pair)
  from assms(1) have V: "s3_ok V" and nul: "CHR 0x00 \<notin> set (object_url st key)" by (simp_all add: storable_key_def)
  from curl_perform_put [OF V _ c] nul assms(2) show ?thesis
    by (auto simp: storage_request_def c Let_def simp flip: fate_def split: if_splits)
qed

lemma storage_request_get:
  assumes "storable_key V st key" and "storage_request V S st key None w = (r, w')"
  shows "map_of (w_objects w') = map_of (w_objects w) \<and> (\<forall>v. r = Inr v \<longrightarrow> stored st w key = Some v)"
proof -
  define fate where "fate = (case w_transfers w of [] \<Rightarrow> Answered | f # _ \<Rightarrow> f)"
  obtain complete n v objs where c: "curl_perform V (transfer_options S st key None) fate (w_objects w) = ((complete, n, v), objs)"
    by (metis prod_cases3 surj_pair)
  from assms(1) have V: "s3_ok V" and nul: "CHR 0x00 \<notin> set (object_url st key)" by (simp_all add: storable_key_def)
  from curl_perform_get [OF V _ c] nul assms(2) show ?thesis
    by (auto simp: storage_request_def c Let_def stored_def simp flip: fate_def split: if_splits)
qed

lemma store_put_eq: "store_put V S st key d w = (b, w') \<longleftrightarrow>
    (\<exists>r. storage_request V S st key (Some d) w = (r, w') \<and> b = ok r)"
  by (cases "storage_request V S st key (Some d) w"; cases "fst (storage_request V S st key (Some d) w)")
    (auto simp: store_put_def storage_put_def bind_act_simp)

lemma store_get_eq: "store_get V S st key w = (x, w') \<longleftrightarrow>
    (\<exists>r. storage_request V S st key None w = (r, w') \<and> x = (case r of Inl _ \<Rightarrow> None | Inr d \<Rightarrow> Some d))"
  by (cases "storage_request V S st key None w"; cases "fst (storage_request V S st key None w)")
    (auto simp: store_get_def storage_get_def)

interpretation s3: object_store "store_put V S st" "store_get V S st" "stored st" "storable_key V st" for V S st
proof unfold_locales
  fix k d s t assume "storable_key V st k" "store_put V S st k d s = (True, t)"
  with storage_request_put show "stored st t k = Some d" by (fastforce simp: store_put_eq stored_def)
next
  fix k k' d s b t
  assume "storable_key V st k" "k' \<noteq> k" "store_put V S st k d s = (b, t)"
  with storage_request_put show "stored st t k' = stored st s k'" by (fastforce simp: store_put_eq stored_def)
next
  fix k d s t assume "storable_key V st k" "store_put V S st k d s = (False, t)"
  with storage_request_put show "stored st t k = stored st s k \<or> stored st t k = Some d"
    by (fastforce simp: store_put_eq stored_def)
next
  fix k s d t assume "storable_key V st k" "store_get V S st k s = (Some d, t)"
  then obtain r where "storage_request V S st k None s = (r, t)" "r = Inr d" by (cases "fst (storage_request V S st k None s)") (auto simp: store_get_eq)
  with storage_request_get [OF \<open>storable_key V st k\<close>] show "stored st s k = Some d" by blast
next
  fix k k' s r t assume "storable_key V st k" "store_get V S st k s = (r, t)"
  then show "stored st t k' = stored st s k'" by (auto simp: store_get_eq stored_def dest: storage_request_get)
qed

lemma storage_request_db:
  "storage_request V S st key data w = (r, w') \<Longrightarrow>
     w_db w' = w_db w \<and> w_fates w' = w_fates w \<and> w_random w' = w_random w"
  by (auto simp: storage_request_def Let_def split: if_splits prod.splits)

lemma storage_request_errors:
  "storage_request V S st key data w = (Inl e, w') \<Longrightarrow> e = image_not_found \<or> e = storage_unavailable"
  by (auto simp: storage_request_def Let_def split: if_splits prod.splits)

lemma curl_perform_bounded: "curl_perform V q fate objs = ((c, n, v), objs') \<Longrightarrow> length v \<le> 10 * 1024 * 1024"
  using receive_bounded [of "[]"] by (auto simp: curl_perform_def split: transfer.splits prod.splits) (metis snd_conv)

subsection \<open>A sample service\<close>

text \<open>A service that accepts every signature and answers in one chunk.\<close>

definition sample_s3 :: s3_server where
  "sample_s3 q objs =
    (if rq_method q = ''PUT'' then (\<lparr>reply_status = 200, reply_chunks = []\<rparr>, (rq_url q, rq_data q) # objs)
     else case map_of objs (rq_url q) of
            None \<Rightarrow> (\<lparr>reply_status = 404, reply_chunks = [''NoSuchKey'']\<rparr>, objs)
          | Some d \<Rightarrow> (\<lparr>reply_status = 200, reply_chunks = [d]\<rparr>, objs))"

lemma sample_s3_ok: "s3_ok sample_s3"
  by (auto simp: s3_ok_def sample_s3_def success_def split: if_splits option.splits)

definition sample_storage :: s3_storage where
  "sample_storage = \<lparr>st_endpoint = ''https://s3.bee.md'', st_bucket = ''bee-media'',
     st_credentials = ''access:secret'', st_signing = ''aws:amz:eu:s3''\<rparr>"

definition sample_bucket :: world where
  "sample_bucket = \<lparr>w_db = empty_db, w_fates = [], w_objects = [], w_transfers = [], w_random = 0\<rparr>"

subsection \<open>Properties\<close>

text \<open>
  C35. What a client of the storage can see.  A reply to \<open>get\<close> has at most 10 MB and is the object
  stored under the key, and a \<open>put\<close> that returns has stored its data; everything else is one of
  two errors: 404 exactly when S3 answered 404 (the status line having arrived), and 503 for no handle,
  no connection, a broken answer, an answer that is too long or any other status outside 2xx.
  Nothing but the object of the key changes, and no database row.
\<close>

theorem storage_outcomes:
  assumes "storable_key V st key" and "storage_request V S st key data w = (r, w')"
    and "fate = (case w_transfers w of [] \<Rightarrow> Answered | f # _ \<Rightarrow> f)"
    and "answer = fst (V (transfer_options S st key data) (w_objects w))"
  shows "w_db w' = w_db w \<and> (\<forall>other. other \<noteq> key \<longrightarrow> stored st w' other = stored st w other) \<and>
    (case r of
       Inr v \<Rightarrow> length v \<le> 10485760 \<and> fate = Answered \<and> 200 \<le> reply_status answer \<and> reply_status answer < 300 \<and>
         (case data of None \<Rightarrow> stored st w key = Some v | Some d \<Rightarrow> stored st w' key = Some d)
     | Inl e \<Rightarrow> e = (if reply_status answer = 404 \<and> (fate = Answered \<or> (\<exists>n. fate = Cut_After n))
           then image_not_found else storage_unavailable) \<and>
         (stored st w' key = stored st w key \<or> (\<exists>d. data = Some d \<and> stored st w' key = Some d)))"
proof -
  have objects: "(\<forall>other. other \<noteq> key \<longrightarrow> stored st w' other = stored st w other) \<and>
      (case data of None \<Rightarrow> stored st w' key = stored st w key \<and> (\<forall>v. r = Inr v \<longrightarrow> stored st w key = Some v)
       | Some d \<Rightarrow> stored st w' key = Some d \<or> \<not> ok r \<and> stored st w' key = stored st w key)"
  proof (cases data)
    case None
    with storage_request_get assms(1,2) show ?thesis by (fastforce simp: stored_def)
  next
    case (Some d)
    with storage_request_put [OF assms(1), of S d w r w'] assms(2) show ?thesis by (auto simp: stored_def)
  qed
  obtain complete n v objs where c: "curl_perform V (transfer_options S st key data) fate (w_objects w) = ((complete, n, v), objs)"
    by (metis prod_cases3 surj_pair)
  have reply: "n = (if fate = Answered \<or> (\<exists>k. fate = Cut_After k) then reply_status answer else 0)"
    "complete \<Longrightarrow> fate = Answered"
    using c by (auto simp: curl_perform_def assms(4) split: transfer.splits prod.splits)
  have r: "r = (if fate = No_Handle then Inl storage_unavailable else if n = 404 then Inl image_not_found
      else if \<not> complete \<or> n < 200 \<or> 300 \<le> n then Inl storage_unavailable else Inr v)"
    using assms(2) by (auto simp: storage_request_def Let_def c simp flip: assms(3) split: if_splits)
  show ?thesis
    using objects reply curl_perform_bounded [OF c] storage_request_db [OF assms(2)]
    by (auto simp: r split: if_splits option.splits)
qed

theorem storage_outcomes_witness:
  "\<forall>S. stored sample_storage (snd (storage_request sample_s3 S sample_storage ''k'' (Some ''v'') sample_bucket)) ''k'' = Some ''v''"
proof
  fix S
  obtain r w' where step: "storage_request sample_s3 S sample_storage ''k'' (Some ''v'') sample_bucket = (r, w')" by fastforce
  moreover have "r = Inr []"
    using step by (simp add: storage_request_def sample_bucket_def curl_perform_def sample_s3_def)
  moreover have "storable_key sample_s3 sample_storage ''k''"
    by (simp add: storable_key_def sample_s3_ok object_url_def sample_storage_def)
  ultimately show "stored sample_storage (snd (storage_request sample_s3 S sample_storage ''k'' (Some ''v'') sample_bucket)) ''k'' = Some ''v''"
    using storage_outcomes [of sample_s3 sample_storage "''k''" S "Some ''v''" sample_bucket r w', OF _ _ refl refl] by simp
qed

end
