(* ===== verification/Auth_Throttle.thy ===== *)
theory Auth_Throttle
  imports Auth Sample_Catalog
begin

text \<open>
  The limit on sign-in attempts.  A counter with a fixed window is an interface: a hit on a
  key either fails and changes nothing, or counts in the current window, or opens a new one.
  The potential \<open>budget\<close> of a key bounds the hits that can still be granted in an interval as
  long as the window; \<open>auth_throttles\<close> is such a counter, and a sign-in that reaches the
  credential check has paid one unit.
\<close>

subsection \<open>Counters with a fixed window\<close>

type_synonym counter = "(int \<times> int) option"   \<comment> \<open>attempts and reset time\<close>

definition counted :: "int \<Rightarrow> int \<Rightarrow> counter \<Rightarrow> int \<times> int" where
  "counted w t v = (case v of None \<Rightarrow> (1, t + w)
     | Some (a, r) \<Rightarrow> if r \<le> t then (1, t + w) else (a + 1, r))"

definition budget :: "nat \<Rightarrow> int \<Rightarrow> int \<Rightarrow> counter \<Rightarrow> nat" where
  "budget limit w T v = (case v of None \<Rightarrow> limit
     | Some (a, r) \<Rightarrow> nat (int limit - a) + (if r < T + w then limit else 0))"

locale windowed_counter =
  fixes hit :: "'k \<Rightarrow> int \<Rightarrow> 's \<Rightarrow> int option \<times> 's"
    and view :: "'s \<Rightarrow> 'k \<Rightarrow> counter"
    and width :: int
  assumes hit_view: "hit k t s = (r, s') \<Longrightarrow>
      (r = None \<and> view s' k = view s k) \<or>
      (view s' k = Some (counted width t (view s k)) \<and> r = Some (fst (counted width t (view s k))))"
    and other_view: "hit k t s = (r, s') \<Longrightarrow> k' \<noteq> k \<Longrightarrow> view s' k' = view s k'"
begin

lemma budget_counted:
  assumes "T \<le> t" "t < T + width" "1 \<le> limit"
  shows "budget limit width T (Some (counted width t v)) + (if fst (counted width t v) \<le> int limit then 1 else 0)
      \<le> budget limit width T v"
  using assms by (auto simp: budget_def counted_def split: option.splits)

lemma budget_hit:
  assumes "hit k t s = (r, s')" "T \<le> t" "t < T + width" "1 \<le> limit"
  shows "budget limit width T (view s' k') + (if k' = k \<and> (\<exists>n. r = Some n \<and> n \<le> int limit) then 1 else 0)
      \<le> budget limit width T (view s k')"
proof (cases "k' = k")
  case True
  from hit_view [OF assms(1)] show ?thesis
  proof
    assume "r = None \<and> view s' k = view s k"
    with True show ?thesis by simp
  next
    assume "view s' k = Some (counted width t (view s k)) \<and> r = Some (fst (counted width t (view s k)))"
    with budget_counted [OF assms(2-4), of "view s k"] True show ?thesis by auto
  qed
qed (simp add: other_view [OF assms(1)])

lemma budget_start: "(\<And>a r. view s k = Some (a, r) \<Longrightarrow> 0 \<le> a) \<Longrightarrow> budget limit width T (view s k) \<le> 2 * limit"
  by (auto simp: budget_def split: option.splits)

end

subsection \<open>\<open>auth_throttles\<close> is one\<close>

definition attempt_at :: "string \<Rightarrow> int \<Rightarrow> db \<Rightarrow> int option \<times> db" where
  "attempt_at hash t d = (case attempt_statement hash (d\<lparr>clock := t\<rparr>) of
     Inl _ \<Rightarrow> (None, d\<lparr>clock := t\<rparr>) | Inr (n, d') \<Rightarrow> (Some n, d'))"

definition throttle_view :: "db \<Rightarrow> string \<Rightarrow> counter" where
  "throttle_view d hash = map_option (\<lambda>t. (th_attempts t, th_resets t)) (find_throttle d hash)"

lemma find_throttle_key: "find_throttle d hash = Some t \<Longrightarrow> th_key t = hash"
  by (auto simp: find_throttle_def find_Some_iff)

lemma find_map_throttle:
  "(\<And>t. th_key (f t) = th_key t) \<Longrightarrow>
    find (\<lambda>t. th_key t = k) (map f ts) = map_option f (find (\<lambda>t. th_key t = k) ts)"
  by (induction ts) auto

lemma find_throttle_append:
  "find (\<lambda>t. th_key t = k) (ts @ [t]) = (case find (\<lambda>t. th_key t = k) ts of
     None \<Rightarrow> if th_key t = k then Some t else None | Some u \<Rightarrow> Some u)"
  by (induction ts) auto

lemma attempt_statement_Inr:
  assumes "attempt_statement hash d = Inr (n, d')"
  shows "n = fst (counted window (clock d) (throttle_view d hash)) \<and>
    throttle_view d' hash = Some (counted window (clock d) (throttle_view d hash)) \<and>
    (\<forall>k. k \<noteq> hash \<longrightarrow> throttle_view d' k = throttle_view d k) \<and>
    d' = d\<lparr>throttles := throttles d'\<rparr>"
proof (cases "find_throttle d hash")
  case None
  with assms show ?thesis
    by (auto simp: attempt_statement_def throttle_view_def find_throttle_def find_throttle_append counted_def
        split: option.splits)
next
  case (Some t)
  let ?n = "if th_resets t \<le> clock d then 1 else th_attempts t + 1"
  let ?r = "if th_resets t \<le> clock d then clock d + window else th_resets t"
  let ?f = "\<lambda>u. if th_key u = hash then u\<lparr>th_attempts := ?n, th_resets := ?r\<rparr> else u"
  from assms Some have d': "n = ?n" "d' = d\<lparr>throttles := map ?f (throttles d)\<rparr>"
    by (auto simp: attempt_statement_def Let_def split: if_splits)
  have find: "find_throttle d' k = map_option ?f (find_throttle d k)" for k
    unfolding find_throttle_def d'(2) using find_map_throttle [of ?f k "throttles d"] by simp
  have "throttle_view d' k = throttle_view d k" if "k \<noteq> hash" for k
    using that by (cases "find_throttle d k") (auto simp: throttle_view_def find dest: find_throttle_key)
  with Some find_throttle_key [OF Some] show ?thesis
    by (simp add: throttle_view_def find d'(1) counted_def) (simp add: d'(2))
qed

lemma throttle_view_clock [simp]: "throttle_view (d\<lparr>clock := t\<rparr>) k = throttle_view d k"
  by (simp add: throttle_view_def find_throttle_def)

interpretation throttle: windowed_counter attempt_at throttle_view window
proof unfold_locales
  fix k t s r s'
  assume hit: "attempt_at k t s = (r, s')"
  show "(r = None \<and> throttle_view s' k = throttle_view s k) \<or>
      (throttle_view s' k = Some (counted window t (throttle_view s k)) \<and> r = Some (fst (counted window t (throttle_view s k))))"
    using hit attempt_statement_Inr [of k "s\<lparr>clock := t\<rparr>"]
    by (auto simp: attempt_at_def split: sum.splits)
  show "throttle_view s' k' = throttle_view s k'" if "k' \<noteq> k" for k'
    using hit that attempt_statement_Inr [of k "s\<lparr>clock := t\<rparr>"]
    by (auto simp: attempt_at_def split: sum.splits)
qed

subsection \<open>Sign-ins\<close>

text \<open>A request to the database: the budget of no key grows; a count within the limit costs one.\<close>

lemma consume_budget:
  assumes "consume S key w = (r, w')" and t: "T \<le> clock (w_db w)" "clock (w_db w) < T + window" "1 \<le> limit"
  shows "budget limit window T (throttle_view (w_db w') k) +
      (if k = hash_token S key \<and> r = Inr () \<and> int limit = (if starts_with key ''email:'' then 10 else 50) then 1 else 0)
      \<le> budget limit window T (throttle_view (w_db w) k) \<and> clock (w_db w') = clock (w_db w)"
proof -
  have clk: "(w_db w)\<lparr>clock := clock (w_db w)\<rparr> = w_db w" by simp
  have hit: "budget limit window T (throttle_view d' k) + (if k = hash_token S key \<and> n \<le> int limit then 1 else 0)
      \<le> budget limit window T (throttle_view (w_db w) k) \<and> clock d' = clock (w_db w)"
    if "attempt_statement (hash_token S key) (w_db w) = Inr (n, d')" for n d'
  proof -
    have "attempt_at (hash_token S key) (clock (w_db w)) (w_db w) = (Some n, d')"
      by (simp add: attempt_at_def clk that)
    from throttle.budget_hit [OF this t, of k] have "budget limit window T (throttle_view d' k) +
        (if k = hash_token S key \<and> n \<le> int limit then 1 else 0) \<le> budget limit window T (throttle_view (w_db w) k)" by simp
    moreover have "d' = (w_db w)\<lparr>throttles := throttles d'\<rparr>" using attempt_statement_Inr [OF that] by simp
    then have "clock d' = clock (w_db w)" by (metis db.select_convs(1) db.update_convs(7) db.surjective)
    ultimately show ?thesis by simp
  qed
  obtain x w1 where ex: "exec_sql (attempt_statement (hash_token S key)) w = (x, w1)" by fastforce
  show ?thesis
  proof (cases x)
    case (Inl e)
    with ex assms(1) have r: "r = Inl e" "w' = w1" by (auto simp: consume_def bind_act_simp)
    from exec_sql_Inl [OF ex [unfolded Inl]] have "w_db w1 = w_db w \<or>
        (\<exists>n. attempt_statement (hash_token S key) (w_db w) = Inr (n, w_db w1))" by blast
    with hit r show ?thesis by (auto intro: order_trans [rotated])
  next
    case (Inr n)
    with ex assms(1) have r: "w' = w1" "r = Inr () \<longrightarrow> n \<le> (if starts_with key ''email:'' then 10 else 50)"
      by (auto simp: consume_def bind_act_simp)
    from exec_sql_Inr [OF ex [unfolded Inr]] obtain d where
      "attempt_statement (hash_token S key) (w_db w) = Inr (n, d)" "w_db w1 = d" by auto
    with hit [of n d] r show ?thesis by (auto split: if_splits)
  qed
qed


text \<open>A call that got as far as the credential check: it signed in, or was told they are wrong.\<close>

definition reached :: "'a res \<Rightarrow> bool" where
  "reached r \<longleftrightarrow> ok r \<or> r = Inl wrong_credentials"

lemma throttle_view_sessions [simp]: "throttle_view (d\<lparr>session_rows := x\<rparr>) k = throttle_view d k"
  by (simp add: throttle_view_def find_throttle_def)

lemma create_session_Inr:
  "create_session_statement P hash user d = Inr (x, d') \<longleftrightarrow>
     (\<exists>u. uuid_in P user = Some u \<and> hash \<notin> s_token_hash ` set (session_rows d) \<and> u \<in> u_id ` set (users d) \<and>
       d' = d\<lparr>session_rows := session_rows d @ [\<lparr>s_token_hash = hash, s_user = u, s_expires = clock d + session_life\<rparr>]\<rparr>)"
  by (auto simp: create_session_statement_def bind_res_eq_Inr cast_eq_Inr list_ex_key)

text \<open>What follows the two counters does not touch them.\<close>

lemma login_rest_throttles:
  "throttle_view (w_db (snd (bind_act (exec_sql (credentials_query email)) (\<lambda>rows.
      bind_act (lift_res (check_credentials S A password rows)) (\<lambda>uid.
      bind_act (draw (\<lambda>n. bin2hex (random_bytes S n))) (\<lambda>token.
      bind_act (exec_sql (create_session_statement P (hash_token S token) uid)) (\<lambda>_. f uid token)))) w))) k =
    throttle_view (w_db w) k"
  if "\<And>uid token v. snd (f uid token v) = v"
proof -
  have create: "throttle_view (w_db (snd (exec_sql (create_session_statement P h uid) v))) k = throttle_view (w_db v) k" for h uid v
    by (auto simp: exec_sql_def Let_def create_session_Inr split: sum.splits prod.splits)
  have query: "w_db (snd (exec_sql (credentials_query email) v)) = w_db v" for v
    by (auto simp: exec_sql_def Let_def credentials_query_def)
  show ?thesis
    by (simp add: bind_act_simp query create draw_def that split: sum.splits)
qed

lemma login_budget:
  assumes "login P S A raw password address w = (r, w')"
    and t: "T \<le> clock (w_db w)" "clock (w_db w) < T + window"
  shows "budget 10 window T (throttle_view (w_db w') (hash_token S (''email:'' @ email))) +
      (if lower raw = email \<and> reached r then 1 else 0)
      \<le> budget 10 window T (throttle_view (w_db w) (hash_token S (''email:'' @ email)))"
proof (cases "raw = [] \<or> 254 < length raw \<or> password = [] \<or> 256 < length password")
  case True
  with assms(1) have "w' = w \<and> \<not> reached r"
    by (auto simp: login_def Let_def bind_act_simp throw_if_def reached_def wrong_credentials_def)
  then show ?thesis by simp
next
  case False
  let ?k = "hash_token S (''email:'' @ email)"
  obtain x w1 where c1: "consume S (''email:'' @ lower raw) w = (x, w1)" by fastforce
  have nat10: "int 10 = (if starts_with (''email:'' @ lower raw) ''email:'' then 10 else 50)" by (simp add: starts_with_def)
  note step1 = consume_budget [OF c1 t, of 10 ?k, folded nat10, simplified]
  from step1 have b1: "budget 10 window T (throttle_view (w_db w1) ?k) + (if lower raw = email \<and> x = Inr () then 1 else 0)
      \<le> budget 10 window T (throttle_view (w_db w) ?k)" and clk: "clock (w_db w1) = clock (w_db w)"
    by (cases "lower raw = email"; simp)+
  show ?thesis
  proof (cases x)
    case (Inl e)
    have "e \<noteq> wrong_credentials"
      using c1 Inl unfolding consume_def
      by (auto simp: bind_act_simp wrong_credentials_def split: sum.splits dest!: exec_sql_fst_Inl)
    with Inl False assms(1) c1 have "w' = w1 \<and> \<not> reached r"
      by (auto simp: login_def Let_def bind_act_simp reached_def throw_if_def)
    with b1 show ?thesis by simp
  next
    case (Inr u)
    obtain y w2 where c2: "consume S (''address:'' @ address) w1 = (y, w2)" by fastforce
    from consume_budget [OF c2, of T 10 ?k] t clk
    have b2: "budget 10 window T (throttle_view (w_db w2) ?k) \<le> budget 10 window T (throttle_view (w_db w1) ?k)" by simp
    have "throttle_view (w_db w') ?k = throttle_view (w_db w2) ?k"
    proof (cases y)
      case (Inl e)
      with assms(1) False c1 Inr c2 show ?thesis by (auto simp: login_def Let_def bind_act_simp throw_if_def)
    next
      case (Inr v)
      let ?f = "\<lambda>uid token. ret (token, \<lparr>pr_id = uid, pr_email = lower raw, pr_permissions = JArr []\<rparr>) :: (world, string \<times> principal) act"
      have "w' = snd (bind_act (exec_sql (credentials_query (lower raw))) (\<lambda>rows.
          bind_act (lift_res (check_credentials S A password rows)) (\<lambda>uid.
          bind_act (draw (\<lambda>n. bin2hex (random_bytes S n))) (\<lambda>token.
          bind_act (exec_sql (create_session_statement P (hash_token S token) uid)) (\<lambda>_. ?f uid token)))) w2)"
        using assms(1) False c1 \<open>x = Inr u\<close> c2 Inr
        by (simp add: login_def Let_def throw_if_def bind_act_simp [of "consume S k" for k])
      then show ?thesis by (simp only: login_rest_throttles [of ?f] ret_simp snd_conv)
    qed
    with b1 b2 Inr show ?thesis by (auto split: if_splits)
  qed
qed

subsection \<open>A run of sign-ins\<close>

record login_call =
  lc_time :: int
  lc_email :: string
  lc_password :: string
  lc_address :: string

definition set_clock :: "int \<Rightarrow> world \<Rightarrow> world" where
  "set_clock t w = w\<lparr>w_db := (w_db w)\<lparr>clock := t\<rparr>\<rparr>"

fun login_run :: "postgres \<Rightarrow> sodium \<Rightarrow> auth_service \<Rightarrow> login_call list \<Rightarrow> world \<Rightarrow> (string \<times> principal) res list" where
  "login_run P S A [] w = []"
| "login_run P S A (c # cs) w =
     (let (r, w') = login P S A (lc_email c) (lc_password c) (lc_address c) (set_clock (lc_time c) w)
      in r # login_run P S A cs w')"

lemma login_run_budget:
  assumes "\<forall>c \<in> set calls. T \<le> lc_time c \<and> lc_time c < T + window"
  shows "length (filter (\<lambda>(c, r). lower (lc_email c) = email \<and> reached r) (zip calls (login_run P S A calls w)))
    \<le> budget 10 window T (throttle_view (w_db w) (hash_token S (''email:'' @ email)))"
  using assms
proof (induction calls arbitrary: w)
  case (Cons c cs)
  obtain r w' where step: "login P S A (lc_email c) (lc_password c) (lc_address c) (set_clock (lc_time c) w) = (r, w')"
    by fastforce
  have "budget 10 window T (throttle_view (w_db w') (hash_token S (''email:'' @ email))) +
      (if lower (lc_email c) = email \<and> reached r then 1 else 0)
      \<le> budget 10 window T (throttle_view (w_db w) (hash_token S (''email:'' @ email)))"
    using login_budget [OF step, of T email] Cons.prems by (simp add: set_clock_def)
  with Cons.IH [of w'] Cons.prems step show ?case by (auto split: if_splits)
qed simp

subsection \<open>A sample instance\<close>

definition sample_sodium :: sodium where
  "sample_sodium = \<lparr>sha256 = (\<lambda>s. take 32 (s @ replicate 32 CHR ''x'')),
     pwhash = (\<lambda>_ p. Some (filter (\<lambda>c. c \<noteq> CHR 0x00) p)), pwhash_verify = (\<lambda>h p. h = filter (\<lambda>c. c \<noteq> CHR 0x00) p),
     random_bytes = (\<lambda>n. replicate 32 (char_of n))\<rparr>"

lemma sample_sodium_ok: "sodium_ok sample_sodium"
  by (auto simp: sodium_ok_def sample_sodium_def min_def)

definition sample_auth :: auth_service where
  "sample_auth = \<lparr>auth_secure = True, auth_origin = ''https://admin.bee.md'', auth_dummy = ''d''\<rparr>"

definition sample_world :: world where
  "sample_world = \<lparr>w_db = sample_db\<lparr>user_roles := [(sample_admin, ''ADMIN'')],
     role_permissions := [(''ADMIN'', ''products.read''), (''ADMIN'', ''products.write''), (''ADMIN'', ''media.write'')]\<rparr>,
     w_fates = [], w_objects = [], w_transfers = [], w_random = 0\<rparr>"

subsection \<open>Properties\<close>

text \<open>
  C7. Password guessing is limited.  Whatever the passwords, addresses, other e-mails and
  database failures mixed in, within any fifteen minutes at most twenty sign-in requests for one
  e-mail (in any spelling of its letters) get as far as the credential check, and at most ten
  if its counter was not running; all others are refused without an answer about the password.
\<close>

theorem login_throttled:
  assumes "\<forall>c \<in> set calls. T \<le> lc_time c \<and> lc_time c < T + 900000000"
    and "\<forall>t \<in> set (throttles (w_db w)). 0 \<le> th_attempts t"
    and "checked = length (filter (\<lambda>(c, r). lower (lc_email c) = email \<and> reached r) (zip calls (login_run P S A calls w)))"
  shows "checked \<le> 20 \<and> (find_throttle (w_db w) (hash_token S (''email:'' @ email)) = None \<longrightarrow> checked \<le> 10)"
proof -
  let ?k = "hash_token S (''email:'' @ email)"
  from login_run_budget [of calls T email P S A w] assms(1,3)
  have le: "checked \<le> budget 10 window T (throttle_view (w_db w) ?k)" by (simp add: window_def)
  have "budget 10 window T (throttle_view (w_db w) ?k) \<le> 2 * 10"
    by (rule throttle.budget_start) (use assms(2) in \<open>auto simp: throttle_view_def find_throttle_def find_Some_iff\<close>)
  moreover have "budget 10 window T (throttle_view (w_db w) ?k) = 10" if "find_throttle (w_db w) ?k = None"
    using that by (simp add: throttle_view_def budget_def)
  ultimately show ?thesis using le by auto
qed

theorem login_throttled_witness:
  "length (filter (\<lambda>(c, r). lower (lc_email c) = ''admin@bee.md'' \<and> reached r)
     (zip [\<lparr>lc_time = 2000, lc_email = ''Admin@bee.md'', lc_password = ''guess'', lc_address = ''10.0.0.1''\<rparr>]
       (login_run sample_postgres sample_sodium sample_auth
         [\<lparr>lc_time = 2000, lc_email = ''Admin@bee.md'', lc_password = ''guess'', lc_address = ''10.0.0.1''\<rparr>] sample_world))) \<le> 10"
proof -
  let ?calls = "[\<lparr>lc_time = 2000, lc_email = ''Admin@bee.md'', lc_password = ''guess'', lc_address = ''10.0.0.1''\<rparr>]"
  have times: "\<forall>c \<in> set ?calls. 0 \<le> lc_time c \<and> lc_time c < 0 + 900000000" by simp
  have attempts: "\<forall>t \<in> set (throttles (w_db sample_world)). 0 \<le> th_attempts t"
    by (simp add: sample_world_def sample_db_def empty_db_def)
  have unused: "find_throttle (w_db sample_world) h = None" for h
    by (simp add: find_throttle_def sample_world_def sample_db_def empty_db_def)
  show ?thesis by (rule login_throttled [OF times attempts refl, THEN conjunct2, THEN mp, OF unused])
qed

end
