(* ===== verification/Auth_Sessions.thy ===== *)
theory Auth_Sessions
  imports Auth_Throttle
begin

text \<open>
  Sessions: what \<open>require\<close> accepts, what a sign-in creates, and when a token stops working.
  A store of tokens with a limited life is an interface; the table \<open>sessions\<close> with the two
  statements that write it is one.
\<close>

subsection \<open>Digests\<close>

lemma bin2hex_length: "length (bin2hex s) = 2 * length s"
  by (induction s) (auto simp: bin2hex_def Let_def)

lemma hash_token_length: "sodium_ok S \<Longrightarrow> length (hash_token S t) = 64"
  by (simp add: hash_token_def bin2hex_length sodium_ok_def)

lemma random_token_length: "sodium_ok S \<Longrightarrow> length (bin2hex (random_bytes S n)) = 64"
  by (simp add: bin2hex_length sodium_ok_def)

subsection \<open>Stores of tokens\<close>

datatype ('k, 'u) session_event = Issue 'k 'u int | Revoke 'k

fun run_events :: "('k \<Rightarrow> 'u \<Rightarrow> int \<Rightarrow> 's \<Rightarrow> 's) \<Rightarrow> ('k \<Rightarrow> 's \<Rightarrow> 's) \<Rightarrow> ('k, 'u) session_event list \<Rightarrow> 's \<Rightarrow> 's" where
  "run_events issue revoke [] s = s"
| "run_events issue revoke (e # es) s = run_events issue revoke es
     (case e of Issue k u t \<Rightarrow> issue k u t s | Revoke k \<Rightarrow> revoke k s)"

text \<open>A token is overdue when it was issued, if ever since its last revocation, a lifetime ago.\<close>

fun overdue :: "int \<Rightarrow> 'k \<Rightarrow> int \<Rightarrow> bool \<Rightarrow> ('k, 'u) session_event list \<Rightarrow> bool" where
  "overdue life k t dead [] = dead"
| "overdue life k t dead (e # es) = overdue life k t (case e of
     Issue k' u t0 \<Rightarrow> if k' = k then dead \<and> t0 + life \<le> t else dead
   | Revoke k' \<Rightarrow> if k' = k then True else dead) es"

locale session_store =
  fixes issue :: "'k \<Rightarrow> 'u \<Rightarrow> int \<Rightarrow> 's \<Rightarrow> 's"
    and revoke :: "'k \<Rightarrow> 's \<Rightarrow> 's"
    and alive :: "'s \<Rightarrow> 'k \<Rightarrow> int \<Rightarrow> bool"
    and life :: int
  assumes issue_alive: "alive (issue k u t0 s) k' t \<Longrightarrow> alive s k' t \<or> k' = k \<and> t < t0 + life"
    and revoke_alive: "alive (revoke k s) k' t \<Longrightarrow> alive s k' t \<and> k' \<noteq> k"
begin

lemma overdue_dead:
  "overdue life k t dead es \<Longrightarrow> (dead \<Longrightarrow> \<not> alive s k t) \<Longrightarrow> \<not> alive (run_events issue revoke es s) k t"
proof (induction es arbitrary: s dead)
  case (Cons e es)
  show ?case
  proof (cases e)
    case (Issue k' u t0)
    have "\<not> alive (issue k' u t0 s) k t" if "if k' = k then dead \<and> t0 + life \<le> t else dead"
      using that Cons.prems(2) issue_alive [of k' u t0 s k t] by (auto split: if_splits)
    with Cons.IH [of "if k' = k then dead \<and> t0 + life \<le> t else dead" "issue k' u t0 s"] Cons.prems(1) Issue
    show ?thesis by simp
  next
    case (Revoke k')
    have "\<not> alive (revoke k' s) k t" if "if k' = k then True else dead"
      using that Cons.prems(2) revoke_alive [of k' s k t] by (auto split: if_splits)
    with Cons.IH [of "if k' = k then True else dead" "revoke k' s"] Cons.prems(1) Revoke
    show ?thesis by simp
  qed
qed simp

end

definition issue_session :: "postgres \<Rightarrow> string \<Rightarrow> string \<Rightarrow> int \<Rightarrow> db \<Rightarrow> db" where
  "issue_session P hash user t d = (case create_session_statement P hash user (d\<lparr>clock := t\<rparr>) of
     Inl _ \<Rightarrow> d\<lparr>clock := t\<rparr> | Inr (_, d') \<Rightarrow> d')"

definition revoke_session :: "string \<Rightarrow> db \<Rightarrow> db" where
  "revoke_session hash d = (case revoke_statement hash d of Inl _ \<Rightarrow> d | Inr (_, d') \<Rightarrow> d')"

definition session_alive :: "db \<Rightarrow> string \<Rightarrow> int \<Rightarrow> bool" where
  "session_alive d hash t \<longleftrightarrow> (\<exists>s \<in> set (session_rows d). s_token_hash s = hash \<and> t < s_expires s)"

interpretation sessions: session_store "issue_session P" revoke_session session_alive session_life for P
proof unfold_locales
  fix k u t0 s k' t
  assume alive: "session_alive (issue_session P k u t0 s) k' t"
  show "session_alive s k' t \<or> k' = k \<and> t < t0 + session_life"
  proof (cases "create_session_statement P k u (s\<lparr>clock := t0\<rparr>)")
    case (Inl e)
    with alive show ?thesis by (simp add: issue_session_def session_alive_def)
  next
    case (Inr xd)
    obtain d' where "xd = ((), d')" by (cases xd) auto
    with Inr create_session_Inr [of P k u "s\<lparr>clock := t0\<rparr>" "()" d'] alive show ?thesis
      by (auto simp: issue_session_def session_alive_def)
  qed
next
  fix k s k' t
  assume "session_alive (revoke_session k s) k' t"
  then show "session_alive s k' t \<and> k' \<noteq> k"
    by (auto simp: revoke_session_def revoke_statement_def session_alive_def)
qed

subsection \<open>What \<open>require\<close> accepts\<close>

lemma exec_pure:
  assumes "\<And>d. stmt d = Inr (f d, d)"
  shows "exec_sql stmt w = (if w_fates w \<noteq> [] \<and> hd (w_fates w) \<noteq> Served
      then (Inl (DbError (if hd (w_fates w) = Refused then ''refused'' else ''lost'')), w\<lparr>w_fates := drop 1 (w_fates w)\<rparr>)
      else (Inr (f (w_db w)), w\<lparr>w_fates := drop 1 (w_fates w)\<rparr>))"
  by (cases "w_fates w"; cases "hd (w_fates w)") (auto simp: exec_sql_def Let_def assms)

lemma principal_query_exec:
  "exec_sql (principal_query P hash) w = (Inr rows, w') \<Longrightarrow>
     principal_query P hash (w_db w) = Inr (rows, w_db w) \<and> w' = w\<lparr>w_fates := drop 1 (w_fates w)\<rparr>"
  using exec_sql_Inr [of "principal_query P hash" w rows w'] by (auto simp: principal_query_def)

lemma permissions_of_set:
  "set (permissions_of P d user) = {pc. \<exists>role. (user, role) \<in> set (user_roles d) \<and> (role, pc) \<in> set (role_permissions d)}"
  by (auto simp: permissions_of_def split: if_splits) force

lemma none_match_strings:
  "jsoncpp_ok J \<Longrightarrow> none_match J p (map JStr ps) = Inr (p \<notin> set ps)"
  by (induction ps) (auto simp: jsoncpp_rules)

lemma wf_strings [simp]: "wf_json (JArr (map JStr ps))"
  by (simp add: list_all_iff)

lemma decode_permissions:
  "postgres_ok J P \<Longrightarrow> decode J (jsonb_out P (JArr (map JStr ps))) = Inr (JArr (map JStr ps))"
  by (simp add: decode_ok postgres_ok_def del: wf_json.simps)

text \<open>\<open>require\<close>, evaluated on the tables when the database answers.\<close>

lemma require_eval:
  assumes "jsoncpp_ok J" "postgres_ok J P" "exec_sql (principal_query P (hash_token S (get_cookie req ''bee_session''))) w = (Inr rows, w')"
    and "length (get_cookie req ''bee_session'') = 64"
  shows "require J P S req permission w = (case filter (\<lambda>u. list_ex (live_session (w_db w) (hash_token S (get_cookie req ''bee_session'')) u)
        (session_rows (w_db w))) (users (w_db w)) of
      [] \<Rightarrow> (Inl auth_required, w')
    | u # _ \<Rightarrow> if permission = [] \<or> permission \<in> set (permissions_of P (w_db w) (u_id u))
        then (Inr \<lparr>pr_id = u_id u, pr_email = u_email u, pr_permissions = JArr (map JStr (permissions_of P (w_db w) (u_id u)))\<rparr>, w')
        else (Inl (Error 403 ''FORBIDDEN'' ''You do not have permission for this operation''), w'))"
proof -
  have rows: "rows = map (\<lambda>u. \<lparr>q_id = u_id u, q_email = u_email u,
          q_permissions = jsonb_out P (JArr (map JStr (permissions_of P (w_db w) (u_id u))))\<rparr>)
       (filter (\<lambda>u. list_ex (live_session (w_db w) (hash_token S (get_cookie req ''bee_session'')) u)
        (session_rows (w_db w))) (users (w_db w)))"
    using principal_query_exec [OF assms(3)] by (simp add: principal_query_def)
  show ?thesis
    using assms(3,4) unfolding require_def Let_def rows
    by (auto simp: bind_act_simp decode_permissions [OF assms(2)] none_match_strings [OF assms(1)]
        split: list.splits)
qed

lemma require_db: "w_db (snd (require J P S req permission w)) = w_db w"
proof -
  have "w_db (snd (exec_sql (principal_query P h) v)) = w_db v" for h v
    using exec_pure [of "principal_query P h" _ v, OF principal_query_def] by auto
  then show ?thesis by (auto simp: require_def Let_def bind_act_simp split: sum.splits list.splits)
qed

subsection \<open>What a sign-in does\<close>

lemma consume_frame:
  assumes "consume S key w = (r, w')"
  shows "session_rows (w_db w') = session_rows (w_db w) \<and> users (w_db w') = users (w_db w) \<and>
    clock (w_db w') = clock (w_db w) \<and> user_roles (w_db w') = user_roles (w_db w) \<and>
    role_permissions (w_db w') = role_permissions (w_db w) \<and> w_objects w' = w_objects w \<and>
    w_fates w' = drop 1 (w_fates w) \<and> w_random w' = w_random w"
proof -
  have "w' = snd (exec_sql (attempt_statement (hash_token S key)) w)"
    using assms by (auto simp: consume_def bind_act_simp split: sum.splits)
  moreover have "session_rows d' = session_rows d \<and> users d' = users d \<and> clock d' = clock d \<and>
      user_roles d' = user_roles d \<and> role_permissions d' = role_permissions d"
    if "attempt_statement k d = Inr (n, d')" for k d n d'
    using that by (auto simp: attempt_statement_def Let_def split: option.splits if_splits)
  ultimately show ?thesis
    by (auto simp: exec_sql_def Let_def split: sum.splits prod.splits)
qed

lemma consume_errors: "consume S key w = (Inl e, w') \<Longrightarrow>
    (\<exists>m. e = DbError m) \<or> e = Error 429 ''RATE_LIMITED'' ''Too many attempts. Try again later''"
  by (auto simp: consume_def bind_act_simp throw_if_def split: sum.splits if_splits dest!: exec_sql_fst_Inl)

definition matching_user :: "sodium \<Rightarrow> db \<Rightarrow> string \<Rightarrow> string \<Rightarrow> user_row \<Rightarrow> bool" where
  "matching_user S d email password u \<longleftrightarrow> u \<in> set (users d) \<and> u_email u = c_str email \<and> u_active u \<and>
     pwhash_verify S (c_str (u_password_hash u)) password"

text \<open>The columns of \<open>users\<close>: unique identifiers in canonical form and unique e-mails.\<close>

definition users_ok :: "postgres \<Rightarrow> db \<Rightarrow> bool" where
  "users_ok P d \<longleftrightarrow> distinct (map u_id (users d)) \<and> distinct (map u_email (users d)) \<and>
     (\<forall>u \<in> set (users d). uuid_in P (u_id u) = Some (u_id u))"

lemma filter_unique: "distinct (map f xs) \<Longrightarrow> x \<in> set xs \<Longrightarrow> filter (\<lambda>y. f y = f x) xs = [x]"
  by (induction xs) (auto simp: filter_empty_conv image_iff)

lemma check_credentials_rows:
  assumes "distinct (map u_email (users d))"
  shows "check_credentials S A password (map (\<lambda>u. (u_id u, u_password_hash u, u_active u))
      (filter (\<lambda>u. u_email u = c_str email) (users d))) =
    (if \<exists>u. matching_user S d email password u then Inr (u_id (SOME u. matching_user S d email password u))
     else Inl wrong_credentials)"
proof (cases "\<exists>u \<in> set (users d). u_email u = c_str email")
  case True
  then obtain u where u: "u \<in> set (users d)" "u_email u = c_str email" by blast
  have one: "filter (\<lambda>v. u_email v = c_str email) (users d) = [u]"
    using filter_unique [OF assms u(1)] u(2) by simp
  have only: "matching_user S d email password v \<longleftrightarrow> v = u \<and> u_active u \<and> pwhash_verify S (c_str (u_password_hash u)) password" for v
  proof -
    have "v \<in> set (users d) \<and> u_email v = c_str email \<longleftrightarrow> v \<in> set (filter (\<lambda>v. u_email v = c_str email) (users d))" by auto
    then show ?thesis by (auto simp: matching_user_def one)
  qed
  show ?thesis by (auto simp: one only check_credentials_def Let_def)
next
  case False
  then have "filter (\<lambda>v. u_email v = c_str email) (users d) = []" by (auto simp: filter_empty_conv)
  with False show ?thesis by (auto simp: check_credentials_def matching_user_def)
qed

text \<open>
  The stages of a sign-in.  Each either answers with a refusal or lets the rest continue, and all
  but the last leave the accounts and the sessions as they are.
\<close>

definition same_accounts :: "world \<Rightarrow> world \<Rightarrow> bool" where
  "same_accounts w w' \<longleftrightarrow> session_rows (w_db w') = session_rows (w_db w) \<and> users (w_db w') = users (w_db w) \<and>
     clock (w_db w') = clock (w_db w) \<and> user_roles (w_db w') = user_roles (w_db w) \<and>
     role_permissions (w_db w') = role_permissions (w_db w) \<and> w_objects w' = w_objects w \<and>
     w_random w' = w_random w \<and> (w_fates w = [] \<longrightarrow> w_fates w' = [])"

definition turned_away :: "'a res \<Rightarrow> bool" where
  "turned_away r \<longleftrightarrow> (\<exists>m. r = Inl (DbError m)) \<or> r = Inl (Error 429 ''RATE_LIMITED'' ''Too many attempts. Try again later'')"

lemma same_accounts_trans: "same_accounts u v \<Longrightarrow> same_accounts v w \<Longrightarrow> same_accounts u w"
  by (simp add: same_accounts_def)

lemma consume_stage:
  assumes "bind_act (consume S key) (\<lambda>_. rest) w = (r, w')"
  shows "same_accounts w w' \<and> turned_away r \<or> (\<exists>u. same_accounts w u \<and> rest u = (r, w'))"
proof -
  have frame: "same_accounts w u" if "consume S key w = (x, u)" for x u
    using consume_frame [OF that] by (simp add: same_accounts_def)
  from bind_act_cases [OF assms] show ?thesis
  proof (elim disjE exE conjE)
    fix e assume "consume S key w = (Inl e, w')" "r = Inl e"
    then show ?thesis using frame consume_errors by (auto simp: turned_away_def)
  next
    fix x u assume "consume S key w = (Inr x, u)" "rest u = (r, w')"
    then show ?thesis using frame by blast
  qed
qed

definition credential_rows :: "db \<Rightarrow> string \<Rightarrow> (string \<times> string \<times> bool) list" where
  "credential_rows d email = map (\<lambda>u. (u_id u, u_password_hash u, u_active u)) (filter (\<lambda>u. u_email u = c_str email) (users d))"

lemma credentials_stage:
  assumes "bind_act (exec_sql (credentials_query email)) rest w = (r, w')"
  shows "same_accounts w w' \<and> turned_away r \<or> (\<exists>u. same_accounts w u \<and> rest (credential_rows (w_db w) email) u = (r, w'))"
proof -
  have pure: "exec_sql (credentials_query email) w = (x, u) \<Longrightarrow> u = w\<lparr>w_fates := drop 1 (w_fates w)\<rparr>" for x u
    using exec_pure [of "credentials_query email" _ w, OF credentials_query_def] by (auto split: if_splits)
  from bind_act_cases [OF assms] show ?thesis
  proof (elim disjE exE conjE)
    fix e assume step: "exec_sql (credentials_query email) w = (Inl e, w')" "r = Inl e"
    with exec_sql_Inl [OF step(1)] pure [OF step(1)] show ?thesis by (auto simp: turned_away_def same_accounts_def)
  next
    fix x u assume step: "exec_sql (credentials_query email) w = (Inr x, u)" "rest x u = (r, w')"
    from exec_sql_Inr [OF step(1)] have "x = credential_rows (w_db w) email"
      by (auto simp: credentials_query_def credential_rows_def)
    with step(2) pure [OF step(1)] show ?thesis by (intro disjI2 exI [of _ u]) (simp add: same_accounts_def)
  qed
qed

text \<open>The rest of a sign-in, after the credentials have been read and after they have been checked.\<close>

definition signed_in :: "postgres \<Rightarrow> sodium \<Rightarrow> string \<Rightarrow> string \<Rightarrow> (world, string \<times> principal) act" where
  "signed_in P S email uid = bind_act (draw (\<lambda>n. bin2hex (random_bytes S n))) (\<lambda>token.
     bind_act (exec_sql (create_session_statement P (hash_token S token) uid)) (\<lambda>_.
     ret (token, \<lparr>pr_id = uid, pr_email = email, pr_permissions = JArr []\<rparr>)))"

definition checked :: "postgres \<Rightarrow> sodium \<Rightarrow> auth_service \<Rightarrow> string \<Rightarrow> string \<Rightarrow> (string \<times> string \<times> bool) list \<Rightarrow>
    (world, string \<times> principal) act" where
  "checked P S A password email rows = bind_act (lift_res (check_credentials S A password rows)) (signed_in P S email)"

lemma login_staged:
  "login P S A raw password address =
    (if raw = [] \<or> 254 < length raw \<or> password = [] \<or> 256 < length password
     then throw (Error 400 ''INVALID_CREDENTIALS'' ''Check the email and password'')
     else bind_act (consume S (''email:'' @ lower raw)) (\<lambda>_. bind_act (consume S (''address:'' @ address)) (\<lambda>_.
       bind_act (exec_sql (credentials_query (lower raw))) (checked P S A password (lower raw)))))"
  unfolding login_def Let_def throw_if_def checked_def [abs_def] signed_in_def [abs_def]
  by (simp only: if_distrib [of lift_res] if_distrib [of "\<lambda>m. bind_act m _"] bind_act_lift_Inr bind_act_lift_Inl)

lemma signed_in_stage:
  assumes run: "signed_in P S email uid w = (r, w')" and "uuid_in P uid = Some uid"
    and token: "token = bin2hex (random_bytes S (w_random w))"
  shows "session_rows (w_db w') = session_rows (w_db w) \<and> users (w_db w') = users (w_db w) \<and> (\<exists>m. r = Inl (DbError m)) \<or>
    ((\<exists>m. r = Inl (DbError m)) \<or> r = Inr (token, \<lparr>pr_id = uid, pr_email = email, pr_permissions = JArr []\<rparr>)) \<and>
    hash_token S token \<notin> s_token_hash ` set (session_rows (w_db w)) \<and>
    w_db w' = (w_db w)\<lparr>session_rows := session_rows (w_db w) @ [\<lparr>s_token_hash = hash_token S token, s_user = uid,
      s_expires = clock (w_db w) + session_life\<rparr>]\<rparr> \<and>
    w_random w' = Suc (w_random w) \<and> w_objects w' = w_objects w \<and> w_fates w' = drop 1 (w_fates w)"
proof -
  let ?w = "w\<lparr>w_random := Suc (w_random w)\<rparr>"
  obtain z u where step: "exec_sql (create_session_statement P (hash_token S token) uid) ?w = (z, u)" by fastforce
  then have r: "w' = u" "r = (case z of Inl e \<Rightarrow> Inl e | Inr _ \<Rightarrow> Inr (token, \<lparr>pr_id = uid, pr_email = email, pr_permissions = JArr []\<rparr>))"
    using run by (auto simp: signed_in_def draw_def token bind_act_simp split: sum.splits)
  have rest: "w_random u = Suc (w_random w)" "w_objects u = w_objects w" "w_fates u = drop 1 (w_fates w)"
    using step by (auto simp: exec_sql_def Let_def split: sum.splits prod.splits if_splits)
  have answer: "z = Inr () \<or> (\<exists>m. z = Inl (DbError m))"
  proof (cases z)
    case (Inl e)
    from exec_sql_Inl [OF step [unfolded Inl]] show ?thesis by (auto simp: Inl)
  qed simp
  have "w_db u = w_db w \<and> (\<exists>m. z = Inl (DbError m)) \<or>
      (\<exists>x. create_session_statement P (hash_token S token) uid (w_db w) = Inr (x, w_db u))"
    using step by (auto simp: exec_sql_def Let_def split: sum.splits prod.splits if_splits)
  then show ?thesis
  proof (elim disjE exE)
    fix x assume "create_session_statement P (hash_token S token) uid (w_db w) = Inr (x, w_db u)"
    with rest answer r assms(2) show ?thesis by (auto simp: create_session_Inr)
  qed (use r in auto)
qed

lemma attempts_stage:
  assumes "login P S A raw password address w = (r, w')"
    and "\<not> (raw = [] \<or> 254 < length raw \<or> password = [] \<or> 256 < length password)"
  shows "same_accounts w w' \<and> turned_away r \<or>
    (\<exists>u. same_accounts w u \<and> checked P S A password (lower raw) (credential_rows (w_db w) (lower raw)) u = (r, w'))"
proof -
  let ?rest2 = "bind_act (exec_sql (credentials_query (lower raw))) (checked P S A password (lower raw))"
  let ?rest1 = "bind_act (consume S (''address:'' @ address)) (\<lambda>_. ?rest2)"
  have "bind_act (consume S (''email:'' @ lower raw)) (\<lambda>_. ?rest1) w = (r, w')"
    using assms unfolding login_staged by (simp only: if_False)
  from consume_stage [OF this] consider (done1) "same_accounts w w'" "turned_away r"
    | (past1) u where "same_accounts w u" "?rest1 u = (r, w')" by blast
  then show ?thesis
  proof cases
    case past1
    from consume_stage [OF past1(2)] consider (done2) "same_accounts u w'" "turned_away r"
      | (past2) v where "same_accounts u v" "?rest2 v = (r, w')" by blast
    then show ?thesis
    proof cases
      case done2
      then show ?thesis using past1(1) same_accounts_trans by blast
    next
      case past2
      have same: "same_accounts w v" using past1(1) past2(1) same_accounts_trans by blast
      then have "credential_rows (w_db v) (lower raw) = credential_rows (w_db w) (lower raw)"
        by (simp add: credential_rows_def same_accounts_def)
      then show ?thesis using credentials_stage [OF past2(2)] same same_accounts_trans by metis
    qed
  qed blast
qed

lemma login_stages:
  assumes "login P S A raw password address w = (r, w')"
    and "users_ok P (w_db w)"
  shows "(raw = [] \<or> 254 < length raw \<or> password = [] \<or> 256 < length password) \<and>
      r = Inl (Error 400 ''INVALID_CREDENTIALS'' ''Check the email and password'') \<and> w' = w \<or>
    (session_rows (w_db w') = session_rows (w_db w) \<and> users (w_db w') = users (w_db w) \<and>
      ((\<exists>m. r = Inl (DbError m)) \<or> r = Inl (Error 429 ''RATE_LIMITED'' ''Too many attempts. Try again later'') \<or>
       r = Inl wrong_credentials \<and> \<not> (\<exists>u. matching_user S (w_db w) (lower raw) password u))) \<or>
    (\<exists>token u. matching_user S (w_db w) (lower raw) password u \<and>
      ((\<exists>m. r = Inl (DbError m)) \<or> r = Inr (token, \<lparr>pr_id = u_id u, pr_email = lower raw, pr_permissions = JArr []\<rparr>)) \<and>
      token = bin2hex (random_bytes S (w_random w)) \<and> w_random w' = Suc (w_random w) \<and> w_objects w' = w_objects w \<and>
      hash_token S token \<notin> s_token_hash ` set (session_rows (w_db w)) \<and>
      session_rows (w_db w') = session_rows (w_db w) @ [\<lparr>s_token_hash = hash_token S token, s_user = u_id u,
        s_expires = clock (w_db w) + session_life\<rparr>] \<and> users (w_db w') = users (w_db w) \<and>
      clock (w_db w') = clock (w_db w) \<and> user_roles (w_db w') = user_roles (w_db w) \<and>
      role_permissions (w_db w') = role_permissions (w_db w) \<and> (w_fates w = [] \<longrightarrow> w_fates w' = []))"
  (is "?bad \<or> ?refused \<or> ?signed")
proof (cases "raw = [] \<or> 254 < length raw \<or> password = [] \<or> 256 < length password")
  case True
  with assms(1) have ?bad by (simp add: login_staged)
  then show ?thesis ..
next
  case False
  let ?email = "lower raw" and ?match = "matching_user S (w_db w) (lower raw) password"
  have refused: ?refused if "same_accounts w w'" "turned_away r"
    using that by (auto simp: same_accounts_def turned_away_def)
  from attempts_stage [OF assms(1) False] show ?thesis
  proof (elim disjE exE conjE)
    fix u assume same: "same_accounts w u" and run: "checked P S A password ?email (credential_rows (w_db w) ?email) u = (r, w')"
    have check: "check_credentials S A password (credential_rows (w_db w) ?email) =
        (if \<exists>v. ?match v then Inr (u_id (SOME v. ?match v)) else Inl wrong_credentials)"
      using assms(2) unfolding credential_rows_def users_ok_def by (intro check_credentials_rows) blast
    show ?thesis
    proof (cases "\<exists>v. ?match v")
      case False
      then have ?refused using run same by (simp add: checked_def check same_accounts_def)
      then show ?thesis by blast
    next
      case True
      define v where "v = (SOME v. ?match v)"
      have v: "?match v" unfolding v_def using True by (rule someI_ex)
      then have canon: "uuid_in P (u_id v) = Some (u_id v)" using assms(2) by (simp add: matching_user_def users_ok_def)
      have "signed_in P S ?email (u_id v) u = (r, w')" using run True by (simp add: checked_def check v_def)
      from signed_in_stage [OF this canon refl] have "?refused \<or> ?signed"
        by (rule disjE; use same v in \<open>simp add: same_accounts_def; blast\<close>)
      then show ?thesis by blast
    qed
  qed (use refused in blast)
qed

subsection \<open>The answer to a sign-in, exactly\<close>

text \<open>
  Which number the next attempt under a key gets, and what a sign-in with two keys does to the
  counters: the first is counted, the second only when the first is within its limit.
\<close>

definition attempts :: "sodium \<Rightarrow> db \<Rightarrow> string \<Rightarrow> int" where
  "attempts S d key = fst (counted 900000000 (clock d) (throttle_view d (hash_token S key)))"

definition attempts_counted :: "sodium \<Rightarrow> string \<Rightarrow> string \<Rightarrow> db \<Rightarrow> db \<Rightarrow> bool" where
  "attempts_counted S first second d d' \<longleftrightarrow>
     (let next = \<lambda>h. Some (counted 900000000 (clock d) (throttle_view d h)) in
      throttle_view d' (hash_token S first) = next (hash_token S first) \<and>
      throttle_view d' (hash_token S second) = (if attempts S d first \<le> 10
        then next (hash_token S second) else throttle_view d (hash_token S second)) \<and>
      (\<forall>h. h \<noteq> hash_token S first \<and> h \<noteq> hash_token S second \<longrightarrow> throttle_view d' h = throttle_view d h))"

abbreviation rate_limited :: exn where
  "rate_limited \<equiv> Error 429 ''RATE_LIMITED'' ''Too many attempts. Try again later''"

lemma attempt_statement_fails:
  "attempt_statement (hash_token S key) d = Inl e \<Longrightarrow> 2 ^ 31 \<le> attempts S d key"
  by (auto simp: attempt_statement_def attempts_def throttle_view_def counted_def Let_def window_def
      split: option.splits if_splits)

lemma consume_result:
  assumes "consume S key w = (r, w')"
  shows "(\<exists>m. r = Inl (DbError m)) \<and> (w_fates w \<noteq> [] \<or> 2 ^ 31 \<le> attempts S (w_db w) key) \<or>
    attempt_statement (hash_token S key) (w_db w) = Inr (attempts S (w_db w) key, w_db w') \<and>
    r = (if (if starts_with key ''email:'' then 10 else 50) < attempts S (w_db w) key then Inl rate_limited else Inr ())"
proof -
  obtain x u where step: "exec_sql (attempt_statement (hash_token S key)) w = (x, u)" by fastforce
  show ?thesis
  proof (cases x)
    case (Inl e)
    with step assms have "r = Inl e" by (auto simp: consume_def bind_act_simp)
    moreover have "\<exists>e. attempt_statement (hash_token S key) (w_db w) = Inl e" if "w_fates w = []"
      using step Inl by (cases "attempt_statement (hash_token S key) (w_db w)") (auto simp: exec_sql_served [OF that])
    then have "w_fates w \<noteq> [] \<or> 2 ^ 31 \<le> attempts S (w_db w) key" using attempt_statement_fails by blast
    ultimately show ?thesis using exec_sql_Inl [OF step [unfolded Inl]] by blast
  next
    case (Inr n)
    from exec_sql_Inr [OF step [unfolded Inr]] obtain d where
      d: "attempt_statement (hash_token S key) (w_db w) = Inr (n, d)" "w_db u = d" by auto
    have n: "n = attempts S (w_db w) key"
      using attempt_statement_Inr [OF d(1)] by (simp add: attempts_def window_def)
    have "r = lift_val" if "lift_val = (if (if starts_with key ''email:'' then 10 else 50) < n then Inl rate_limited else Inr ())" for lift_val
      using step Inr assms that by (auto simp: consume_def bind_act_simp throw_if_def)
    moreover have "w' = u" using step Inr assms by (auto simp: consume_def bind_act_simp)
    ultimately show ?thesis using d n by simp
  qed
qed

lemma counters_result:
  assumes run: "bind_act (consume S k1) (\<lambda>_. bind_act (consume S k2) (\<lambda>_. rest)) w = (r, w')"
    and keys: "starts_with k1 ''email:''" "\<not> starts_with k2 ''email:''" "hash_token S k1 \<noteq> hash_token S k2"
  shows "(\<exists>m. r = Inl (DbError m)) \<and>
      (w_fates w \<noteq> [] \<or> 2 ^ 31 \<le> attempts S (w_db w) k1 \<or> 2 ^ 31 \<le> attempts S (w_db w) k2) \<or>
    (\<exists>u. w_db u = (w_db w)\<lparr>throttles := throttles (w_db u)\<rparr> \<and> attempts_counted S k1 k2 (w_db w) (w_db u) \<and>
      (w_fates w = [] \<longrightarrow> w_fates u = []) \<and> w_random u = w_random w \<and>
      (if 10 < attempts S (w_db w) k1 \<or> 50 < attempts S (w_db w) k2
       then r = Inl rate_limited \<and> w' = u else rest u = (r, w')))"
proof -
  obtain x1 v where s1: "consume S k1 w = (x1, v)" by fastforce
  from consume_result [OF s1] keys(1) consider
      (fail1) m where "x1 = Inl (DbError m)" "w_fates w \<noteq> [] \<or> 2 ^ 31 \<le> attempts S (w_db w) k1"
    | (count1) "attempt_statement (hash_token S k1) (w_db w) = Inr (attempts S (w_db w) k1, w_db v)"
        "x1 = (if 10 < attempts S (w_db w) k1 then Inl rate_limited else Inr ())" by auto
  then show ?thesis
  proof cases
    case fail1
    with run s1 show ?thesis by (auto simp: bind_act_simp)
  next
    case count1
    note t1 = attempt_statement_Inr [OF count1(1), folded window_def]
    have v: "w_fates w = [] \<longrightarrow> w_fates v = []" "w_random v = w_random w" "clock (w_db v) = clock (w_db w)"
      using consume_frame [OF s1] by auto
    show ?thesis
    proof (cases "10 < attempts S (w_db w) k1")
      case True
      with run s1 count1(2) have "r = Inl rate_limited" "w' = v" by (auto simp: bind_act_simp)
      with True t1 v keys(3) show ?thesis
        by (intro disjI2 exI [of _ v]) (simp add: attempts_counted_def Let_def window_def)
    next
      case False
      with run s1 count1(2) have run2: "bind_act (consume S k2) (\<lambda>_. rest) v = (r, w')" by (simp add: bind_act_simp)
      obtain x2 u where s2: "consume S k2 v = (x2, u)" by fastforce
      have a2: "attempts S (w_db v) k2 = attempts S (w_db w) k2"
        using t1 keys(3) v(3) by (simp add: attempts_def)
      from consume_result [OF s2, unfolded a2] keys(2) consider
          (fail2) m where "x2 = Inl (DbError m)" "w_fates v \<noteq> [] \<or> 2 ^ 31 \<le> attempts S (w_db w) k2"
        | (count2) "attempt_statement (hash_token S k2) (w_db v) = Inr (attempts S (w_db w) k2, w_db u)"
            "x2 = (if 50 < attempts S (w_db w) k2 then Inl rate_limited else Inr ())" by auto
      then show ?thesis
      proof cases
        case fail2
        with run2 s2 v(1) show ?thesis by (auto simp: bind_act_simp)
      next
        case count2
        note t2 = attempt_statement_Inr [OF count2(1)]
        have db: "w_db u = (w_db w)\<lparr>throttles := throttles (w_db u)\<rparr>"
          using t1 t2 by (metis db.surjective db.update_convs(7))
        have "attempts_counted S k1 k2 (w_db w) (w_db u)"
          using t1 t2 keys(3) v(3) False by (simp add: attempts_counted_def Let_def window_def)
        moreover have "w_fates w = [] \<longrightarrow> w_fates u = []" "w_random u = w_random w"
          using v consume_frame [OF s2] by auto
        ultimately show ?thesis
          using db run2 s2 count2(2) False by (intro disjI2 exI [of _ u]) (auto simp: bind_act_simp split: if_splits)
      qed
    qed
  qed
qed

text \<open>What follows the two counters: the credentials, and the session when they are right.\<close>

lemma credentials_result:
  assumes "exec_sql (credentials_query email) w = (x, u)"
  shows "u = w\<lparr>w_fates := drop 1 (w_fates w)\<rparr> \<and>
    (x = Inr (credential_rows (w_db w) email) \<or> (\<exists>m. x = Inl (DbError m)) \<and> w_fates w \<noteq> [])"
  using assms exec_pure [of "credentials_query email" _ w, OF credentials_query_def]
  by (auto simp: credential_rows_def split: if_splits)

lemma signed_in_result:
  assumes run: "signed_in P S email uid w = (r, w')" and "uuid_in P uid = Some uid" and "uid \<in> u_id ` set (users (w_db w))"
    and token: "token = bin2hex (random_bytes S (w_random w))"
  shows "(\<exists>m. r = Inl (DbError m)) \<and> (w_fates w \<noteq> [] \<or> hash_token S token \<in> s_token_hash ` set (session_rows (w_db w))) \<or>
    r = Inr (token, \<lparr>pr_id = uid, pr_email = email, pr_permissions = JArr []\<rparr>) \<and>
    w_db w' = (w_db w)\<lparr>session_rows := session_rows (w_db w) @ [\<lparr>s_token_hash = hash_token S token, s_user = uid,
      s_expires = clock (w_db w) + session_life\<rparr>]\<rparr>"
proof -
  let ?w = "w\<lparr>w_random := Suc (w_random w)\<rparr>" and ?stmt = "create_session_statement P (hash_token S token) uid"
  obtain z u where step: "exec_sql ?stmt ?w = (z, u)" by fastforce
  then have r: "w' = u" "r = (case z of Inl e \<Rightarrow> Inl e | Inr _ \<Rightarrow> Inr (token, \<lparr>pr_id = uid, pr_email = email, pr_permissions = JArr []\<rparr>))"
    using run by (auto simp: signed_in_def draw_def token bind_act_simp split: sum.splits)
  show ?thesis
  proof (cases z)
    case (Inl e)
    have "hash_token S token \<in> s_token_hash ` set (session_rows (w_db w))" if "w_fates w = []"
    proof (rule ccontr)
      assume "hash_token S token \<notin> s_token_hash ` set (session_rows (w_db w))"
      then obtain d where "?stmt (w_db w) = Inr ((), d)" using assms(2,3) create_session_Inr [of P _ uid "w_db w" "()"] by blast
      with step Inl that show False by (simp add: exec_sql_served)
    qed
    with exec_sql_Inl [OF step [unfolded Inl]] r(2) Inl show ?thesis by auto
  next
    case (Inr x)
    from exec_sql_Inr [OF step [unfolded Inr]] obtain d where "?stmt (w_db w) = Inr (x, d)" "w_db u = d" by auto
    with r Inr assms(2) show ?thesis by (auto simp: create_session_Inr)
  qed
qed

lemma checked_result:
  assumes S: "sodium_ok S" and users: "users_ok P (w_db w)"
    and run: "bind_act (exec_sql (credentials_query email)) (checked P S A password email) w = (r, w')"
  shows "(\<exists>m. r = Inl (DbError m)) \<and> (w_fates w \<noteq> [] \<or>
      hash_token S (bin2hex (random_bytes S (w_random w))) \<in> s_token_hash ` set (session_rows (w_db w))) \<or>
    (if \<exists>u. matching_user S (w_db w) email password u
     then \<exists>u token. matching_user S (w_db w) email password u \<and> length token = 64 \<and>
       r = Inr (token, \<lparr>pr_id = u_id u, pr_email = email, pr_permissions = JArr []\<rparr>) \<and>
       w_db w' = (w_db w)\<lparr>session_rows := session_rows (w_db w) @
         [\<lparr>s_token_hash = hash_token S token, s_user = u_id u, s_expires = clock (w_db w) + session_life\<rparr>]\<rparr>
     else r = Inl wrong_credentials \<and> w_db w' = w_db w)"
proof -
  let ?match = "matching_user S (w_db w) email password"
  obtain x v where step: "exec_sql (credentials_query email) w = (x, v)" by fastforce
  note reply = credentials_result [OF step]
  show ?thesis
  proof (cases x)
    case (Inl e)
    with run step reply show ?thesis by (auto simp: bind_act_simp)
  next
    case (Inr rows)
    have check: "check_credentials S A password (credential_rows (w_db w) email) =
        (if \<exists>u. ?match u then Inr (u_id (SOME u. ?match u)) else Inl wrong_credentials)"
      using users unfolding credential_rows_def users_ok_def by (intro check_credentials_rows) blast
    from run step reply Inr have rest: "checked P S A password email (credential_rows (w_db w) email) v = (r, w')"
      and v: "w_db v = w_db w" "w_random v = w_random w" "w_fates v = drop 1 (w_fates w)" by (auto simp: bind_act_simp)
    show ?thesis
    proof (cases "\<exists>u. ?match u")
      case False
      then have "r = Inl wrong_credentials" "w' = v" using rest by (auto simp: checked_def check)
      with False v show ?thesis by simp
    next
      case True
      define u where "u = (SOME u. ?match u)"
      have u: "?match u" unfolding u_def using True by (rule someI_ex)
      then have ids: "uuid_in P (u_id u) = Some (u_id u)" "u_id u \<in> u_id ` set (users (w_db v))"
        using users v(1) by (simp_all add: matching_user_def users_ok_def)
      have "signed_in P S email (u_id u) v = (r, w')" using rest True by (simp add: checked_def check u_def)
      from signed_in_result [OF this ids refl] show ?thesis
        using u v random_token_length [OF S, of "w_random w"] by auto
    qed
  qed
qed

lemma granted_answer:
  assumes S: "sodium_ok S" and users: "users_ok P (w_db w)"
    and run: "bind_act (exec_sql (credentials_query email)) (checked P S A password email) u = (r, w')"
    and db: "w_db u = (w_db w)\<lparr>throttles := throttles (w_db u)\<rparr>" and counted: "attempts_counted S k1 k2 (w_db w) (w_db u)"
    and fates: "w_fates w = [] \<longrightarrow> w_fates u = []" and random: "w_random u = w_random w"
  shows "if \<exists>m. r = Inl (DbError m)
    then w_fates w \<noteq> [] \<or> hash_token S (bin2hex (random_bytes S (w_random w))) \<in> s_token_hash ` set (session_rows (w_db w))
    else attempts_counted S k1 k2 (w_db w) (w_db w') \<and>
     (if \<exists>v. matching_user S (w_db w) email password v
      then \<exists>v token. matching_user S (w_db w) email password v \<and> length token = 64 \<and>
        r = Inr (token, \<lparr>pr_id = u_id v, pr_email = email, pr_permissions = JArr []\<rparr>) \<and>
        w_db w' = (w_db w)\<lparr>throttles := throttles (w_db w'), session_rows := session_rows (w_db w) @
          [\<lparr>s_token_hash = hash_token S token, s_user = u_id v, s_expires = clock (w_db w) + 1800000000\<rparr>]\<rparr>
      else r = Inl wrong_credentials \<and> w_db w' = (w_db w)\<lparr>throttles := throttles (w_db w')\<rparr>)"
proof -
  obtain ts where u: "w_db u = (w_db w)\<lparr>throttles := ts\<rparr>" using db by blast
  have same: "users_ok P (w_db u)" "matching_user S (w_db u) = matching_user S (w_db w)"
    using users by (simp_all add: u users_ok_def matching_user_def fun_eq_iff)
  note answer = checked_result [OF S same(1) run, unfolded same(2) random]
  show ?thesis
  proof (cases "\<exists>m. r = Inl (DbError m)")
    case True
    then have "w_fates u \<noteq> [] \<or> hash_token S (bin2hex (random_bytes S (w_random w))) \<in> s_token_hash ` set (session_rows (w_db u))"
      using answer by (auto simp: wrong_credentials_def split: if_splits)
    then show ?thesis unfolding if_P [OF True] using fates by (auto simp: u)
  next
    case no_error: False
    with answer have right: "if \<exists>v. matching_user S (w_db w) email password v
      then \<exists>v token. matching_user S (w_db w) email password v \<and> length token = 64 \<and>
        r = Inr (token, \<lparr>pr_id = u_id v, pr_email = email, pr_permissions = JArr []\<rparr>) \<and>
        w_db w' = (w_db u)\<lparr>session_rows := session_rows (w_db u) @
          [\<lparr>s_token_hash = hash_token S token, s_user = u_id v, s_expires = clock (w_db u) + session_life\<rparr>]\<rparr>
      else r = Inl wrong_credentials \<and> w_db w' = w_db u" by blast
    then have "throttle_view (w_db w') = throttle_view (w_db u)" by (auto simp: fun_eq_iff split: if_splits)
    with counted have "attempts_counted S k1 k2 (w_db w) (w_db w')" by (simp add: attempts_counted_def)
    with right show ?thesis unfolding if_not_P [OF no_error] by (auto simp: u session_life_def split: if_splits)
  qed
qed

subsection \<open>Properties\<close>

lemma require_granted:
  assumes "jsoncpp_ok J" and "postgres_ok J P" and "require J P S req permission w = (Inr p, w')"
  shows "length (get_cookie req ''bee_session'') = 64 \<and>
    (\<exists>u \<in> set (users (w_db w)). \<exists>s \<in> set (session_rows (w_db w)).
      live_session (w_db w) (hash_token S (get_cookie req ''bee_session'')) u s \<and>
      pr_id p = u_id u \<and> pr_email p = u_email u \<and>
      (permission = [] \<or> permission \<in> set (permissions_of P (w_db w) (u_id u))))"
proof -
  from assms(3) have len: "length (get_cookie req ''bee_session'') = 64"
    by (auto simp: require_def Let_def split: if_splits)
  obtain x w1 where q: "exec_sql (principal_query P (hash_token S (get_cookie req ''bee_session''))) w = (x, w1)" by fastforce
  with assms(3) len obtain rows where x: "x = Inr rows"
    by (cases x) (auto simp: require_def Let_def bind_act_simp)
  let ?live = "filter (\<lambda>u. list_ex (live_session (w_db w) (hash_token S (get_cookie req ''bee_session'')) u)
        (session_rows (w_db w))) (users (w_db w))"
  from require_eval [OF assms(1,2) q [unfolded x] len, of permission] assms(3) obtain u us where live: "?live = u # us"
    and p: "permission = [] \<or> permission \<in> set (permissions_of P (w_db w) (u_id u))"
      "pr_id p = u_id u" "pr_email p = u_email u"
    by (auto split: list.splits if_splits)
  from live have "u \<in> set ?live" by simp
  then obtain s where "u \<in> set (users (w_db w))" "s \<in> set (session_rows (w_db w))"
      "live_session (w_db w) (hash_token S (get_cookie req ''bee_session'')) u s" by (auto simp: list_ex_iff)
  with p len show ?thesis by blast
qed

text \<open>
  C5. \<open>require\<close> lets nobody else in.  When it returns a principal, the request's cookie is a
  64-byte token whose digest is the key of an unexpired session of an active user, the
  principal is that user, the permission asked for (if any) is granted by one of the user's
  roles, and the database is unchanged.
\<close>

theorem require_sound:
  assumes "jsoncpp_ok J" and "postgres_ok J P" and "require J P S req permission w = (Inr p, w')"
  shows "w_db w' = w_db w \<and> length (get_cookie req ''bee_session'') = 64 \<and>
    (\<exists>u \<in> set (users (w_db w)). \<exists>s \<in> set (session_rows (w_db w)).
      s_token_hash s = hash_token S (get_cookie req ''bee_session'') \<and> clock (w_db w) < s_expires s \<and>
      s_user s = u_id u \<and> u_active u \<and> pr_id p = u_id u \<and> pr_email p = u_email u \<and>
      (permission \<noteq> [] \<longrightarrow> (\<exists>role. (u_id u, role) \<in> set (user_roles (w_db w)) \<and>
         (role, permission) \<in> set (role_permissions (w_db w)))))"
  using require_granted [OF assms] require_db [of J P S req permission w] assms(3)
  by (fastforce simp: live_session_def permissions_of_set)

text \<open>
  C8. Every ended session is refused.  After any sequence of sign-ins and sign-outs (at any
  times, of any users), a request whose token was revoked and not issued again, or was issued
  thirty minutes ago or earlier and not since, is answered \<open>401 AUTH_REQUIRED\<close>.
\<close>

theorem ended_sessions_refused:
  assumes "w_db w = (run_events (issue_session P) revoke_session events d)\<lparr>clock := t\<rparr>" and "w_fates w = []"
    and "hash = hash_token S (get_cookie req ''bee_session'')"
    and "overdue 1800000000 hash t (\<not> session_alive d hash t) events"
  shows "require J P S req permission w = (Inl auth_required, w)"
proof (cases "length (get_cookie req ''bee_session'') = 64")
  case True
  have "\<not> session_alive (run_events (issue_session P) revoke_session events d) hash t"
    by (rule sessions.overdue_dead) (use assms(4) in \<open>simp_all add: session_life_def\<close>)
  then have "\<not> list_ex (live_session (w_db w) hash u) (session_rows (w_db w))" for u
    by (auto simp: assms(1) session_alive_def live_session_def list_ex_iff)
  then have "principal_query P hash (w_db w) = Inr ([], w_db w)" by (simp add: principal_query_def)
  then have "exec_sql (principal_query P hash) w = (Inr [], w)" using assms(2) by (simp add: exec_sql_served)
  with True show ?thesis by (simp add: require_def bind_act_simp assms(3) [symmetric])
qed (simp add: require_def)

text \<open>
  C6. The answer to a sign-in is determined by its input, the counters and the accounts.  Input of
  the wrong size is a \<open>400\<close> and changes nothing.  A database error has a cause: a statement the
  database did not serve, a counter that is full, or a token already in use.  Otherwise the e-mail
  and then, if that is within its ten attempts in fifteen minutes, the address is counted, and the
  answer is \<open>429\<close> exactly if this was more than the tenth attempt for the e-mail or the fiftieth from
  the address.  Within the limits: if an active user has the e-mail (in lower case, and for
  PostgreSQL only up to a NUL character) and the password matches its stored hash, one session of
  thirty minutes is stored under the digest of the fresh 64-character token that is returned; if
  not, whether the e-mail is unknown, the user inactive or the password wrong, the answer is the same
  \<open>401\<close>.  Nothing else in the database changes.  (The digests of the two keys must differ.)
\<close>

theorem login_outcome:
  assumes "sodium_ok S" and "users_ok P (w_db w)" and "login P S A raw password address w = (r, w')"
    and "first = ''email:'' @ lower raw" and "second = ''address:'' @ address"
    and "hash_token S first \<noteq> hash_token S second"
  shows "if raw = [] \<or> 254 < length raw \<or> password = [] \<or> 256 < length password
    then r = Inl (Error 400 ''INVALID_CREDENTIALS'' ''Check the email and password'') \<and> w' = w
    else if \<exists>m. r = Inl (DbError m)
    then w_fates w \<noteq> [] \<or> 2 ^ 31 \<le> attempts S (w_db w) first \<or> 2 ^ 31 \<le> attempts S (w_db w) second \<or>
      hash_token S (bin2hex (random_bytes S (w_random w))) \<in> s_token_hash ` set (session_rows (w_db w))
    else attempts_counted S first second (w_db w) (w_db w') \<and>
      (if 10 < attempts S (w_db w) first \<or> 50 < attempts S (w_db w) second
       then r = Inl (Error 429 ''RATE_LIMITED'' ''Too many attempts. Try again later'') \<and>
         w_db w' = (w_db w)\<lparr>throttles := throttles (w_db w')\<rparr>
       else if \<exists>u. matching_user S (w_db w) (lower raw) password u
       then \<exists>u token. matching_user S (w_db w) (lower raw) password u \<and> length token = 64 \<and>
         r = Inr (token, \<lparr>pr_id = u_id u, pr_email = lower raw, pr_permissions = JArr []\<rparr>) \<and>
         w_db w' = (w_db w)\<lparr>throttles := throttles (w_db w'), session_rows := session_rows (w_db w) @
           [\<lparr>s_token_hash = hash_token S token, s_user = u_id u, s_expires = clock (w_db w) + 1800000000\<rparr>]\<rparr>
       else r = Inl wrong_credentials \<and> w_db w' = (w_db w)\<lparr>throttles := throttles (w_db w')\<rparr>)"
proof (cases "raw = [] \<or> 254 < length raw \<or> password = [] \<or> 256 < length password")
  case True
  with assms(3) show ?thesis by (simp add: login_staged)
next
  case False
  let ?rest = "bind_act (exec_sql (credentials_query (lower raw))) (checked P S A password (lower raw))"
  have run: "bind_act (consume S first) (\<lambda>_. bind_act (consume S second) (\<lambda>_. ?rest)) w = (r, w')"
    using assms(3) False unfolding login_staged assms(4,5) by (simp only: if_False)
  have "starts_with first ''email:''" "\<not> starts_with second ''email:''" by (simp_all add: assms(4,5) starts_with_def)
  from counters_result [OF run this assms(6)] consider
      (failed) m where "r = Inl (DbError m)"
        "w_fates w \<noteq> [] \<or> 2 ^ 31 \<le> attempts S (w_db w) first \<or> 2 ^ 31 \<le> attempts S (w_db w) second"
    | (limited) "10 < attempts S (w_db w) first \<or> 50 < attempts S (w_db w) second" "r = Inl rate_limited"
        "w_db w' = (w_db w)\<lparr>throttles := throttles (w_db w')\<rparr>" "attempts_counted S first second (w_db w) (w_db w')"
    | (granted) u where "\<not> (10 < attempts S (w_db w) first \<or> 50 < attempts S (w_db w) second)" "?rest u = (r, w')"
        "w_db u = (w_db w)\<lparr>throttles := throttles (w_db u)\<rparr>" "attempts_counted S first second (w_db w) (w_db u)"
        "w_fates w = [] \<longrightarrow> w_fates u = []" "w_random u = w_random w"
    by (auto split: if_splits)
  then show ?thesis
  proof cases
    case failed
    then show ?thesis using False by auto
  next
    case limited
    then show ?thesis using False by simp
  next
    case granted
    have bad: "\<not> (10 < attempts S (w_db w) first \<or> 50 < attempts S (w_db w) second)" by (rule granted(1))
    from granted_answer [OF assms(1,2) granted(2-6)] show ?thesis
      unfolding if_not_P [OF False] if_not_P [OF bad] by (auto split: if_splits)
  qed
qed

text \<open>
  The counter is kept for the e-mail as typed, the account is looked up by the part before a NUL:
  with a suffix after a NUL the same account is tried under another counter.
\<close>

lemma nul_suffix_same_account:
  assumes "CHR 0x00 \<notin> set email"
  shows "matching_user S d (email @ CHR 0x00 # junk) password u \<longleftrightarrow> matching_user S d email password u"
proof -
  have "c_str (email @ CHR 0x00 # junk) = email"
    using assms by (induction email) (auto simp: c_str_def)
  then show ?thesis using assms by (simp add: matching_user_def)
qed

text \<open>The session that a sign-in has just added belongs to one user, and a sign-out ends it.\<close>

lemma added_session_user:
  assumes "users_ok P d" and "matching_user S d email password u" and "users d' = users d"
    and "hash \<notin> s_token_hash ` set ss"
    and "session_rows d' = ss @ [\<lparr>s_token_hash = hash, s_user = u_id u, s_expires = expires\<rparr>]" and "clock d' < expires"
  shows "filter (\<lambda>v. list_ex (live_session d' hash v) (session_rows d')) (users d') = [u]"
proof -
  have "\<not> live_session d' hash v s" if "s \<in> set ss" for v s
    using that assms(4) by (metis imageI live_session_def)
  then have live: "list_ex (live_session d' hash v) (session_rows d') \<longleftrightarrow> u_id v = u_id u \<and> u_active v" for v
    using assms(6) by (auto simp: assms(5) list_ex_iff live_session_def)
  have "filter (\<lambda>v. u_id v = u_id u) (users d) = [u]"
    by (rule filter_unique) (use assms(1,2) in \<open>auto simp: users_ok_def matching_user_def\<close>)
  then have "filter (\<lambda>v. u_id v = u_id u \<and> u_active v) (users d) = [u]"
    using assms(2) filter_filter [of u_active "\<lambda>v. u_id v = u_id u" "users d"] by (simp add: matching_user_def)
  then show ?thesis unfolding live by (simp add: assms(3))
qed

lemma signed_out_refused:
  assumes "logout S req w = (x, w')" and "w_fates w = []" and "length (get_cookie req ''bee_session'') = 64"
  shows "require J P S req [] w' = (Inl auth_required, w')"
proof -
  have "w_fates w' = []" "\<forall>s \<in> set (session_rows (w_db w')). s_token_hash s \<noteq> hash_token S (get_cookie req ''bee_session'')"
    using assms(1,2) by (auto simp: logout_def exec_sql_served revoke_statement_def)
  then have "exec_sql (principal_query P (hash_token S (get_cookie req ''bee_session''))) w' = (Inr [], w')"
    by (auto simp: exec_sql_served principal_query_def list_ex_iff live_session_def filter_empty_conv)
  then show ?thesis using assms(3) by (simp add: require_def bind_act_simp)
qed

text \<open>
  C20. A session works from sign-in to sign-out.  The reply to a sign-in carries one cookie, HTTP
  only, strict and secure as configured, for thirty minutes; a later request with that cookie is
  recognised as the user with that e-mail (which for PostgreSQL ends at a NUL character, if there is
  one) until the thirty minutes are over, and after a sign-out with it the same request is refused.
\<close>

theorem session_lifecycle:
  assumes J: "jsoncpp_ok J" and P: "postgres_ok J P" and S: "sodium_ok S" and users: "users_ok P (w_db w)"
    and served: "w_fates w = []"
    and login: "login_route J P S A req w = (Inr response, w')"
    and clock: "clock (w_db w) \<le> t" "t < clock (w_db w) + 1800000000"
  shows "\<exists>c email. resp_cookies response = [c] \<and> cookie_name c = ''bee_session'' \<and> http_only c \<and> same_site_strict c \<and>
      cookie_secure c = auth_secure A \<and> max_age c = 1800 \<and>
      resp_content response = Json_Body (JObj [(''email'', JStr email)]) \<and>
      (\<forall>req2. get_cookie req2 ''bee_session'' = cookie_value c \<longrightarrow>
        (\<exists>p. require J P S req2 [] (set_clock t w') = (Inr p, set_clock t w') \<and> pr_email p = c_str email) \<and>
        (\<forall>x w''. logout S req2 (set_clock t w') = (x, w'') \<longrightarrow> require J P S req2 [] w'' = (Inl auth_required, w'')))"
proof -
  from login obtain email password address token p where
    steps: "login P S A email password address w = (Inr (token, p), w')"
    and resp: "response = session_cookie A (json_response (JObj [(''email'', JStr (pr_email p))])) token False"
    by (auto simp: login_route_def Let_def bind_act_Inr)
  from login_stages [OF steps users] obtain u where u: "matching_user S (w_db w) (lower email) password u"
      "p = \<lparr>pr_id = u_id u, pr_email = lower email, pr_permissions = JArr []\<rparr>"
      "token = bin2hex (random_bytes S (w_random w))"
      "hash_token S token \<notin> s_token_hash ` set (session_rows (w_db w))"
      "session_rows (w_db w') = session_rows (w_db w) @ [\<lparr>s_token_hash = hash_token S token, s_user = u_id u,
        s_expires = clock (w_db w) + session_life\<rparr>]"
      "users (w_db w') = users (w_db w)" "w_fates w' = []"
    using served by blast
  let ?w = "set_clock t w'"
  have fates: "w_fates ?w = []" using u(7) by (simp add: set_clock_def)
  have len: "length token = 64" using random_token_length [OF S] u(3) by simp
  have one: "filter (\<lambda>v. list_ex (live_session (w_db ?w) (hash_token S token) v) (session_rows (w_db ?w))) (users (w_db ?w)) = [u]"
    by (rule added_session_user [OF users u(1) _ u(4)]) (use u(5,6) clock(2) in \<open>auto simp: set_clock_def session_life_def\<close>)
  have query: "exec_sql (principal_query P (hash_token S token)) ?w =
      (Inr [\<lparr>q_id = u_id u, q_email = u_email u, q_permissions = jsonb_out P (JArr (map JStr (permissions_of P (w_db ?w) (u_id u))))\<rparr>], ?w)"
    using fates by (simp add: exec_sql_served principal_query_def one)
  have works: "\<exists>p. require J P S req2 [] ?w = (Inr p, ?w) \<and> pr_email p = c_str (lower email)"
    if "get_cookie req2 ''bee_session'' = token" for req2
    using require_eval [OF J P query [folded that], of "[]"] that len one u(1) by (simp add: matching_user_def)
  have ends: "require J P S req2 [] w'' = (Inl auth_required, w'')"
    if "get_cookie req2 ''bee_session'' = token" "logout S req2 ?w = (x, w'')" for req2 x w''
    using signed_out_refused [OF that(2) fates] that(1) len by simp
  show ?thesis
    by (rule exI, rule exI [of _ "lower email"])
      (use works ends u(2) in \<open>auto simp: resp session_cookie_def json_response_def\<close>)
qed

subsection \<open>Examples\<close>

definition sample_token :: string where
  "sample_token = replicate 64 (char_of (48 :: nat))"

definition sample_login_request :: request where
  "sample_login_request = sample_request\<lparr>method_string := ''POST'',
     get_header := (\<lambda>h. if h = ''origin'' then ''https://admin.bee.md''
        else if h = ''content-type'' then ''application/json'' else []),
     get_cookie := (\<lambda>_. sample_token),
     json_object := Some (JObj [(''email'', JStr ''Admin@bee.md''), (''password'', JStr ''h'')])\<rparr>"

definition sample_session_world :: world where
  "sample_session_world = sample_world\<lparr>w_random := 1, w_db := (w_db sample_world)\<lparr>
     throttles := [\<lparr>th_key = hash_token sample_sodium ''email:admin@bee.md'', th_attempts = 1, th_resets = 900001000\<rparr>,
                   \<lparr>th_key = hash_token sample_sodium ''address:10.0.0.1'', th_attempts = 1, th_resets = 900001000\<rparr>],
     session_rows := [\<lparr>s_token_hash = hash_token sample_sodium sample_token, s_user = sample_admin,
       s_expires = 1800001000\<rparr>]\<rparr>\<rparr>"

lemma concat_pairs: "concat (replicate n [x, x]) = replicate (2 * n) x"
  by (induction n) auto

lemma sample_digests:
  "hash_token sample_sodium ''email:admin@bee.md'' \<noteq> hash_token sample_sodium ''address:10.0.0.1''"
  "bin2hex (random_bytes sample_sodium 0) = sample_token"
  using concat_pairs [of 32 "char_of (48 :: nat)"]
  by (simp_all add: hash_token_def bin2hex_def sample_sodium_def hex_digit_def Let_def sample_token_def)

lemma sample_lower_email: "lower ''Admin@bee.md'' = ''admin@bee.md''"
  by code_simp

lemma sample_login:
  "login sample_postgres sample_sodium sample_auth ''Admin@bee.md'' ''h'' ''10.0.0.1'' sample_world =
     (Inr (sample_token, \<lparr>pr_id = sample_admin, pr_email = ''admin@bee.md'', pr_permissions = JArr []\<rparr>), sample_session_world)"
  using sample_digests(1)
  by (simp add: login_def Let_def throw_if_def bind_act_def consume_def exec_sql_def attempt_statement_def
      find_throttle_def credentials_query_def check_credentials_def draw_def sample_digests(2) sample_lower_email
      create_session_statement_def cast_def not_null_def sample_functions sample_world_def sample_db_def empty_db_def
      starts_with_def window_def session_life_def sample_session_world_def
      sample_sodium_def [THEN arg_cong [of _ _ pwhash_verify]] c_str_def)

lemma sample_users_ok: "users_ok sample_postgres (w_db sample_world)"
  by (simp add: users_ok_def sample_world_def sample_db_def empty_db_def sample_functions)

lemma sample_token_length: "length (get_cookie sample_login_request ''bee_session'') = 64"
  by (simp add: sample_login_request_def sample_token_def)

lemma sample_session_fates: "w_fates sample_session_world = []"
  by (simp add: sample_session_world_def sample_world_def)

lemma sample_require:
  "require sample_jsoncpp sample_postgres sample_sodium sample_login_request ''products.write'' sample_session_world =
     (Inr \<lparr>pr_id = sample_admin, pr_email = ''admin@bee.md'',
        pr_permissions = JArr (map JStr (permissions_of sample_postgres (w_db sample_session_world) sample_admin))\<rparr>, sample_session_world)"
proof -
  have live: "filter (\<lambda>u. list_ex (live_session (w_db sample_session_world) (hash_token sample_sodium sample_token) u)
      (session_rows (w_db sample_session_world))) (users (w_db sample_session_world)) =
      [\<lparr>u_id = sample_admin, u_email = ''admin@bee.md'', u_password_hash = ''h'', u_active = True\<rparr>]"
    by (simp add: sample_session_world_def sample_world_def sample_db_def empty_db_def live_session_def)
  have "exec_sql (principal_query sample_postgres (hash_token sample_sodium (get_cookie sample_login_request ''bee_session''))) sample_session_world =
     (Inr [\<lparr>q_id = sample_admin, q_email = ''admin@bee.md'', q_permissions = jsonb_out sample_postgres
        (JArr (map JStr (permissions_of sample_postgres (w_db sample_session_world) sample_admin)))\<rparr>], sample_session_world)"
    using live sample_session_fates by (simp add: exec_sql_served principal_query_def sample_login_request_def)
  from require_eval [OF sample_jsoncpp_ok sample_postgres_ok this sample_token_length, of "''products.write''"] live
  show ?thesis
    by (simp add: sample_login_request_def permissions_of_set)
      (simp add: sample_session_world_def sample_world_def)
qed

theorem require_sound_witness:
  "\<exists>u \<in> set (users (w_db sample_session_world)). u_active u \<and> u_email u = ''admin@bee.md''"
  using require_sound [OF sample_jsoncpp_ok sample_postgres_ok sample_require] by auto

theorem ended_sessions_refused_witness:
  "require sample_jsoncpp sample_postgres sample_sodium sample_login_request ''products.write''
     (sample_world\<lparr>w_db := (run_events (issue_session sample_postgres) revoke_session
        [Issue (hash_token sample_sodium sample_token) sample_admin 5000] (w_db sample_world))\<lparr>clock := 1800005000\<rparr>\<rparr>) =
   (Inl auth_required, sample_world\<lparr>w_db := (run_events (issue_session sample_postgres) revoke_session
        [Issue (hash_token sample_sodium sample_token) sample_admin 5000] (w_db sample_world))\<lparr>clock := 1800005000\<rparr>\<rparr>)"
  by (rule ended_sessions_refused [where P = sample_postgres and d = "w_db sample_world" and t = 1800005000
        and events = "[Issue (hash_token sample_sodium sample_token) sample_admin 5000]"
        and hash = "hash_token sample_sodium sample_token"])
    (simp_all add: sample_world_def sample_login_request_def session_alive_def sample_db_def empty_db_def)

definition sample_throttle :: "string \<Rightarrow> int \<Rightarrow> throttle_row" where
  "sample_throttle key n = \<lparr>th_key = hash_token sample_sodium key, th_attempts = n, th_resets = 900000000\<rparr>"

definition sample_used_up :: world where
  "sample_used_up = sample_world\<lparr>w_db := (w_db sample_world)\<lparr>throttles := [sample_throttle ''email:admin@bee.md'' 10]\<rparr>\<rparr>"

theorem login_outcome_witness:
  "w_db sample_session_world = (w_db sample_world)\<lparr>throttles := throttles (w_db sample_session_world), session_rows :=
     [\<lparr>s_token_hash = hash_token sample_sodium sample_token, s_user = sample_admin, s_expires = 1800001000\<rparr>]\<rparr> \<and>
   fst (login sample_postgres sample_sodium sample_auth ''Admin@bee.md'' ''h'' ''10.0.0.1'' sample_used_up) = Inl rate_limited"
proof
  have keys: "''email:admin@bee.md'' = ''email:'' @ lower ''Admin@bee.md''" "''address:10.0.0.1'' = ''address:'' @ ''10.0.0.1''"
    by (simp_all add: sample_lower_email)
  have match: "matching_user sample_sodium (w_db sample_world) (lower ''Admin@bee.md'') ''h'' u \<longleftrightarrow>
      u = \<lparr>u_id = sample_admin, u_email = ''admin@bee.md'', u_password_hash = ''h'', u_active = True\<rparr>" for u
    by (auto simp: matching_user_def sample_world_def sample_db_def empty_db_def sample_lower_email sample_sodium_def c_str_def)
  have world: "clock (w_db sample_world) = 1000" "session_rows (w_db sample_world) = []" "w_fates sample_world = []"
      "throttle_view (w_db sample_world) h = None" for h
    by (simp_all add: sample_world_def sample_db_def empty_db_def throttle_view_def find_throttle_def)
  show "w_db sample_session_world = (w_db sample_world)\<lparr>throttles := throttles (w_db sample_session_world), session_rows :=
     [\<lparr>s_token_hash = hash_token sample_sodium sample_token, s_user = sample_admin, s_expires = 1800001000\<rparr>]\<rparr>"
    using login_outcome [OF sample_sodium_ok sample_users_ok sample_login keys sample_digests(1)]
    unfolding match by (simp add: world attempts_def counted_def)
  obtain r w' where run: "login sample_postgres sample_sodium sample_auth ''Admin@bee.md'' ''h'' ''10.0.0.1'' sample_used_up = (r, w')"
    by fastforce
  have used: "users_ok sample_postgres (w_db sample_used_up)" "w_fates sample_used_up = []" "session_rows (w_db sample_used_up) = []"
      "attempts sample_sodium (w_db sample_used_up) ''email:admin@bee.md'' = 11"
      "attempts sample_sodium (w_db sample_used_up) ''address:10.0.0.1'' = 1"
    using sample_users_ok sample_digests(1)
    by (simp_all add: sample_used_up_def users_ok_def world attempts_def counted_def throttle_view_def find_throttle_def sample_throttle_def)
  show "fst (login sample_postgres sample_sodium sample_auth ''Admin@bee.md'' ''h'' ''10.0.0.1'' sample_used_up) = Inl rate_limited"
    using login_outcome [OF sample_sodium_ok used(1) run keys sample_digests(1)] by (simp add: run used split: if_splits)
qed

theorem session_lifecycle_witness:
  "\<exists>response w' p. login_route sample_jsoncpp sample_postgres sample_sodium sample_auth sample_login_request sample_world = (Inr response, w') \<and>
     require sample_jsoncpp sample_postgres sample_sodium
       (sample_login_request\<lparr>get_cookie := (\<lambda>_. cookie_value (hd (resp_cookies response)))\<rparr>) [] (set_clock 60001000 w') =
       (Inr p, set_clock 60001000 w') \<and> pr_email p = ''admin@bee.md''"
proof -
  let ?response = "session_cookie sample_auth (json_response (JObj [(''email'', JStr ''admin@bee.md'')])) sample_token False"
  have route: "login_route sample_jsoncpp sample_postgres sample_sodium sample_auth sample_login_request sample_world =
      (Inr ?response, sample_session_world)"
    using sample_login
    by (simp add: login_route_def bind_act_def require_origin_def throw_if_def sample_login_request_def sample_auth_def
        json_body_def starts_with_def jsoncpp_rules [OF sample_jsoncpp_ok] Let_def sample_request_def)
  have fates: "w_fates sample_world = []" and clk: "clock (w_db sample_world) = 1000"
    by (simp_all add: sample_world_def sample_db_def empty_db_def)
  from session_lifecycle [OF sample_jsoncpp_ok sample_postgres_ok sample_sodium_ok sample_users_ok fates route, of 60001000]
  show ?thesis using route by (fastforce simp: clk session_cookie_def json_response_def)
qed

end
