(* ===== verification/Media.thy ===== *)
theory Media
  imports Storage Catalog_Service Auth_Sessions
begin

text \<open>
  modules/media/Media.cpp: the upload of images, their publication and their two routes.
  libvips and Drogon's UUIDs are not part of the repository: what they return is given by the
  functions of the record \<open>media_env\<close>.
\<close>

subsection \<open>Parameters\<close>

record media_env =
  image_size :: "string \<Rightarrow> (int \<times> int) option"      \<comment> \<open>\<open>vips_image_new_from_buffer\<close>, width and height\<close>
  thumbnail :: "string \<Rightarrow> nat \<Rightarrow> string option"      \<comment> \<open>\<open>vips_thumbnail_buffer\<close> in a square box\<close>
  webpsave :: "string \<Rightarrow> string option"             \<comment> \<open>\<open>vips_webpsave_buffer\<close>\<close>
  new_uuid :: "nat \<Rightarrow> string"                       \<comment> \<open>\<open>drogon::utils::getUuid\<close>, n-th draw\<close>
  s3_server :: s3_server
  storage :: s3_storage

subsection \<open>Uploads\<close>

definition is_jpeg :: "string \<Rightarrow> bool" where
  "is_jpeg bytes \<longleftrightarrow> 3 < length bytes \<and> bytes ! 0 = CHR 0xFF \<and> bytes ! 1 = CHR 0xD8 \<and> bytes ! 2 = CHR 0xFF"

definition is_png :: "string \<Rightarrow> bool" where
  "is_png bytes \<longleftrightarrow> 8 < length bytes \<and>
     take 8 bytes = [CHR 0x89, CHR ''P'', CHR ''N'', CHR ''G'', CHR 0x0D, CHR 0x0A, CHR 0x1A, CHR 0x0A]"

definition is_webp :: "string \<Rightarrow> bool" where
  "is_webp bytes \<longleftrightarrow> 12 < length bytes \<and> take 4 bytes = ''RIFF'' \<and> take 4 (drop 8 bytes) = ''WEBP''"

definition invalid_image :: "string \<Rightarrow> exn" where
  "invalid_image m = Error 422 ''INVALID_IMAGE'' m"

text \<open>The checks before an identifier is drawn.\<close>

definition check_image :: "media_env \<Rightarrow> string \<Rightarrow> (int \<times> int) res" where
  "check_image M bytes =
    bind_res (throw_if (bytes = [] \<or> 8 * 1024 * 1024 < length bytes)
      (Error 413 ''IMAGE_TOO_LARGE'' ''Images must be smaller than 8 MB'')) (\<lambda>_.
    bind_res (throw_if (\<not> is_jpeg bytes \<and> \<not> is_png bytes \<and> \<not> is_webp bytes)
      (Error 415 ''INVALID_IMAGE'' ''Upload a JPEG, PNG or WebP image'')) (\<lambda>_.
    case image_size M bytes of
      None \<Rightarrow> Inl (invalid_image ''Image could not be decoded'')
    | Some (width, height) \<Rightarrow>
        bind_res (throw_if (width < 1 \<or> height < 1 \<or> 40000000 < width * height)
          (invalid_image ''Image dimensions exceed the limit'')) (\<lambda>_. Inr (width, height))))"

definition media_key :: "string \<Rightarrow> nat \<Rightarrow> string" where
  "media_key key box = ''products/'' @ key @ ''/'' @ digits box @ ''.webp''"

definition encoded :: "media_env \<Rightarrow> string \<Rightarrow> nat \<Rightarrow> string res" where
  "encoded M bytes box = (case thumbnail M bytes box of
     None \<Rightarrow> Inl (invalid_image ''Image could not be resized'')
   | Some img \<Rightarrow> (case webpsave M img of
       None \<Rightarrow> Inl (invalid_image ''Image could not be encoded'') | Some data \<Rightarrow> Inr data))"

text \<open>One turn of the loop over the sizes.\<close>

definition store_size :: "media_env \<Rightarrow> sodium \<Rightarrow> string \<Rightarrow> string \<Rightarrow> nat \<Rightarrow> (world, unit) act" where
  "store_size M S bytes key box = bind_act (lift_res (encoded M bytes box)) (\<lambda>data.
     storage_put (s3_server M) S (storage M) (media_key key box) data)"

primrec each_act :: "('a \<Rightarrow> ('s, unit) act) \<Rightarrow> 'a list \<Rightarrow> ('s, unit) act" where
  "each_act f [] = ret ()"
| "each_act f (x # xs) = bind_act (f x) (\<lambda>_. each_act f xs)"

definition image_sizes :: "nat list" where
  "image_sizes = [320, 640, 1280]"

definition media_statement :: "postgres \<Rightarrow> string \<Rightarrow> string \<Rightarrow> int \<Rightarrow> int \<Rightarrow> string \<Rightarrow> unit statement" where
  "media_statement P key actor width height correlation d =
    bind_res (bind_res (cast (uuid_in P) (Some key)) not_null) (\<lambda>k.
    bind_res (bind_res (cast (uuid_in P) (Some actor)) not_null) (\<lambda>a.
    bind_res (bind_res (cast (uuid_in P) (Some correlation)) not_null) (\<lambda>c.
    bind_res (throw_if (width \<le> 0 \<or> height \<le> 0) Check_Violation) (\<lambda>_.
    bind_res (throw_if (list_ex (\<lambda>m. m_id m = k) (media d)) Unique_Violation) (\<lambda>_.
    bind_res (throw_if (\<not> list_ex (\<lambda>u. u_id u = a) (users d)) Foreign_Key_Violation) (\<lambda>_.
    bind_res (insert_audit \<lparr>l_actor = a, l_action = ''media.created'', l_entity = k, l_request = c,
        l_changes = JObj [], l_created = clock d\<rparr>
      (d\<lparr>media := media d @ [\<lparr>m_id = k, m_creator = a, m_created = clock d, m_width = width, m_height = height\<rparr>]\<rparr>)) (\<lambda>d'.
    Inr ((), d'))))))))"

definition upload_result :: "string \<Rightarrow> json" where
  "upload_result key = JObj
     [(''id'', JStr key), (''url'', JStr (''/api/v1/media/'' @ key @ ''/640.webp'')),
      (''srcSet'', JStr (''/api/v1/media/'' @ key @ ''/320.webp 320w, /api/v1/media/'' @ key @
         ''/640.webp 640w, /api/v1/media/'' @ key @ ''/1280.webp 1280w''))]"

definition upload ::
  "media_env \<Rightarrow> postgres \<Rightarrow> sodium \<Rightarrow> string \<Rightarrow> string \<Rightarrow> string \<Rightarrow> (world, json) act" where
  "upload M P S bytes actor correlation =
    bind_act (lift_res (check_image M bytes)) (\<lambda>(width, height).
    bind_act (draw (new_uuid M)) (\<lambda>key.
    bind_act (each_act (store_size M S bytes key) image_sizes) (\<lambda>_.
    bind_act (exec_sql (media_statement P key actor width height correlation)) (\<lambda>_.
    ret (upload_result key)))))"

subsection \<open>Images\<close>

definition published_statement :: "postgres \<Rightarrow> string \<Rightarrow> unit list statement" where
  "published_statement P key d =
    bind_res (bind_res (cast (uuid_in P) (Some key)) not_null) (\<lambda>k.
    Inr (take 1 (concat (map (\<lambda>i. map (\<lambda>_. ()) (filter (\<lambda>p. p_id p = i_product i \<and> p_status p = ''active'') (products d)))
      (filter (\<lambda>i. i_media i = k) (images d)))), d))"

definition published :: "postgres \<Rightarrow> string \<Rightarrow> (world, bool) act" where
  "published P key = bind_act (exec_sql (published_statement P key)) (\<lambda>rows. ret (rows \<noteq> []))"

definition image :: "media_env \<Rightarrow> sodium \<Rightarrow> string \<Rightarrow> nat \<Rightarrow> (world, string) act" where
  "image M S key width = storage_get (s3_server M) S (storage M) (media_key key width)"

subsection \<open>The routes\<close>

definition upload_route ::
  "media_env \<Rightarrow> jsoncpp \<Rightarrow> postgres \<Rightarrow> sodium \<Rightarrow> auth_service \<Rightarrow> string \<Rightarrow> request \<Rightarrow> (world, response) act" where
  "upload_route M J P S A uid req = guarded J P S A req ''media.write'' (\<lambda>principal.
    bind_act (upload M P S (body req) (pr_id principal) (fst (request_id uid req))) (\<lambda>v.
    ret (created_response v)))"

text \<open>\<open>std::stoi\<close> on a name that starts with a digit.\<close>

definition stoi :: "string \<Rightarrow> nat" where
  "stoi s = digits_value (takeWhile is_digit s)"

definition image_names :: "string list" where
  "image_names = [''320.webp'', ''640.webp'', ''1280.webp'']"

definition media_route ::
  "media_env \<Rightarrow> jsoncpp \<Rightarrow> postgres \<Rightarrow> sodium \<Rightarrow> request \<Rightarrow> string \<Rightarrow> string \<Rightarrow> (world, response) act" where
  "media_route M J P S req key filename =
    bind_act (lift_res (throw_if (\<not> uuid key \<or> filename \<notin> set image_names) image_not_found)) (\<lambda>_.
    bind_act (published P key) (\<lambda>public.
    bind_act (require_if J P S req (\<not> public) ''media.write'') (\<lambda>_.
    bind_act (image M S key (stoi filename)) (\<lambda>data.
    ret \<lparr>resp_status = 200, resp_content = Raw_Body ''image/webp'' data, resp_headers = [], resp_cookies = []\<rparr>))))"

end
