(* ===== verification/Contract.thy ===== *)
theory Contract
  imports Catalog_Validation
begin

text \<open>
  packages/contracts: the published schemas of the API's JSON bodies (catalog.json and
  openapi.yaml) as values of a type of schemas, and what it means that a JSON value conforms to
  one.  Formats other than \<open>uuid\<close> are annotations; lengths count characters.
\<close>

datatype schema =
    S_String nat "nat option"                        \<comment> \<open>minLength, maxLength\<close>
  | S_Uuid
  | S_Pattern rx
  | S_Enum "string list"
  | S_Integer "int option" "int option"              \<comment> \<open>minimum, maximum\<close>
  | S_Boolean
  | S_Nullable schema
  | S_Array schema
  | S_Object bool "string list" "(string \<times> schema) list"  \<comment> \<open>additionalProperties, required, properties\<close>
  | S_Map schema                                     \<comment> \<open>additionalProperties with a schema\<close>
  | S_All "schema list"

definition within :: "int option \<Rightarrow> int option \<Rightarrow> int \<Rightarrow> bool" where
  "within lo hi i \<longleftrightarrow> (case lo of None \<Rightarrow> True | Some l \<Rightarrow> l \<le> i) \<and> (case hi of None \<Rightarrow> True | Some h \<Rightarrow> i \<le> h)"

function conforms :: "schema \<Rightarrow> json \<Rightarrow> bool" where
  "conforms (S_String mn mx) v = (case v of JStr s \<Rightarrow> within (Some (int mn)) (map_option int mx) (int (char_count s)) | _ \<Rightarrow> False)"
| "conforms S_Uuid v = (case v of JStr s \<Rightarrow> uuid s | _ \<Rightarrow> False)"
| "conforms (S_Pattern r) v = (case v of JStr s \<Rightarrow> regex_match s r | _ \<Rightarrow> False)"
| "conforms (S_Enum names) v = (case v of JStr s \<Rightarrow> s \<in> set names | _ \<Rightarrow> False)"
| "conforms (S_Integer lo hi) v = (case v of JInt i \<Rightarrow> within lo hi i | _ \<Rightarrow> False)"
| "conforms S_Boolean v = is_bool v"
| "conforms (S_Nullable s) v = (is_null v \<or> conforms s v)"
| "conforms (S_Array s) v = (case v of JArr xs \<Rightarrow> list_all (conforms s) xs | _ \<Rightarrow> False)"
| "conforms (S_Object open required props) v = (case v of
     JObj m \<Rightarrow> list_all (\<lambda>k. k \<in> fst ` set m) required \<and>
       list_all (\<lambda>(k, s). k \<in> fst ` set m \<longrightarrow> conforms s (member m k)) props \<and>
       (open \<or> fst ` set m \<subseteq> fst ` set props)
   | _ \<Rightarrow> False)"
| "conforms (S_Map s) v = (case v of JObj m \<Rightarrow> list_all (\<lambda>(_, x). conforms s x) m | _ \<Rightarrow> False)"
| "conforms (S_All ss) v = list_all (\<lambda>s. conforms s v) ss"
  by pat_completeness auto

termination
proof (relation "measure (\<lambda>(s, _). size s)")
  fix "open" :: bool and required props and v m :: "(string \<times> json) list" and x k s
  show "((s, member m k), S_Object open required props, v') \<in> measure (\<lambda>(s, _). size s)"
    if "x \<in> set props" "(k, s) = x" for v'
    using that by (induction props) auto
qed (auto simp: less_Suc_eq_le intro: size_list_estimation')

subsection \<open>catalog.json\<close>

definition bounded :: "nat \<Rightarrow> nat \<Rightarrow> schema" where
  "bounded mn mx = S_String mn (Some mx)"

definition text_schema :: schema where
  "text_schema = S_String 0 None"

definition record_schema :: "(string \<times> schema) list \<Rightarrow> schema" where
  "record_schema props = S_Object True (map fst props) props"

definition translation_schema :: schema where
  "translation_schema = record_schema [(''name'', bounded 1 200), (''description'', bounded 0 20000),
     (''seoTitle'', bounded 0 200), (''seoDescription'', bounded 0 500)]"

definition image_schema :: schema where
  "image_schema = record_schema [(''id'', S_Uuid), (''url'', text_schema), (''srcSet'', text_schema)]"

definition variant_input_schema :: schema where
  "variant_input_schema = S_Object True [''sku'', ''name'', ''priceMinor'', ''active'', ''attributes'']
     [(''id'', S_Uuid), (''sku'', bounded 1 64), (''name'', bounded 1 160),
      (''priceMinor'', S_Integer (Some 0) (Some 100000000)), (''active'', S_Boolean),
      (''attributes'', S_Map (bounded 0 300))]"

definition translations_schema :: schema where
  "translations_schema = record_schema [(''ru'', translation_schema), (''ro'', translation_schema)]"

definition status_schema :: schema where
  "status_schema = S_Enum [''draft'', ''active'', ''archived'']"

definition product_draft_schema :: schema where
  "product_draft_schema = record_schema [(''slug'', S_All [S_Pattern slug_rx, bounded 0 160]), (''status'', status_schema),
     (''brandId'', S_Nullable S_Uuid), (''categoryIds'', S_Array S_Uuid), (''translations'', translations_schema),
     (''variants'', S_Array variant_input_schema), (''mediaIds'', S_Array S_Uuid)]"

definition product_schema :: schema where
  "product_schema = record_schema [(''id'', S_Uuid), (''slug'', text_schema), (''status'', status_schema),
     (''revision'', S_Integer None None), (''brandId'', S_Nullable S_Uuid), (''categoryIds'', S_Array S_Uuid),
     (''translations'', translations_schema),
     (''variants'', S_Array (S_All [variant_input_schema, record_schema [(''id'', S_Uuid), (''currency'', S_Enum [''MDL''])]])),
     (''images'', S_Array image_schema)]"

definition product_page_schema :: schema where
  "product_page_schema = record_schema [(''items'', S_Array product_schema), (''total'', S_Integer None None),
     (''page'', S_Integer None None), (''limit'', S_Integer None None)]"

definition reference_schema :: schema where
  "reference_schema = record_schema [(''id'', S_Uuid), (''slug'', text_schema), (''name'', text_schema)]"

definition metadata_schema :: schema where
  "metadata_schema = record_schema [(''categories'', S_Array reference_schema), (''brands'', S_Array reference_schema),
     (''attributes'', S_Array (record_schema [(''code'', text_schema), (''name'', text_schema), (''unit'', text_schema)]))]"

definition session_schema :: schema where
  "session_schema = record_schema [(''email'', text_schema), (''permissions'', S_Array text_schema)]"

definition login_reply_schema :: schema where
  "login_reply_schema = record_schema [(''email'', text_schema)]"

definition created_schema :: schema where
  "created_schema = record_schema [(''id'', text_schema)]"

subsection \<open>openapi.yaml\<close>

definition closed_schema :: "(string \<times> schema) list \<Rightarrow> schema" where
  "closed_schema props = S_Object False (map fst props) props"

definition error_schema :: schema where
  "error_schema = closed_schema [(''error'', closed_schema [(''code'', text_schema), (''message'', text_schema), (''requestId'', S_Uuid)])]"

definition liveness_schema :: schema where
  "liveness_schema = closed_schema [(''status'', S_Enum [''ok'']), (''service'', S_Enum [''bee-api'']), (''version'', text_schema)]"

definition readiness_schema :: schema where
  "readiness_schema = closed_schema [(''status'', S_Enum [''ready'']),
     (''checks'', closed_schema [(''postgres'', S_Enum [''up'']), (''redis'', S_Enum [''up''])])]"

subsection \<open>Conformance\<close>

lemma text_conforms [simp]: "conforms text_schema (JStr s)"
  by (simp add: text_schema_def within_def)

lemma bounded_conforms [simp]: "conforms (bounded mn mx) (JStr s) \<longleftrightarrow> mn \<le> char_count s \<and> char_count s \<le> mx"
  by (simp add: bounded_def within_def)

lemma integer_conforms [simp]: "conforms (S_Integer None None) (JInt i)"
  by (simp add: within_def)

lemma all_present: "list_all (\<lambda>k. k \<in> K) (map fst props) \<and> list_all (\<lambda>(k, s). k \<in> K \<longrightarrow> Q k s) props \<longleftrightarrow>
    list_all (\<lambda>(k, s). k \<in> K \<and> Q k s) props"
  by (induction props) auto

text \<open>An object with known members: every member that has a schema is there and conforms.\<close>

lemma record_conforms:
  "conforms (record_schema props) (JObj m) \<longleftrightarrow> list_all (\<lambda>(k, s). k \<in> fst ` set m \<and> conforms s (member m k)) props"
  by (simp add: record_schema_def all_present [symmetric])

lemma closed_conforms:
  "conforms (closed_schema props) (JObj m) \<longleftrightarrow>
     list_all (\<lambda>(k, s). k \<in> fst ` set m \<and> conforms s (member m k)) props \<and> fst ` set m \<subseteq> fst ` set props"
  by (simp add: closed_schema_def all_present [symmetric])

text \<open>A record schema depends on the members it names only.\<close>

lemma present: "member m k \<noteq> JNull \<Longrightarrow> k \<in> fst ` set m"
  using member_absent [of k m] by auto

lemma valid_text_conforms: "valid_text mn mx v \<Longrightarrow> conforms (bounded mn mx) v"
  by (auto simp: valid_text_def)

lemma translation_conforms: "valid_translation v \<Longrightarrow> conforms translation_schema v"
  by (auto simp: valid_translation_def translation_schema_def record_conforms intro!: present dest: valid_text_conforms)

end
