(* ===== verification/Documented.thy ===== *)
theory Documented
  imports Catalog_Written Media Contract
begin

text \<open>
  The state in which the replies of the API are as documented: beside the integrity of the
  catalog, every identifier is a canonical UUID, every product has both translations, and the
  rows hold what the validation accepts (\<open>written\<close>).  Each statement by which the server writes
  keeps it.
\<close>

definition entity_ids :: "db \<Rightarrow> string set" where
  "entity_ids d = p_id ` set (products d) \<union> v_id ` set (variants d) \<union> c_id ` set (categories d) \<union>
     b_id ` set (brands d) \<union> m_id ` set (media d)"

definition locales_of :: "db \<Rightarrow> string \<Rightarrow> string set" where
  "locales_of d k = t_locale ` set (filter (\<lambda>t. t_product t = k) (product_texts d))"

definition documented :: "db \<Rightarrow> bool" where
  "documented d \<longleftrightarrow> catalog_ok d \<and> (\<forall>k \<in> entity_ids d. canonical k) \<and>
     (\<forall>k \<in> p_id ` set (products d). locales_of d k = {''ru'', ''ro''}) \<and> written d"

lemma documented_ok [simp]: "documented d \<Longrightarrow> catalog_ok d"
  by (simp add: documented_def)

text \<open>Only the catalog, the media and the audit records matter.\<close>

definition catalog_part :: "db \<Rightarrow> db" where
  "catalog_part d = d\<lparr>clock := 0, uuid_counter := 0, user_roles := [], role_permissions := [], session_rows := [], throttles := []\<rparr>"

lemma documented_part: "documented (catalog_part d) \<longleftrightarrow> documented d"
  by (simp add: documented_def catalog_ok_def entity_ids_def locales_of_def catalog_part_def written_def product_written_def
      categories_of_def cong: list.pred_cong)

lemma documented_frame: "catalog_part d' = catalog_part d \<Longrightarrow> documented d \<Longrightarrow> documented d'"
  using documented_part [of d] documented_part [of d'] by simp

subsection \<open>A save\<close>

lemma save_parts_references:
  assumes "save_parts P doc actor corr target previous key d0 = Inr (r, d')"
  shows "categories d' = categories d0 \<and> brands d' = brands d0 \<and> media d' = media d0"
  using assms
proof (rule save_parts_Inr)
  fix d1 d2 items retained d3 d4 row
  assume "write_categories P doc key d0 = Inr d1" "write_texts P doc key d1 = Inr d2"
    "fold_res (save_variant P key) items ([], d2) = Inr (retained, d3)"
    "write_images P doc key (retire_variants key retained d3) = Inr d4" "insert_audit row d4 = Inr d'"
  then show ?thesis
    by (auto dest!: write_categories_Inr write_texts_Inr write_images_Inr fold_variants_frame
        simp: insert_audit_Inr retire_variants_def loop_frame_tables)
qed

lemma save_variant_ids:
  assumes "save_variant P key item (ks, d) = Inr (ks', d')"
  shows "v_id ` set (variants d') \<subseteq> v_id ` set (variants d) \<union> range (random_uuid P)"
proof -
  from save_variant_Inr [OF assms] obtain w d1 vs as where s: "variant_key P item d (v_id w, d1)"
      "has_key item ''id'' \<longrightarrow> (\<exists>v \<in> set (variants d). v_id v = v_id w \<and> v_product v = key)"
      "d' = d1\<lparr>variants := put_variant w (variants d), attribute_values := vs\<rparr>" by metis
  have "v_id w \<in> v_id ` set (variants d) \<union> range (random_uuid P)"
  proof (cases "has_key item ''id''")
    case True
    with s(2) show ?thesis by (metis UnI1 imageI)
  next
    case False
    then have "field_text P item ''id'' = None" by (simp add: no_key_no_field field_text_def)
    with s(1) show ?thesis by (simp add: variant_key_def)
  qed
  then show ?thesis by (auto simp: s(3) put_variant_ids)
qed

lemma save_parts_variant_ids:
  assumes "save_parts P doc actor corr target previous key d0 = Inr (r, d')"
  shows "v_id ` set (variants d') \<subseteq> v_id ` set (variants d0) \<union> range (random_uuid P)"
proof -
  from save_parts_variants [OF assms] obtain items retained d2 d3 where v:
      "fold_res (save_variant P key) items ([], d2) = Inr (retained, d3)" "variants d2 = variants d0"
      "variants d' = variants (retire_variants key retained d3)" by blast
  have "(\<lambda>(_, e). v_id ` set (variants e) \<subseteq> v_id ` set (variants d2) \<union> range (random_uuid P)) (retained, d3)"
  proof (rule fold_res_rel [OF v(1)])
    fix x a b
    assume step: "save_variant P key x a = Inr b"
      and R: "case a of (_, e) \<Rightarrow> v_id ` set (variants e) \<subseteq> v_id ` set (variants d2) \<union> range (random_uuid P)"
    obtain ks e ks' e' where "a = (ks, e)" "b = (ks', e')" by (cases a, cases b) auto
    with step R save_variant_ids [of P key x ks e ks' e']
    show "case b of (_, e) \<Rightarrow> v_id ` set (variants e) \<subseteq> v_id ` set (variants d2) \<union> range (random_uuid P)"
      by simp blast
  qed simp
  moreover have "v_id ` set (variants (retire_variants key retained d3)) = v_id ` set (variants d3)"
    by (simp add: variant_ids_keys)
  ultimately show ?thesis using v(2,3) by simp
qed

lemma committed_tables:
  assumes c: "committed P doc actor corr target expected d r d'"
  shows "categories d' = categories d \<and> brands d' = brands d \<and> media d' = media d \<and>
    v_id ` set (variants d') \<subseteq> v_id ` set (variants d) \<union> range (random_uuid P) \<and>
    (\<forall>k. k \<noteq> product_key P target d \<longrightarrow> locales_of d' k = locales_of d k)"
proof -
  from committed_parts [OF c] obtain previous d0 where s:
      "save_parts P doc actor corr target previous (product_key P target d) d0 = Inr (r, d')"
      "d0 = d\<lparr>uuid_counter := uuid_counter d0, products := products d0\<rparr>" by blast
  have "categories d0 = categories d" "brands d0 = brands d" "media d0 = media d" "variants d0 = variants d"
      "product_texts d0 = product_texts d"
    by (subst s(2), simp)+
  with save_parts_references [OF s(1)] save_parts_variant_ids [OF s(1)] save_parts_other_tables(2) [OF s(1)]
  show ?thesis by (simp add: locales_of_def)
qed

lemma committed_products:
  assumes c: "committed P doc actor corr target expected d r d'" and ok: "catalog_ok d"
  shows "p_id ` set (products d') \<subseteq> insert (product_key P target d) (p_id ` set (products d))"
proof
  fix k assume "k \<in> p_id ` set (products d')"
  then obtain p where p: "find_product d' k = Some p" using find_product_ids by blast
  show "k \<in> insert (product_key P target d) (p_id ` set (products d))"
  proof (cases "k = product_key P target d")
    case False
    with committed_product [OF c] p have "find_product d k = Some p" by auto
    then show ?thesis using find_product_id by blast
  qed simp
qed

lemma text_row_locales: "list_all2 (text_row P key) ms ts \<Longrightarrow> map t_locale ts = map fst ms"
  by (induction rule: list_all2_induct) (auto simp: text_row_def)

lemma committed_locales:
  assumes c: "committed P draft actor corr target expected d r d'" and "valid_draft J draft" and "wf_json draft"
  shows "locales_of d' (product_key P target d) = {''ru'', ''ro''}"
proof -
  from assms(2) obtain m ts where m: "draft = JObj m" "member m ''translations'' = JObj ts" "length ts = 2"
      "valid_translation (member ts ''ru'')" "valid_translation (member ts ''ro'')"
    unfolding valid_draft_def by blast
  have "distinct (map fst ts)" using part_wf [of m "''translations''"] assms(3) by (simp add: m(1,2))
  moreover have "''ru'' \<in> fst ` set ts" "''ro'' \<in> fst ` set ts"
    using m(4,5) by (auto simp: valid_translation_def intro!: present)
  ultimately have "fst ` set ts = {''ru'', ''ro''}"
    using m(3) distinct_card [of "map fst ts"] by (intro card_subset_eq [symmetric]) auto
  moreover obtain ts' where "list_all2 (text_row P (product_key P target d)) ts ts'"
      "filter (\<lambda>t. t_product t = product_key P target d) (product_texts d') = ts'"
    using committed_rows [OF c] object_part [OF m(2)] by (auto simp: m(1))
  ultimately show ?thesis
    using text_row_locales [of P "product_key P target d" ts ts'] by (metis list.set_map locales_of_def)
qed

lemma committed_documented:
  assumes c: "committed P draft actor corr target expected d r d'" and "valid_draft J draft" and "wf_json draft"
    and st: "storable draft" and U: "uuids_ok P" and doc: "documented d"
  shows "documented d'"
proof -
  let ?key = "product_key P target d"
  have key: "canonical ?key"
  proof (cases target)
    case None
    with U show ?thesis by (simp add: product_key_def uuids_ok_def)
  next
    case (Some k)
    with c obtain p where "find_product d k = Some p" by (auto simp: committed_def)
    from find_product_id [OF this] have "k \<in> entity_ids d" by (auto simp: entity_ids_def)
    with doc Some show ?thesis by (simp add: product_key_def documented_def)
  qed
  note tables = committed_tables [OF c] and prods = committed_products [OF c documented_ok [OF doc]]
  have refs: "categories d' = categories d" "brands d' = brands d" "media d' = media d"
      "v_id ` set (variants d') \<subseteq> v_id ` set (variants d) \<union> range (random_uuid P)" using tables by blast+
  have "entity_ids d' \<subseteq> insert ?key (entity_ids d \<union> range (random_uuid P))"
    unfolding entity_ids_def refs(1-3) using refs(4) prods by blast
  moreover have "\<forall>k \<in> entity_ids d. canonical k" using doc by (simp add: documented_def)
  moreover have "\<forall>k \<in> range (random_uuid P). canonical k" using U by (simp add: uuids_ok_def)
  ultimately have "\<forall>k \<in> entity_ids d'. canonical k" using key by blast
  moreover have "locales_of d' k = {''ru'', ''ro''}" if "k \<in> p_id ` set (products d')" for k
  proof (cases "k = ?key")
    case True
    with committed_locales [OF c assms(2,3)] show ?thesis by (simp only:)
  next
    case False
    with that prods have "k \<in> p_id ` set (products d)" by blast
    then have "locales_of d k = {''ru'', ''ro''}" using doc unfolding documented_def by blast
    with False tables show ?thesis by metis
  qed
  moreover have "written d'"
    using committed_written [OF c assms(2,3) st documented_ok [OF doc]] doc by (simp add: documented_def)
  ultimately show ?thesis using committed_keeps [OF c documented_ok [OF doc]] by (simp add: documented_def)
qed

subsection \<open>New references and images\<close>

lemma references_mono:
  "products_ok bs ps \<Longrightarrow> bs \<subseteq> bs' \<Longrightarrow> products_ok bs' ps"
  "category_links_ok ks cs ls \<Longrightarrow> cs \<subseteq> cs' \<Longrightarrow> category_links_ok ks cs' ls"
  "values_ok ks cs as \<Longrightarrow> cs \<subseteq> cs' \<Longrightarrow> values_ok ks cs' as"
  "images_ok ks ms is \<Longrightarrow> ms \<subseteq> ms' \<Longrightarrow> images_ok ks ms' is"
  by (auto simp: products_ok_def category_links_ok_def values_ok_def images_ok_def)

lemma documented_grow:
  assumes doc: "documented d"
    and same: "products d' = products d" "product_categories d' = product_categories d" "product_texts d' = product_texts d"
      "variants d' = variants d" "attribute_values d' = attribute_values d" "images d' = images d" "users d' = users d"
    and more: "b_id ` set (brands d) \<subseteq> b_id ` set (brands d')" "c_id ` set (categories d) \<subseteq> c_id ` set (categories d')"
      "d_code ` set (attributes d) \<subseteq> d_code ` set (attributes d')" "m_id ` set (media d) \<subseteq> m_id ` set (media d')"
    and ids: "entity_ids d' \<subseteq> entity_ids d \<union> Collect canonical"
    and actors: "l_actor ` set (audit d') \<subseteq> l_actor ` set (audit d) \<union> u_id ` set (users d)"
  shows "documented d'"
proof -
  from doc have ok: "catalog_ok d" by simp
  then have old: "products_ok (b_id ` set (brands d)) (products d)"
      "category_links_ok (p_id ` set (products d)) (c_id ` set (categories d)) (product_categories d)"
      "values_ok (v_id ` set (variants d)) (d_code ` set (attributes d)) (attribute_values d)"
      "images_ok (p_id ` set (products d)) (m_id ` set (media d)) (images d)"
      "l_actor ` set (audit d) \<subseteq> u_id ` set (users d)"
    by (auto simp: catalog_ok_def)
  have "\<forall>l \<in> set (audit d'). l_actor l \<in> u_id ` set (users d)"
    using old(5) actors by blast
  then have "catalog_ok d'"
    using ok references_mono(1) [OF old(1) more(1)] references_mono(2) [OF old(2) more(2)]
      references_mono(3) [OF old(3) more(3)] references_mono(4) [OF old(4) more(4)]
    by (simp add: catalog_ok_def same)
  moreover have "\<forall>k \<in> entity_ids d'. canonical k" using ids doc unfolding documented_def by blast
  moreover have "locales_of d' k = locales_of d k" for k by (simp add: locales_of_def same)
  moreover have "product_written d' = product_written d" by (rule ext) (simp add: product_written_def categories_of_def same)
  then have "written d' = written d" by (simp add: written_def same)
  ultimately show ?thesis using doc by (simp add: documented_def same)
qed

lemma reference_audit_Inr:
  "reference_audit action actor corr entity changes d = Inr d' \<longleftrightarrow> actor \<in> u_id ` set (users d) \<and>
     d' = d\<lparr>audit := audit d @ [\<lparr>l_actor = actor, l_action = action, l_entity = entity, l_request = corr,
       l_changes = changes, l_created = clock d\<rparr>]\<rparr>"
  by (simp add: reference_audit_def insert_audit_Inr)

lemma insert_brand_documented:
  assumes "insert_brand P doc actor corr d = Inr (x, d')" and U: "uuids_ok P" and ok: "documented d"
  shows "documented d'"
proof -
  from assms(1) obtain s name where "actor \<in> u_id ` set (users d)"
      "d' = d\<lparr>uuid_counter := Suc (uuid_counter d),
        brands := brands d @ [\<lparr>b_id = random_uuid P (uuid_counter d), b_slug = s, b_name = name\<rparr>],
        audit := audit d @ [\<lparr>l_actor = actor, l_action = ''brand.created'', l_entity = random_uuid P (uuid_counter d),
          l_request = corr, l_changes = JObj [], l_created = clock d\<rparr>]\<rparr>"
    by (auto simp: insert_brand_def bind_res_eq_Inr Let_def reference_audit_Inr)
  then show ?thesis
    using U by (intro documented_grow [OF ok]) (auto simp: uuids_ok_def entity_ids_def)
qed

lemma insert_category_row_documented:
  assumes "insert_category_row P doc actor corr d = Inr (x, d')" and U: "uuids_ok P" and ok: "documented d"
  shows "documented d'"
proof -
  from assms(1) obtain s ct where "actor \<in> u_id ` set (users d)"
      "d' = d\<lparr>uuid_counter := Suc (uuid_counter d),
        categories := categories d @ [\<lparr>c_id = random_uuid P (uuid_counter d), c_parent = None, c_slug = s\<rparr>], category_texts := ct,
        audit := audit d @ [\<lparr>l_actor = actor, l_action = ''category.created'', l_entity = random_uuid P (uuid_counter d),
          l_request = corr, l_changes = JObj [], l_created = clock d\<rparr>]\<rparr>"
    by (auto simp: insert_category_row_def bind_res_eq_Inr Let_def reference_audit_Inr)
  then show ?thesis
    using U by (intro documented_grow [OF ok]) (auto simp: uuids_ok_def entity_ids_def)
qed

lemma insert_attribute_documented:
  assumes "insert_attribute P doc actor corr d = Inr (x, d')" and ok: "documented d"
  shows "documented d'"
proof -
  from assms(1) obtain row where "actor \<in> u_id ` set (users d)"
      "d' = d\<lparr>uuid_counter := Suc (uuid_counter d), attributes := attributes d @ [row],
        audit := audit d @ [\<lparr>l_actor = actor, l_action = ''attribute.created'', l_entity = random_uuid P (uuid_counter d),
          l_request = corr, l_changes = JObj [(''code'', JStr x)], l_created = clock d\<rparr>]\<rparr>"
    by (auto simp: insert_attribute_def bind_res_eq_Inr Let_def reference_audit_Inr)
  then show ?thesis
    by (intro documented_grow [OF ok]) (auto simp: entity_ids_def)
qed

lemma reference_statement_documented:
  assumes "reference_statement J P kind value actor corr d = Inr (x, d')" and "uuids_ok P" and "documented d"
  shows "documented d'"
  using assms
  by (auto simp: reference_statement_def bind_res_eq_Inr
      dest: insert_brand_documented insert_category_row_documented insert_attribute_documented split: if_splits)

lemma media_statement_documented:
  assumes "media_statement P key actor width height corr d = Inr (x, d')" and "postgres_ok J P" and "uuid key" and ok: "documented d"
  shows "documented d'"
proof -
  have "uuid_in P key = Some (lower key)" using assms(2,3) by (simp add: postgres_ok_def)
  with assms(1) obtain a c where a: "a \<in> u_id ` set (users d)"
      "d' = d\<lparr>media := media d @ [\<lparr>m_id = lower key, m_creator = a, m_created = clock d, m_width = width, m_height = height\<rparr>],
        audit := audit d @ [\<lparr>l_actor = a, l_action = ''media.created'', l_entity = lower key, l_request = c,
          l_changes = JObj [], l_created = clock d\<rparr>]\<rparr>"
    by (auto simp: media_statement_def bind_res_eq_Inr cast_eq_Inr insert_audit_Inr list_ex_key)
  then show ?thesis
    using assms(3) by (intro documented_grow [OF ok]) (auto simp: entity_ids_def)
qed

subsection \<open>An example\<close>

lemma sample_product_lower: "lower sample_product = sample_product"
  by code_simp

lemma sample_db1_documented: "documented sample_db1"
proof -
  have "uuid sample_category" by code_simp
  then have "\<forall>k \<in> entity_ids sample_db1. canonical k"
    by (simp add: entity_ids_def sample_db1_def sample_rows_def sample_db_def empty_db_def canonical_def
        sample_lower sample_uuids sample_product_lower)
  moreover have "\<forall>k \<in> p_id ` set (products sample_db1). locales_of sample_db1 k = {''ru'', ''ro''}"
    by (simp add: locales_of_def sample_db1_def sample_rows_def)
  moreover have "written sample_db1"
    by (simp add: written_def product_written_def text_written_def variant_written_def value_written_def values_of_def
        categories_of_def fit_text_def text_eval sample_db1_def sample_rows_def)
  ultimately show ?thesis using sample_db1_ok by (simp add: documented_def)
qed

end
