(* ===== verification/Contract_Documents.thy ===== *)
theory Contract_Documents
  imports Documented
begin

text \<open>The documents that the catalog builds conform to their schemas in a documented state.\<close>

lemma elements_conform: "(\<And>x. x \<in> set xs \<Longrightarrow> conforms s (f x)) \<Longrightarrow> conforms (S_Array s) (JArr (map f xs))"
  by (simp add: list_all_iff)

lemma canonical_uuid [simp]: "canonical k \<Longrightarrow> uuid k"
  by (simp add: canonical_def)

lemma table_ids:
  assumes "\<forall>k \<in> entity_ids d. canonical k"
  shows "k \<in> p_id ` set (products d) \<Longrightarrow> canonical k" "k \<in> v_id ` set (variants d) \<Longrightarrow> canonical k"
    "k \<in> c_id ` set (categories d) \<Longrightarrow> canonical k" "k \<in> b_id ` set (brands d) \<Longrightarrow> canonical k"
    "k \<in> m_id ` set (media d) \<Longrightarrow> canonical k"
  using assms unfolding entity_ids_def by blast+

lemma uuid_conforms [simp]: "canonical k \<Longrightarrow> conforms S_Uuid (JStr k)"
  by (simp add: canonical_def)

lemma image_conforms: "canonical (i_media i) \<Longrightarrow> conforms image_schema (image_json i)"
  by (simp add: image_schema_def record_conforms image_json_def del: conforms.simps)

lemma upload_conforms: "canonical k \<Longrightarrow> conforms image_schema (upload_result k)"
  by (simp add: image_schema_def record_conforms upload_result_def del: conforms.simps)

lemma translation_row_conforms: "text_bounds t \<Longrightarrow> conforms translation_schema (snd (translation_json t))"
  by (simp add: text_bounds_def translation_schema_def record_conforms translation_json_def del: conforms.simps)

lemma variant_conforms:
  assumes ok: "catalog_ok d" and "\<forall>k \<in> entity_ids d. canonical k" and v: "v \<in> set (variants d)"
  shows "conforms (S_All [variant_input_schema, record_schema [(''id'', S_Uuid), (''currency'', S_Enum [''MDL''])]]) (variant_json d v)"
proof -
  have b: "variant_bounds v" using ok v by (simp add: catalog_ok_def variants_ok_def)
  have id: "canonical (v_id v)" using table_ids(2) [OF assms(2)] v by blast
  have "\<forall>a \<in> set (attribute_values d). char_count (a_value a) \<le> 300"
    using ok by (auto simp: catalog_ok_def values_ok_def)
  then have "conforms (S_Map (bounded 0 300)) (JObj (map (\<lambda>a. (a_code a, JStr (a_value a)))
      (filter (\<lambda>a. a_variant a = v_id v) (attribute_values d))))"
    by (auto simp: list_all_iff)
  moreover have "conforms (S_Integer (Some 0) (Some 100000000)) (JInt (v_price v))"
    using b by (simp add: within_def variant_bounds_def)
  ultimately have "conforms variant_input_schema (variant_json d v)"
    using b id by (simp add: variant_input_schema_def variant_json_def conforms.simps(9) conforms.simps(6) variant_bounds_def
        del: conforms.simps(5,10))
  moreover have "conforms (record_schema [(''id'', S_Uuid), (''currency'', S_Enum [''MDL''])]) (variant_json d v)"
    using id by (simp add: record_conforms variant_json_def canonical_def)
  ultimately show ?thesis by simp
qed

lemma member_of_key: "k \<in> fst ` set m \<Longrightarrow> (k, member m k) \<in> set m"
proof -
  assume "k \<in> fst ` set m"
  then obtain v where "map_of m k = Some v" by (metis map_of_eq_None_iff not_None_eq)
  then show ?thesis by (simp add: member_def map_of_SomeD)
qed

lemma translations_conform:
  assumes "\<forall>t \<in> set ts. text_bounds t" and "t_locale ` set ts = {''ru'', ''ro''}"
  shows "conforms translations_schema (JObj (map translation_json ts))"
proof -
  have "conforms translation_schema (member (map translation_json ts) k) \<and> k \<in> fst ` set (map translation_json ts)"
    if "k \<in> {''ru'', ''ro''}" for k
  proof -
    have "fst ` set (map translation_json ts) = {''ru'', ''ro''}"
      using assms(2) by (simp add: image_image translation_json_def)
    with that have k: "k \<in> fst ` set (map translation_json ts)" by (simp only:)
    from member_of_key [OF this] have "(k, member (map translation_json ts) k) \<in> translation_json ` set ts" by (simp only: set_map)
    then obtain t where t: "t \<in> set ts" "translation_json t = (k, member (map translation_json ts) k)" by (metis imageE)
    then have "member (map translation_json ts) k = snd (translation_json t)" by (simp only: snd_conv)
    with translation_row_conforms [of t] t(1) assms(1) k show ?thesis by simp
  qed
  then show ?thesis by (simp add: translations_schema_def record_conforms del: conforms.simps)
qed

lemma product_conforms:
  assumes doc: "documented d" and v: "catalog_document P d k = Some v"
  shows "conforms product_schema v"
proof -
  from doc have ok: "catalog_ok d" and ids: "\<forall>k \<in> entity_ids d. canonical k" by (simp_all add: documented_def)
  from v obtain p where p: "find_product d k = Some p" by (auto simp: catalog_document_def split: option.splits)
  then have row: "p \<in> set (products d)" "p_id p = k" using find_product_id by blast+
  have status: "known_status (p_status p)" and brand: "\<And>b. p_brand p = Some b \<Longrightarrow> b \<in> b_id ` set (brands d)"
    using ok row by (auto simp: catalog_ok_def products_ok_def)
  have "canonical k" using table_ids(1) [OF ids] row by blast
  moreover have "conforms status_schema (JStr (p_status p))"
    using status by (auto simp: status_schema_def known_status_def)
  moreover have "conforms (S_Nullable S_Uuid) (json_option (p_brand p))"
  proof (cases "p_brand p")
    case (Some b)
    with brand table_ids(4) [OF ids] have "canonical b" by blast
    with Some show ?thesis by (simp add: json_option_def)
  qed (simp add: json_option_def)
  moreover have "conforms (S_Array S_Uuid) (JArr (map JStr (sort (map snd (filter (\<lambda>(q, _). q = k) (product_categories d))))))"
  proof (rule elements_conform)
    fix c assume "c \<in> set (sort (map snd (filter (\<lambda>(q, _). q = k) (product_categories d))))"
    then have "c \<in> c_id ` set (categories d)"
      using ok by (fastforce simp: catalog_ok_def category_links_ok_def)
    from table_ids(3) [OF ids this] show "conforms S_Uuid (JStr c)" by simp
  qed
  moreover have "conforms translations_schema (JObj (map translation_json (filter (\<lambda>t. t_product t = k) (product_texts d))))"
  proof (rule translations_conform)
    show "\<forall>t \<in> set (filter (\<lambda>t. t_product t = k) (product_texts d)). text_bounds t"
      using ok by (simp add: catalog_ok_def texts_ok_def)
    show "t_locale ` set (filter (\<lambda>t. t_product t = k) (product_texts d)) = {''ru'', ''ro''}"
      using doc row by (auto simp: documented_def locales_of_def)
  qed
  moreover have "conforms (S_Array (S_All [variant_input_schema, record_schema [(''id'', S_Uuid), (''currency'', S_Enum [''MDL''])]]))
      (JArr (map (variant_json d) (sort_key (\<lambda>v. collation_key P (v_sku v)) (filter (\<lambda>v. v_product v = k) (variants d)))))"
    by (rule elements_conform) (rule variant_conforms [OF ok ids], simp)
  moreover have "conforms (S_Array image_schema) (JArr (map image_json (sort_key i_position (filter (\<lambda>i. i_product i = k) (images d)))))"
  proof (rule elements_conform)
    fix i assume "i \<in> set (sort_key i_position (filter (\<lambda>i. i_product i = k) (images d)))"
    then have "i_media i \<in> m_id ` set (media d)" using ok by (simp add: catalog_ok_def images_ok_def)
    from table_ids(5) [OF ids this] show "conforms image_schema (image_json i)" by (rule image_conforms)
  qed
  ultimately show ?thesis
    using v p row(2) by (auto simp add: catalog_document_def product_schema_def record_conforms simp del: conforms.simps)
qed

text \<open>The public view drops variants, which leaves a conforming document.\<close>

lemma update_keys: "k \<in> fst ` set m \<Longrightarrow> fst ` set (AList.update k x m) = fst ` set m"
  by (induction m) (auto split: if_splits)

lemma public_conforms:
  assumes "conforms product_schema v" and "v = JObj m"
  shows "conforms product_schema (public_view v)"
proof -
  let ?item = "S_All [variant_input_schema, record_schema [(''id'', S_Uuid), (''currency'', S_Enum [''MDL''])]]"
  from assms have vs: "''variants'' \<in> fst ` set m" "conforms (S_Array ?item) (member m ''variants'')"
    by (simp_all add: product_schema_def record_conforms del: conforms.simps)
  from vs(2) have "conforms (S_Array ?item) (JArr (filter active_of (elements (member m ''variants''))))"
    by (cases "member m ''variants''") (simp_all only: conforms.simps(8) json.case list_all_iff elements.simps set_filter, blast)
  with assms vs(1) show ?thesis
    by (simp add: public_view_def product_schema_def record_conforms update_keys del: conforms.simps)
qed

lemma page_conforms:
  assumes "\<And>x. x \<in> set items \<Longrightarrow> conforms product_schema x"
  shows "conforms product_page_schema (JObj [(''items'', JArr items), (''total'', JInt t), (''page'', JInt p), (''limit'', JInt l)])"
proof -
  have "conforms (S_Array product_schema) (JArr items)" using assms by (simp add: list_all_iff)
  then show ?thesis by (simp add: product_page_schema_def record_conforms del: conforms.simps)
qed

lemma metadata_conforms:
  assumes "\<forall>k \<in> entity_ids d. canonical k"
  shows "conforms metadata_schema (JObj [(''categories'', JArr (category_entries P d loc)), (''brands'', JArr (brand_entries P d)),
      (''attributes'', JArr (attribute_entries P d loc))])"
proof -
  have reference: "conforms reference_schema (JObj [(''id'', JStr k), (''slug'', JStr s), (''name'', JStr n)])"
    if "canonical k" for k s n
    using that by (simp add: reference_schema_def record_conforms del: conforms.simps)
  have "conforms (S_Array reference_schema) (JArr (category_entries P d loc))"
    unfolding category_entries_def
    by (rule elements_conform) (auto intro!: reference table_ids(3) [OF assms])
  moreover have "conforms (S_Array reference_schema) (JArr (brand_entries P d))"
    unfolding brand_entries_def
    by (rule elements_conform) (auto intro!: reference table_ids(4) [OF assms])
  moreover have "conforms (S_Array (record_schema [(''code'', text_schema), (''name'', text_schema), (''unit'', text_schema)]))
      (JArr (attribute_entries P d loc))"
    unfolding attribute_entries_def
    by (rule elements_conform) (simp add: record_conforms del: conforms.simps)
  ultimately show ?thesis by (simp add: metadata_schema_def record_conforms del: conforms.simps)
qed

text \<open>The other bodies.\<close>

lemma error_conforms: "uuid rid \<Longrightarrow> conforms error_schema (error_body c m rid)"
  by (simp add: error_schema_def closed_schema_def error_body_def text_schema_def within_def)

lemma session_conforms: "conforms session_schema (JObj [(''email'', JStr e), (''permissions'', JArr (map JStr ps))])"
proof -
  have "conforms (S_Array text_schema) (JArr (map JStr ps))" by (rule elements_conform) simp
  then show ?thesis by (simp add: session_schema_def record_conforms del: conforms.simps)
qed

lemma login_conforms: "conforms login_reply_schema (JObj [(''email'', JStr e)])"
  by (simp add: login_reply_schema_def record_conforms del: conforms.simps)

lemma created_conforms: "conforms created_schema (JObj [(''id'', JStr k)])"
  by (simp add: created_schema_def record_conforms del: conforms.simps)

end
