(* ===== verification/Media_Integrity.thy ===== *)
theory Media_Integrity
  imports Media
begin

text \<open>
  What uploads and image requests guarantee: objects are stored before the row that makes them
  known, a stored image is the one served, and an unpublished image needs \<open>media.write\<close>.
\<close>

subsection \<open>Keys\<close>

lemma digits_inject [simp]: "digits m = digits n \<longleftrightarrow> m = n"
  by (metis digits_value_digits)

lemma media_key_inject:
  "length k = length k' \<Longrightarrow> media_key k a = media_key k' b \<longleftrightarrow> k = k' \<and> a = b"
  by (auto simp: media_key_def)

lemma digits_no_nul: "CHR 0x00 \<notin> set (digits n)"
  using digits_numeral [of n] by (auto simp: numeral_string_def is_digit_def list_all_iff)

definition media_ready :: "media_env \<Rightarrow> bool" where
  "media_ready M \<longleftrightarrow> s3_ok (s3_server M) \<and>
     CHR 0x00 \<notin> set (st_endpoint (storage M)) \<and> CHR 0x00 \<notin> set (st_bucket (storage M)) \<and>
     (\<forall>n. uuid (new_uuid M n) \<and> lower (new_uuid M n) = new_uuid M n)"

lemma media_key_storable:
  "media_ready M \<Longrightarrow> uuid key \<Longrightarrow> storable_key (s3_server M) (storage M) (media_key key box)"
  using digits_no_nul [of box] uuid_no_nul [of key]
  by (auto simp: storable_key_def media_ready_def object_url_def media_key_def)

subsection \<open>The loop over the sizes\<close>

abbreviation put_images where
  "put_images M S \<equiv> put_all (store_put (s3_server M) S (storage M))"

lemma store_size_cases:
  "store_size M S bytes key box w = (case encoded M bytes box of Inl e \<Rightarrow> (Inl e, w)
     | Inr data \<Rightarrow> storage_put (s3_server M) S (storage M) (media_key key box) data w)"
  by (simp add: store_size_def bind_act_simp split: sum.splits)

lemma store_put_ok: "storage_put V S st key data w = (Inr (), w') \<Longrightarrow> store_put V S st key data w = (True, w')"
  by (simp add: store_put_def)

lemma store_put_fails: "storage_put V S st key data w = (Inl e, w') \<Longrightarrow> store_put V S st key data w = (False, w')"
  by (simp add: store_put_def)

lemma storage_put_frame:
  assumes "storage_put V S st key data w = (r, w')"
  shows "w_db w' = w_db w \<and> w_fates w' = w_fates w \<and> w_random w' = w_random w \<and>
     (\<forall>e. r = Inl e \<longrightarrow> e = image_not_found \<or> e = storage_unavailable)"
proof -
  obtain x w1 where request: "storage_request V S st key (Some data) w = (x, w1)" by fastforce
  with assms have "w' = w1" "r = (case x of Inl e \<Rightarrow> Inl e | Inr _ \<Rightarrow> Inr ())"
    by (auto simp: storage_put_def bind_act_simp split: sum.splits)
  with storage_request_db [OF request] storage_request_errors [of V S st key "Some data" w _ w1] request show ?thesis
    by (cases x) auto
qed

lemma encoded_error: "encoded M bytes box = Inl e \<Longrightarrow> \<exists>m. e = invalid_image m"
  by (auto simp: encoded_def split: option.splits)

lemma store_sizes_frame:
  "each_act (store_size M S bytes key) boxes w = (r, w') \<Longrightarrow>
     w_db w' = w_db w \<and> w_fates w' = w_fates w \<and> w_random w' = w_random w \<and>
     (\<forall>e. r = Inl e \<longrightarrow> (\<exists>m. e = invalid_image m) \<or> e = image_not_found \<or> e = storage_unavailable)"
proof (induction boxes arbitrary: w)
  case (Cons b bs)
  obtain x w1 where step: "store_size M S bytes key b w = (x, w1)" by fastforce
  then have frame: "w_db w1 = w_db w \<and> w_fates w1 = w_fates w \<and> w_random w1 = w_random w \<and>
      (\<forall>e. x = Inl e \<longrightarrow> (\<exists>m. e = invalid_image m) \<or> e = image_not_found \<or> e = storage_unavailable)"
    using storage_put_frame encoded_error by (fastforce simp: store_size_cases split: sum.splits)
  show ?case
  proof (cases x)
    case (Inl e)
    with Cons.prems step frame show ?thesis by (auto simp: bind_act_simp)
  next
    case (Inr u)
    with Cons.prems step have "each_act (store_size M S bytes key) bs w1 = (r, w')" by (simp add: bind_act_simp)
    from Cons.IH [OF this] frame show ?thesis by simp
  qed
qed auto

text \<open>Whatever the outcome, the loop has put some of the images under keys of this upload \<dots>\<close>

lemma store_sizes_puts:
  "each_act (store_size M S bytes key) boxes w = (r, w') \<Longrightarrow>
     \<exists>items b. fst ` set items \<subseteq> media_key key ` set boxes \<and> put_images M S items w = (b, w')"
proof (induction boxes arbitrary: w)
  case Nil
  then show ?case by (intro exI [of _ "[]"] exI [of _ True]) simp
next
  case (Cons b bs)
  show ?case
  proof (cases "encoded M bytes b")
    case (Inl e)
    with Cons.prems show ?thesis
      by (intro exI [of _ "[]"]) (auto simp: bind_act_simp store_size_cases)
  next
    case (Inr data)
    obtain x w1 where put: "storage_put (s3_server M) S (storage M) (media_key key b) data w = (x, w1)" by fastforce
    show ?thesis
    proof (cases x)
      case (Inl e)
      with put Inr Cons.prems have "put_images M S [(media_key key b, data)] w = (False, w')"
        by (auto simp: bind_act_simp store_size_cases dest: store_put_fails)
      then show ?thesis by (intro exI [of _ "[(media_key key b, data)]"]) auto
    next
      case (Inr u)
      with put \<open>encoded M bytes b = Inr data\<close> Cons.prems have "each_act (store_size M S bytes key) bs w1 = (r, w')"
        by (simp add: bind_act_simp store_size_cases [of M S bytes key b w])
      from Cons.IH [OF this] obtain items c
        where items: "fst ` set items \<subseteq> media_key key ` set bs" "put_images M S items w1 = (c, w')" by blast
      with put Inr have "put_images M S ((media_key key b, data) # items) w = (c, w')" by (simp add: store_put_ok)
      with items(1) show ?thesis by (intro exI [of _ "(media_key key b, data) # items"] exI [of _ c]) auto
    qed
  qed
qed

text \<open>\<dots> and all of them when it returns.\<close>

lemma store_sizes_all:
  "each_act (store_size M S bytes key) boxes w = (Inr (), w') \<Longrightarrow>
     \<exists>datas. map (encoded M bytes) boxes = map Inr datas \<and>
       put_images M S (zip (map (media_key key) boxes) datas) w = (True, w')"
proof (induction boxes arbitrary: w)
  case (Cons b bs)
  obtain w1 where b: "store_size M S bytes key b w = (Inr (), w1)"
    and rest: "each_act (store_size M S bytes key) bs w1 = (Inr (), w')"
    using Cons.prems by (auto simp: bind_act_Inr)
  then obtain data where data: "encoded M bytes b = Inr data"
    and put: "store_put (s3_server M) S (storage M) (media_key key b) data w = (True, w1)"
    by (auto simp: store_size_cases store_put_ok split: sum.splits)
  from Cons.IH [OF rest] obtain datas where "map (encoded M bytes) bs = map Inr datas"
    "put_images M S (zip (map (media_key key) bs) datas) w1 = (True, w')" by blast
  with data put show ?case by (intro exI [of _ "data # datas"]) simp
qed simp

subsection \<open>The row\<close>

lemma media_statement_Inr:
  assumes "media_statement P key actor width height corr d = Inr (x, d')"
  shows "\<exists>k a c. uuid_in P key = Some k \<and> uuid_in P actor = Some a \<and> uuid_in P corr = Some c \<and>
    k \<notin> m_id ` set (media d) \<and> a \<in> u_id ` set (users d) \<and> 0 < width \<and> 0 < height \<and>
    d' = d\<lparr>media := media d @ [\<lparr>m_id = k, m_creator = a, m_created = clock d, m_width = width, m_height = height\<rparr>],
       audit := audit d @ [\<lparr>l_actor = a, l_action = ''media.created'', l_entity = k, l_request = c,
         l_changes = JObj [], l_created = clock d\<rparr>]\<rparr>"
  using assms by (auto simp: media_statement_def insert_audit_def cast_eq_Inr list_ex_key bind_res_eq_Inr bind_unit_eq_Inr)

lemma upload_cases:
  assumes "upload M P S bytes actor corr w = (r, w')"
  obtains (rejected) e where "check_image M bytes = Inl e" "r = Inl e" "w' = w"
  | (failed) width height e where "check_image M bytes = Inr (width, height)" "r = Inl e"
      "each_act (store_size M S bytes (new_uuid M (w_random w))) image_sizes (w\<lparr>w_random := Suc (w_random w)\<rparr>) = (Inl e, w')"
  | (recorded) width height w2 y where "check_image M bytes = Inr (width, height)"
      "each_act (store_size M S bytes (new_uuid M (w_random w))) image_sizes (w\<lparr>w_random := Suc (w_random w)\<rparr>) = (Inr (), w2)"
      "exec_sql (media_statement P (new_uuid M (w_random w)) actor width height corr) w2 = (y, w')"
      "r = (case y of Inl e \<Rightarrow> Inl e | Inr _ \<Rightarrow> Inr (upload_result (new_uuid M (w_random w))))"
proof (cases "check_image M bytes")
  case (Inl e)
  with assms rejected show ?thesis by (simp add: upload_def bind_act_simp)
next
  case (Inr size)
  obtain width height where size: "size = (width, height)" by fastforce
  obtain x w2 where x: "each_act (store_size M S bytes (new_uuid M (w_random w))) image_sizes
      (w\<lparr>w_random := Suc (w_random w)\<rparr>) = (x, w2)" by fastforce
  obtain y w3 where y: "exec_sql (media_statement P (new_uuid M (w_random w)) actor width height corr) w2 = (y, w3)" by fastforce
  show ?thesis
  proof (cases x)
    case (Inl e)
    with assms Inr size x have "r = Inl e" "w' = w2" by (simp_all add: upload_def bind_act_simp draw_def)
    with failed Inr size x Inl show ?thesis by simp
  next
    case (Inr u)
    with assms \<open>check_image M bytes = Inr size\<close> size x y
    have "r = (case y of Inl e \<Rightarrow> Inl e | Inr _ \<Rightarrow> Inr (upload_result (new_uuid M (w_random w))))" "w' = w3"
      by (auto simp: upload_def bind_act_simp draw_def split: sum.splits)
    with recorded \<open>check_image M bytes = Inr size\<close> size x y Inr show ?thesis by simp
  qed
qed

subsection \<open>Stored before known\<close>

text \<open>Every known image has its three objects in the bucket.\<close>

definition backed :: "media_env \<Rightarrow> world \<Rightarrow> bool" where
  "backed M w \<longleftrightarrow> (\<forall>m \<in> set (media (w_db w)). uuid (m_id m) \<and>
     (\<forall>box \<in> set image_sizes. stored (storage M) w (media_key (m_id m) box) \<noteq> None))"

lemma sizes_stored:
  assumes ready: "media_ready M" and key: "uuid key"
    and all: "each_act (store_size M S bytes key) image_sizes w = (Inr (), w')"
  shows "\<forall>box \<in> set image_sizes. \<exists>data. encoded M bytes box = Inr data \<and>
    stored (storage M) w' (media_key key box) = Some data"
proof -
  from store_sizes_all [OF all] obtain datas where datas: "map (encoded M bytes) image_sizes = map Inr datas"
    and puts: "put_images M S (zip (map (media_key key) image_sizes) datas) w = (True, w')" by blast
  then obtain d1 d2 d3 where d: "datas = [d1, d2, d3]"
    by (auto simp: image_sizes_def map_eq_Cons_conv Cons_eq_map_conv)
  have "\<forall>(k, v) \<in> set (zip (map (media_key key) image_sizes) datas). stored (storage M) w' k = Some v"
    by (rule s3.put_all_stores [OF _ _ puts])
      (auto simp: d image_sizes_def media_key_inject media_key_storable [OF ready key])
  with datas d show ?thesis by (simp add: image_sizes_def)
qed

lemma stored_kept:
  assumes ready: "media_ready M" and key: "uuid key" and other: "uuid other"
    and run: "each_act (store_size M S bytes key) boxes w = (r, w')"
    and "stored (storage M) w (media_key other box) \<noteq> None"
  shows "stored (storage M) w' (media_key other box) \<noteq> None"
proof -
  from store_sizes_puts [OF run] obtain items b where items: "fst ` set items \<subseteq> media_key key ` set boxes"
    and puts: "put_images M S items w = (b, w')" by blast
  have "\<forall>x \<in> set items. storable_key (s3_server M) (storage M) (fst x)"
    using items media_key_storable [OF ready key] by (metis (no_types, lifting) image_eqI image_iff subsetD)
  from s3.put_all_grows [OF this media_key_storable [OF ready other] puts assms(5)] show ?thesis .
qed

lemma exec_sql_step:
  "exec_sql stmt w = (y, w') \<Longrightarrow>
     w_objects w' = w_objects w \<and> (w_db w' = w_db w \<and> (\<forall>v. y = Inr v \<longrightarrow> stmt (w_db w) = Inr (v, w_db w)) \<or>
       (\<exists>v. stmt (w_db w) = Inr (v, w_db w') \<and> (\<forall>u. y = Inr u \<longrightarrow> u = v)))"
  by (auto simp: exec_sql_def Let_def split: sum.splits prod.splits if_splits list.splits)

lemma stored_cong: "w_objects w = w_objects w' \<Longrightarrow> stored st w key = stored st w' key"
  by (simp add: stored_def)

lemma new_media_row:
  assumes "media_ready M" and "postgres_ok J P"
    and "media_statement P (new_uuid M n) actor width height corr d = Inr (x, d')"
  shows "\<exists>a c. uuid_in P actor = Some a \<and> uuid_in P corr = Some c \<and> new_uuid M n \<notin> m_id ` set (media d) \<and>
    a \<in> u_id ` set (users d) \<and>
    d' = d\<lparr>media := media d @ [\<lparr>m_id = new_uuid M n, m_creator = a, m_created = clock d, m_width = width, m_height = height\<rparr>],
       audit := audit d @ [\<lparr>l_actor = a, l_action = ''media.created'', l_entity = new_uuid M n, l_request = c,
         l_changes = JObj [], l_created = clock d\<rparr>]\<rparr>"
proof -
  have "uuid_in P (new_uuid M n) = Some (new_uuid M n)"
    using assms(1,2) by (simp add: media_ready_def postgres_ok_def)
  with media_statement_Inr [OF assms(3)] show ?thesis by auto
qed

subsection \<open>Properties of uploads\<close>

text \<open>
  C30. A known image is a stored image.  An upload, whether it returns or fails at any point (a
  resize, a transfer, a lost database reply), keeps this invariant of the database and the bucket
  together: every row of \<open>media_objects\<close> has all three of its objects.  It adds at most one
  row, with the size the decoder reported.
\<close>

theorem upload_keeps_backed:
  assumes "media_ready M" and "postgres_ok J P" and "backed M w"
    and "upload M P S bytes actor corr w = (r, w')"
  shows "backed M w' \<and> (w_db w' = w_db w \<or> (\<exists>row. media (w_db w') = media (w_db w) @ [row] \<and>
    m_id row = new_uuid M (w_random w) \<and> check_image M bytes = Inr (m_width row, m_height row)))"
proof -
  let ?key = "new_uuid M (w_random w)"
  have key: "uuid ?key" using assms(1) by (simp add: media_ready_def)
  have kept: "backed M w2 \<and> w_db w2 = w_db w"
    if "each_act (store_size M S bytes ?key) image_sizes (w\<lparr>w_random := Suc (w_random w)\<rparr>) = (x, w2)" for x w2
    using assms(3) stored_kept [OF assms(1) key _ that] store_sizes_frame [OF that]
    by (auto simp: backed_def stored_def)
  from assms(4) show ?thesis
  proof (cases rule: upload_cases)
    case rejected
    with assms(3) show ?thesis by simp
  next
    case failed
    with kept show ?thesis by blast
  next
    case (recorded width height w2 y)
    have fresh: "\<forall>box \<in> set image_sizes. stored (storage M) w2 (media_key ?key box) \<noteq> None"
      using sizes_stored [OF assms(1) key recorded(2)] by fastforce
    note before = kept [OF recorded(2)]
    from exec_sql_step [OF recorded(3)] have objs: "w_objects w' = w_objects w2" by simp
    from exec_sql_step [OF recorded(3)] consider "w_db w' = w_db w2"
      | v where "media_statement P ?key actor width height corr (w_db w2) = Inr (v, w_db w')" by blast
    then show ?thesis
    proof cases
      case 1
      with before objs show ?thesis by (simp add: backed_def stored_def)
    next
      case 2
      from new_media_row [OF assms(1,2) this] show ?thesis
        using before fresh key recorded(1) objs by (auto simp: backed_def stored_def)
    qed
  qed
qed

text \<open>
  C31. An upload that returns can be read back.  It has stored the three encoded sizes under the
  new identifier and then added one row and one audit record with the actor, the request and
  the size of the picture; the paths it answers are those that the catalog later lists for the
  image, and whatever \<open>image\<close> answers for one of them, as long as the bucket is left alone, is the
  encoded picture.
\<close>

theorem upload_readable:
  assumes "media_ready M" and "postgres_ok J P" and "upload M P S bytes actor corr w = (Inr v, w')"
  shows "\<exists>key width height a c. key = new_uuid M (w_random w) \<and> check_image M bytes = Inr (width, height) \<and>
    uuid_in P actor = Some a \<and> uuid_in P corr = Some c \<and>
    (\<forall>i. i_media i = key \<longrightarrow> v = image_json i) \<and>
    w_db w' = (w_db w)\<lparr>
      media := media (w_db w) @ [\<lparr>m_id = key, m_creator = a, m_created = clock (w_db w), m_width = width, m_height = height\<rparr>],
      audit := audit (w_db w) @ [\<lparr>l_actor = a, l_action = ''media.created'', l_entity = key, l_request = c,
        l_changes = JObj [], l_created = clock (w_db w)\<rparr>]\<rparr> \<and>
    (\<forall>box \<in> set image_sizes. \<exists>data. encoded M bytes box = Inr data \<and>
      (\<forall>w2 d w3. w_objects w2 = w_objects w' \<longrightarrow> image M S key box w2 = (Inr d, w3) \<longrightarrow> d = data))"
proof -
  let ?key = "new_uuid M (w_random w)"
  have key: "uuid ?key" using assms(1) by (simp add: media_ready_def)
  from assms(3) obtain width height w2 where
    checked: "check_image M bytes = Inr (width, height)"
    and sizes: "each_act (store_size M S bytes ?key) image_sizes (w\<lparr>w_random := Suc (w_random w)\<rparr>) = (Inr (), w2)"
    and row: "exec_sql (media_statement P ?key actor width height corr) w2 = (Inr (), w')"
    and v: "v = upload_result ?key"
    by (cases rule: upload_cases) (auto split: sum.splits)
  have db: "w_db w2 = w_db w" using store_sizes_frame [OF sizes] by simp
  from exec_sql_Inr [OF row] obtain d where d: "media_statement P ?key actor width height corr (w_db w) = Inr ((), d)"
    and w': "w' = w2\<lparr>w_fates := drop 1 (w_fates w2), w_db := d\<rparr>" by (auto simp: db)
  have read: "\<exists>data. encoded M bytes box = Inr data \<and>
      (\<forall>w2 d w3. w_objects w2 = w_objects w' \<longrightarrow> image M S ?key box w2 = (Inr d, w3) \<longrightarrow> d = data)"
    if "box \<in> set image_sizes" for box
  proof -
    from that sizes_stored [OF assms(1) key sizes] obtain data where data: "encoded M bytes box = Inr data"
      "stored (storage M) w2 (media_key ?key box) = Some data" by blast
    have "d = data" if "w_objects w3 = w_objects w'" "image M S ?key box w3 = (Inr d, w4)" for w3 d w4
      using storage_request_get [OF media_key_storable [OF assms(1) key]] that data(2)
      by (fastforce simp: image_def storage_get_def stored_def w')
    with data(1) show ?thesis by blast
  qed
  from new_media_row [OF assms(1,2) d] read checked show ?thesis
    by (intro exI [of _ ?key]) (auto simp: v upload_result_def image_json_def media_path_def w')
qed

text \<open>
  C36. Every way an upload can fail.  Files that are empty, larger than 8 MB, of another format,
  undecodable or too large in pixels are refused, by the first check that applies, and nothing
  has happened at all; later failures are an encoder's 422, the storage's 404 or 503, and the
  database's; only the last kind can have added a row.
\<close>

theorem upload_failures:
  assumes "upload M P S bytes actor corr w = (Inl e, w')"
  shows "if bytes = [] \<or> 8388608 < length bytes
    then e = Error 413 ''IMAGE_TOO_LARGE'' ''Images must be smaller than 8 MB'' \<and> w' = w
    else if \<not> is_jpeg bytes \<and> \<not> is_png bytes \<and> \<not> is_webp bytes
    then e = Error 415 ''INVALID_IMAGE'' ''Upload a JPEG, PNG or WebP image'' \<and> w' = w
    else if (case image_size M bytes of None \<Rightarrow> True | Some (width, height) \<Rightarrow>
        width < 1 \<or> height < 1 \<or> 40000000 < width * height)
    then (\<exists>m. e = Error 422 ''INVALID_IMAGE'' m) \<and> w' = w
    else w_db w' = w_db w \<and> ((\<exists>m. e = Error 422 ''INVALID_IMAGE'' m) \<or>
          e = Error 404 ''NOT_FOUND'' ''Image not found'' \<or>
          e = Error 503 ''STORAGE_UNAVAILABLE'' ''Media storage is unavailable'') \<or>
        (\<exists>m. e = DbError m)"
proof -
  have early: "check_image M bytes = (if bytes = [] \<or> 8388608 < length bytes
      then Inl (Error 413 ''IMAGE_TOO_LARGE'' ''Images must be smaller than 8 MB'')
      else if \<not> is_jpeg bytes \<and> \<not> is_png bytes \<and> \<not> is_webp bytes
      then Inl (Error 415 ''INVALID_IMAGE'' ''Upload a JPEG, PNG or WebP image'')
      else case image_size M bytes of None \<Rightarrow> Inl (invalid_image ''Image could not be decoded'')
      | Some (width, height) \<Rightarrow> if width < 1 \<or> height < 1 \<or> 40000000 < width * height
          then Inl (invalid_image ''Image dimensions exceed the limit'') else Inr (width, height))"
    by (auto simp: check_image_def throw_if_def split: option.splits)
  from assms show ?thesis
  proof (cases rule: upload_cases)
    case (rejected e')
    then show ?thesis unfolding early by (auto simp: invalid_image_def split: if_splits option.splits)
  next
    case (failed width height e')
    have "w_db w' = w_db w \<and> ((\<exists>m. e = invalid_image m) \<or> e = image_not_found \<or> e = storage_unavailable)"
      using store_sizes_frame [OF failed(3)] failed(2) by simp
    with failed(1) show ?thesis unfolding early
      by (auto simp: invalid_image_def image_not_found_def storage_unavailable_def split: if_splits option.splits)
  next
    case (recorded width height w2 y)
    from recorded(4) obtain e' where "y = Inl e'" "e = e'" by (cases y) auto
    with exec_sql_Inl recorded(3) have "\<exists>m. e = DbError m" by blast
    with recorded(1) show ?thesis unfolding early by (auto split: if_splits option.splits)
  qed
qed

subsection \<open>Who sees an image\<close>

lemma require_objects: "w_objects (snd (require J P S req permission w)) = w_objects w"
  using exec_sql_objects [of "principal_query P (hash_token S (get_cookie req ''bee_session''))" w]
  by (auto simp: require_def Let_def bind_act_simp split: sum.splits list.splits)

lemma published_Inr:
  assumes "postgres_ok J P" and "uuid key" and "published P key w = (Inr b, w')"
  shows "w_db w' = w_db w \<and> w_objects w' = w_objects w \<and>
    (b \<longrightarrow> (\<exists>i \<in> set (images (w_db w)). \<exists>p \<in> set (products (w_db w)).
      i_media i = lower key \<and> p_id p = i_product i \<and> p_status p = ''active''))"
proof -
  from assms(3) obtain rows where step: "exec_sql (published_statement P key) w = (Inr rows, w')" and b: "b = (rows \<noteq> [])"
    by (auto simp: published_def bind_act_Inr)
  from exec_sql_Inr [OF step] assms(1,2) show ?thesis
    by (auto simp: published_statement_def cast_eq_Inr postgres_ok_def b bind_res_eq_Inr take_Cons'
        filter_empty_conv split: if_splits) blast
qed

lemma image_name_size:
  "filename \<in> set image_names \<Longrightarrow> stoi filename \<in> set image_sizes \<and> filename = digits (stoi filename) @ ''.webp''"
  unfolding image_names_def image_sizes_def by (elim set_ConsD [THEN disjE]; simp; code_simp)

lemma require_if_Inr:
  assumes "require_if J P S req admin permission w = (Inr u, w')"
  shows "w_db w' = w_db w \<and> w_objects w' = w_objects w \<and> (\<not> admin \<or> (\<exists>p. require J P S req permission w = (Inr p, w')))"
proof (cases admin)
  case True
  with assms obtain p where p: "require J P S req permission w = (Inr p, w')"
    by (auto simp: require_if_def bind_act_Inr)
  with require_objects [of J P S req permission w] require_db [of J P S req permission w] show ?thesis by simp
qed (use assms in \<open>simp add: require_if_def\<close>)

text \<open>
  C29. Unpublished images are private.  An image request is answered only for a well-formed
  identifier and one of the three sizes, with the object stored under them; and only if an
  active product shows the image or the request carries a live session of an active user who
  may write media.  It changes no table.
\<close>

theorem image_access:
  assumes "jsoncpp_ok J" and "postgres_ok J P" and "media_ready M"
    and "media_route M J P S req key filename w = (Inr response, w')"
  shows "w_db w' = w_db w \<and> uuid key \<and>
    (\<exists>box \<in> set image_sizes. filename = digits box @ ''.webp'' \<and>
      (\<exists>data. stored (storage M) w (media_key key box) = Some data \<and>
        response = \<lparr>resp_status = 200, resp_content = Raw_Body ''image/webp'' data, resp_headers = [], resp_cookies = []\<rparr>)) \<and>
    ((\<exists>i \<in> set (images (w_db w)). \<exists>p \<in> set (products (w_db w)).
        i_media i = lower key \<and> p_id p = i_product i \<and> p_status p = ''active'') \<or>
     (\<exists>u \<in> set (users (w_db w)). \<exists>s \<in> set (session_rows (w_db w)). \<exists>role.
        live_session (w_db w) (hash_token S (get_cookie req ''bee_session'')) u s \<and>
        (u_id u, role) \<in> set (user_roles (w_db w)) \<and> (role, ''media.write'') \<in> set (role_permissions (w_db w))))"
proof -
  from assms(4) obtain public w1 u1 w2 data where
    named: "uuid key" "filename \<in> set image_names"
    and pub: "published P key w = (Inr public, w1)"
    and guard: "require_if J P S req (\<not> public) ''media.write'' w1 = (Inr u1, w2)"
    and get: "image M S key (stoi filename) w2 = (Inr data, w')"
    and response: "response = \<lparr>resp_status = 200, resp_content = Raw_Body ''image/webp'' data, resp_headers = [], resp_cookies = []\<rparr>"
    by (auto simp: media_route_def bind_act_Inr)
  note pub_facts = published_Inr [OF assms(2) named(1) pub]
  have guard_facts: "w_db w2 = w_db w1 \<and> w_objects w2 = w_objects w1 \<and> (public \<or> (\<exists>p. require J P S req ''media.write'' w1 = (Inr p, w2)))"
    using require_if_Inr [OF guard] by simp
  have read: "stored (storage M) w2 (media_key key (stoi filename)) = Some data \<and> w_db w' = w_db w2"
    using storage_request_get [OF media_key_storable [OF assms(3) named(1)] get [unfolded image_def storage_get_def]]
      storage_request_db [OF get [unfolded image_def storage_get_def]] by blast
  have access: "public \<or> (\<exists>u \<in> set (users (w_db w)). \<exists>s \<in> set (session_rows (w_db w)). \<exists>role.
        live_session (w_db w) (hash_token S (get_cookie req ''bee_session'')) u s \<and>
        (u_id u, role) \<in> set (user_roles (w_db w)) \<and> (role, ''media.write'') \<in> set (role_permissions (w_db w)))"
  proof (cases public)
    case False
    with guard_facts obtain p where p: "require J P S req ''media.write'' w1 = (Inr p, w2)" by blast
    from require_granted [OF assms(1,2) p] pub_facts show ?thesis unfolding permissions_of_set by auto
  qed simp
  have "stored (storage M) w (media_key key (stoi filename)) = Some data"
    using read guard_facts pub_facts by (simp add: stored_def)
  with image_name_size [OF named(2)] response have shown: "\<exists>box \<in> set image_sizes. filename = digits box @ ''.webp'' \<and>
      (\<exists>data. stored (storage M) w (media_key key box) = Some data \<and>
        response = \<lparr>resp_status = 200, resp_content = Raw_Body ''image/webp'' data, resp_headers = [], resp_cookies = []\<rparr>)"
    by blast
  have "w_db w' = w_db w" using read guard_facts pub_facts by simp
  with shown access pub_facts named(1) show ?thesis by blast
qed

subsection \<open>Examples\<close>

definition sample_media_id :: string where
  "sample_media_id = ''00000000-0000-4000-8000-0000000000e1''"

definition sample_media :: media_env where
  "sample_media = \<lparr>image_size = (\<lambda>_. Some (800, 600)), thumbnail = (\<lambda>b n. Some (digits n @ b)),
     webpsave = (\<lambda>img. Some (''WEBP'' @ img)), new_uuid = (\<lambda>_. sample_media_id),
     s3_server = sample_s3, storage = sample_storage\<rparr>"

definition sample_jpeg :: string where
  "sample_jpeg = [CHR 0xFF, CHR 0xD8, CHR 0xFF, CHR 0xE0]"

definition sample_image :: "nat \<Rightarrow> string" where
  "sample_image box = ''WEBP'' @ digits box @ sample_jpeg"

definition sample_uploaded :: world where
  "sample_uploaded = sample_world\<lparr>w_random := 1,
     w_objects := map (\<lambda>box. (object_url sample_storage (media_key sample_media_id box), sample_image box)) [1280, 640, 320],
     w_db := (w_db sample_world)\<lparr>
       media := [\<lparr>m_id = sample_media_id, m_creator = sample_admin, m_created = 1000, m_width = 800, m_height = 600\<rparr>],
       audit := [\<lparr>l_actor = sample_admin, l_action = ''media.created'', l_entity = sample_media_id,
         l_request = sample_product, l_changes = JObj [], l_created = 1000\<rparr>]\<rparr>\<rparr>"

lemma sample_media_uuids: "uuid sample_media_id" "lower sample_media_id = sample_media_id"
    "uuid sample_admin" "lower sample_admin = sample_admin" "uuid sample_product" "lower sample_product = sample_product"
  by code_simp+

lemma sample_media_casts:
  "uuid_in sample_postgres sample_media_id = Some sample_media_id"
  "uuid_in sample_postgres sample_product = Some sample_product"
  by (simp_all add: sample_postgres_def sample_media_uuids)

lemma sample_media_ready: "media_ready sample_media"
  by (simp add: media_ready_def sample_media_def sample_s3_ok sample_storage_def sample_media_uuids)

lemma sample_media_storable: "CHR 0x00 \<notin> set (object_url sample_storage (media_key sample_media_id box))"
  using media_key_storable [OF sample_media_ready sample_media_uuids(1), of box]
  by (simp add: storable_key_def sample_media_def)

lemma sample_upload:
  "upload sample_media sample_postgres sample_sodium sample_jpeg sample_admin sample_product sample_world =
     (Inr (upload_result sample_media_id), sample_uploaded)"
  by (simp add: upload_def check_image_def throw_if_def is_jpeg_def bind_act_def draw_def store_size_def encoded_def
      storage_put_def storage_request_def curl_perform_def sample_s3_def exec_sql_def media_statement_def insert_audit_def
      cast_def not_null_def Let_def sample_functions sample_media_casts sample_media_storable image_sizes_def sample_image_def
      sample_world_def sample_db_def empty_db_def sample_media_def sample_jpeg_def sample_uploaded_def)

theorem upload_keeps_backed_witness: "backed sample_media sample_uploaded"
  using upload_keeps_backed [OF sample_media_ready sample_postgres_ok _ sample_upload]
  by (simp add: backed_def sample_world_def sample_db_def empty_db_def)

theorem upload_readable_witness:
  "\<exists>w3. image sample_media sample_sodium sample_media_id 640 sample_uploaded = (Inr (sample_image 640), w3)"
proof -
  have keys: "(media_key sample_media_id a = media_key sample_media_id b) = (a = b)" for a b
    by (simp add: media_key_inject)
  have "digits 640 = ''640''" by code_simp
  then obtain d w3 where get: "image sample_media sample_sodium sample_media_id 640 sample_uploaded = (Inr d, w3)"
    by (simp add: image_def storage_get_def storage_request_def curl_perform_def sample_s3_def sample_media_storable keys
        write_chunk_def sample_image_def sample_jpeg_def sample_uploaded_def sample_world_def sample_media_def)
  have "d = sample_image 640"
    using upload_readable [OF sample_media_ready sample_postgres_ok sample_upload] get
    by (auto simp: sample_media_def encoded_def sample_image_def image_sizes_def)
  with get show ?thesis by blast
qed

theorem upload_failures_witness:
  "upload sample_media sample_postgres sample_sodium [] sample_admin sample_product sample_world =
     (Inl (Error 413 ''IMAGE_TOO_LARGE'' ''Images must be smaller than 8 MB''), sample_world)"
proof -
  obtain e w' where step: "upload sample_media sample_postgres sample_sodium [] sample_admin sample_product sample_world = (Inl e, w')"
    by (simp add: upload_def check_image_def bind_act_def)
  from upload_failures [OF step] step show ?thesis by simp
qed

definition sample_gallery :: world where
  "sample_gallery = sample_uploaded\<lparr>w_db := sample_db1\<lparr>
     media := [\<lparr>m_id = sample_media_id, m_creator = sample_admin, m_created = 1000, m_width = 800, m_height = 600\<rparr>],
     images := [\<lparr>i_product = sample_product, i_media = sample_media_id, i_position = 0\<rparr>]\<rparr>\<rparr>"

lemma sample_media_route:
  "media_route sample_media sample_jsoncpp sample_postgres sample_sodium sample_request sample_media_id ''640.webp'' sample_gallery =
     (Inr \<lparr>resp_status = 200, resp_content = Raw_Body ''image/webp'' (sample_image 640), resp_headers = [], resp_cookies = []\<rparr>,
      sample_gallery)"
proof -
  have names: "stoi ''640.webp'' = 640" "''640.webp'' \<in> set image_names" "digits 640 = ''640''" by code_simp+
  have keys: "(media_key sample_media_id a = media_key sample_media_id b) = (a = b)" for a b
    by (simp add: media_key_inject)
  show ?thesis
    by (simp add: media_route_def names sample_media_uuids bind_act_def published_def exec_sql_def published_statement_def
        sample_media_casts cast_def not_null_def Let_def require_if_def image_def storage_get_def storage_request_def
        curl_perform_def sample_s3_def sample_media_storable keys write_chunk_def sample_image_def sample_jpeg_def
        sample_gallery_def sample_db1_def sample_rows_def sample_uploaded_def sample_world_def sample_media_def)
qed

theorem image_access_witness:
  "\<exists>i \<in> set (images (w_db sample_gallery)). \<exists>p \<in> set (products (w_db sample_gallery)).
     i_media i = lower sample_media_id \<and> p_id p = i_product i \<and> p_status p = ''active''"
proof -
  have "session_rows (w_db sample_gallery) = []"
    by (simp add: sample_gallery_def sample_db1_def sample_rows_def sample_db_def empty_db_def)
  with image_access [OF sample_jsoncpp_ok sample_postgres_ok sample_media_ready sample_media_route]
  show ?thesis by (metis empty_iff list.set(1))
qed

end
