(* ===== verification/Admin_Guard.thy ===== *)
theory Admin_Guard
  imports Media_Integrity
begin

text \<open>
  The guard in front of every route that writes the catalog or the bucket: CatalogController.cpp
  and the upload route of Media.cpp, with \<open>requireOrigin\<close> and \<open>require\<close> of Auth.cpp.
\<close>

lemma require_errors:
  assumes "jsoncpp_ok J" and "postgres_ok J P" and "require J P S req permission w = (Inl e, w')"
  shows "e = auth_required \<or> e = Error 403 ''FORBIDDEN'' ''You do not have permission for this operation'' \<or>
    (\<exists>m. e = DbError m)"
proof (cases "length (get_cookie req ''bee_session'') = 64")
  case True
  obtain x w1 where q: "exec_sql (principal_query P (hash_token S (get_cookie req ''bee_session''))) w = (x, w1)" by fastforce
  show ?thesis
  proof (cases x)
    case (Inl d)
    with q True assms(3) have "e = d" by (simp add: require_def Let_def bind_act_simp)
    with exec_sql_Inl q Inl show ?thesis by blast
  next
    case (Inr rows)
    from require_eval [OF assms(1,2) q [unfolded Inr] True, of permission] assms(3) show ?thesis
      by (auto split: list.splits if_splits)
  qed
next
  case False
  with assms(3) show ?thesis by (simp add: require_def)
qed

text \<open>The user that the request's session belongs to may do this.\<close>

definition permitted :: "sodium \<Rightarrow> request \<Rightarrow> string \<Rightarrow> db \<Rightarrow> bool" where
  "permitted S req permission d \<longleftrightarrow> (\<exists>u \<in> set (users d). \<exists>s \<in> set (session_rows d). \<exists>role.
     live_session d (hash_token S (get_cookie req ''bee_session'')) u s \<and>
     (u_id u, role) \<in> set (user_roles d) \<and> (role, permission) \<in> set (role_permissions d))"

lemma require_permitted:
  assumes "jsoncpp_ok J" and "postgres_ok J P" and "permission \<noteq> []" and "require J P S req permission w = (Inr p, w')"
  shows "permitted S req permission (w_db w)"
  using require_granted [OF assms(1,2,4)] assms(3) unfolding permitted_def permissions_of_set by blast

lemma guarded_outcomes:
  assumes "jsoncpp_ok J" and "postgres_ok J P" and "permission \<noteq> []"
    and "guarded J P S A req permission work w = (r, w')"
  shows "if get_header req ''origin'' \<noteq> auth_origin A
    then r = Inl (Error 403 ''ORIGIN_REJECTED'' ''Request origin is not allowed'') \<and> w' = w
    else permitted S req permission (w_db w) \<or>
      w_db w' = w_db w \<and> w_objects w' = w_objects w \<and> (\<exists>e. r = Inl e \<and> (e = auth_required \<or>
        e = Error 403 ''FORBIDDEN'' ''You do not have permission for this operation'' \<or> (\<exists>m. e = DbError m)))"
proof (cases "get_header req ''origin'' = auth_origin A")
  case True
  obtain x w1 where q: "require J P S req permission w = (x, w1)" by fastforce
  show ?thesis
  proof (cases x)
    case (Inl e)
    with True q assms(4) have "r = Inl e" "w' = w1" by (simp_all add: guarded_def require_origin_def bind_act_simp)
    with True Inl q require_errors [OF assms(1,2), of S req permission w e w1]
      require_db [of J P S req permission w] require_objects [of J P S req permission w] show ?thesis by simp
  next
    case (Inr p)
    with True q require_permitted [OF assms(1-3)] show ?thesis by auto
  qed
next
  case False
  with assms(4) show ?thesis by (simp add: guarded_def require_origin_def bind_act_simp)
qed

text \<open>
  C28. No write without permission.  On each route that writes the catalog or uploads an image, a
  request from another origin is answered 403 and has no effect at all; otherwise, unless its
  session is live, its user active and one of the user's roles has the permission of the route,
  it is answered 401, 403 or a database error, and no table and no object changes, whatever
  the body.
\<close>

theorem writes_guarded:
  assumes "jsoncpp_ok J" and "postgres_ok J P"
    and "(route, permission) \<in> {(create_route J P S A uid req, ''products.write''),
      (update_route J P S A uid req key, ''products.write''),
      (reference_route J P S A kind uid req, ''products.write''),
      (upload_route M J P S A uid req, ''media.write'')}"
    and "route w = (r, w')"
  shows "if get_header req ''origin'' \<noteq> auth_origin A
    then r = Inl (Error 403 ''ORIGIN_REJECTED'' ''Request origin is not allowed'') \<and> w' = w
    else permitted S req permission (w_db w) \<or>
      w_db w' = w_db w \<and> w_objects w' = w_objects w \<and> (\<exists>e. r = Inl e \<and> (e = auth_required \<or>
        e = Error 403 ''FORBIDDEN'' ''You do not have permission for this operation'' \<or> (\<exists>m. e = DbError m)))"
proof -
  from assms(3) obtain work where "route = guarded J P S A req permission work" and "permission \<noteq> []"
    by (auto simp: create_route_def update_route_def reference_route_def upload_route_def)
  with guarded_outcomes [OF assms(1,2)] assms(4) show ?thesis by blast
qed

theorem writes_guarded_witness:
  "create_route sample_jsoncpp sample_postgres sample_sodium sample_auth ''r'' sample_request sample_world =
     (Inl (Error 403 ''ORIGIN_REJECTED'' ''Request origin is not allowed''), sample_world)"
proof -
  let ?route = "create_route sample_jsoncpp sample_postgres sample_sodium sample_auth ''r'' sample_request"
  obtain r w' where step: "?route sample_world = (r, w')" by fastforce
  have "get_header sample_request ''origin'' \<noteq> auth_origin sample_auth"
    by (simp add: sample_request_def sample_auth_def)
  with writes_guarded [where route = ?route and permission = "''products.write''" and uid = "''r''"
      and S = sample_sodium and A = sample_auth and req = sample_request, OF sample_jsoncpp_ok sample_postgres_ok _ step]
  show ?thesis by (simp add: step)
qed

end
