(* ===== verification/Health.thy ===== *)
theory Health
  imports Http
begin

text \<open>
  modules/health: the two health routes.  The checks are asynchronous: each is given the callback
  to continue with, which the client library calls once with the reply.  What has happened so
  far is a list of effects.
\<close>

datatype effect = Sql string string | Redis_Command string | Reply response

text \<open>What the clients answer: the applied migrations, a Redis string, or an exception.\<close>

datatype pg_reply = Pg_Versions "string list" | Pg_Exception
datatype redis_reply = Redis_String string | Redis_Exception

type_synonym callback = "bool \<Rightarrow> effect list \<Rightarrow> effect list"

definition check_postgres :: "pg_reply \<Rightarrow> callback \<Rightarrow> effect list \<Rightarrow> effect list" where
  "check_postgres pg complete effects =
    (let version = ''0003_catalog_write.sql'';
         effects' = effects @ [Sql ''SELECT version FROM schema_migrations WHERE version = $1'' version] in
     case pg of
       Pg_Versions applied \<Rightarrow> complete (length (filter (\<lambda>v. v = version) applied) = 1) effects'
     | Pg_Exception \<Rightarrow> complete False effects')"

definition check_redis :: "redis_reply \<Rightarrow> callback \<Rightarrow> effect list \<Rightarrow> effect list" where
  "check_redis redis complete effects =
    (case redis of
       Redis_String s \<Rightarrow> complete (s = ''PONG'') (effects @ [Redis_Command ''PING''])
     | Redis_Exception \<Rightarrow> complete False (effects @ [Redis_Command ''PING'']))"

definition service_ready :: "pg_reply \<Rightarrow> redis_reply \<Rightarrow> callback \<Rightarrow> effect list \<Rightarrow> effect list" where
  "service_ready pg redis complete =
    check_postgres pg (\<lambda>postgres. if \<not> postgres then complete False else check_redis redis complete)"

definition ready_body :: json where
  "ready_body = JObj [(''status'', JStr ''ready''), (''checks'', JObj [(''postgres'', JStr ''up''), (''redis'', JStr ''up'')])]"

definition ready_route :: "pg_reply \<Rightarrow> redis_reply \<Rightarrow> string \<Rightarrow> request \<Rightarrow> effect list" where
  "ready_route pg redis uid req =
    service_ready pg redis (\<lambda>ready effects.
      if \<not> ready then effects @ [Reply (api_error uid req 503 ''DEPENDENCY_UNAVAILABLE'' ''Service is not ready'')]
      else effects @ [Reply (json_response ready_body)]) []"

definition live_route :: response where
  "live_route = json_response (JObj [(''status'', JStr ''ok''), (''service'', JStr ''bee-api''), (''version'', JStr ''0.1.0'')])"

text \<open>
  The readiness probe replies exactly once, as its last effect: 200 if and only if the newest
  migration is recorded (once) and Redis answers \<open>PONG\<close>, otherwise 503 with the identifier of the
  request; Redis is asked only after PostgreSQL has answered well.
\<close>

lemma ready_replies_once:
  assumes "migrated \<longleftrightarrow> (\<exists>applied. pg = Pg_Versions applied \<and> length (filter (\<lambda>v. v = ''0003_catalog_write.sql'') applied) = 1)"
  shows "\<exists>query response. ready_route pg redis uid req =
      [query] @ (if migrated then [Redis_Command ''PING''] else []) @ [Reply response] \<and> (\<forall>r. query \<noteq> Reply r) \<and>
    (if migrated \<and> redis = Redis_String ''PONG'' then resp_status response = 200 \<and> resp_content response = Json_Body ready_body
     else resp_status response = 503 \<and> resp_content response =
       Json_Body (error_body ''DEPENDENCY_UNAVAILABLE'' ''Service is not ready'' (fst (request_id uid req))))"
  using assms
  by (cases pg; cases redis)
    (auto simp: ready_route_def service_ready_def check_postgres_def check_redis_def Let_def api_error_def json_response_def
      split: prod.splits)

lemma ready_replies_once_witness:
  "\<exists>query response. ready_route (Pg_Versions [''0003_catalog_write.sql'']) (Redis_String ''PONG'') ''u'' sample_request =
     [query, Redis_Command ''PING'', Reply response] \<and> resp_status response = 200"
  using ready_replies_once [where pg = "Pg_Versions [''0003_catalog_write.sql'']" and redis = "Redis_String ''PONG''"
      and migrated = True and uid = "''u''" and req = sample_request] by auto

end
