(* ===== verification/Requests.thy ===== *)
theory Requests
  imports Contract_Documents Admin_Guard Health
begin

text \<open>
  The API as a whole: the table of its routes that answer with JSON, and the statements that the
  requests send to the database.  Requests run on several threads at once; what interleaves are
  their statements, each of which is a transaction of its own.  \<open>interleaved\<close> is any sequence of
  them, whichever requests they belong to, and time in between.
\<close>

definition api :: "media_env \<Rightarrow> jsoncpp \<Rightarrow> postgres \<Rightarrow> sodium \<Rightarrow> auth_service \<Rightarrow> string \<Rightarrow> request \<Rightarrow> string \<Rightarrow> string \<Rightarrow>
    (schema \<times> (world, response) act) list" where
  "api M J P S A uid req key kind =
    [(product_page_schema, products_route J P S False req), (product_page_schema, products_route J P S True req),
     (product_schema, product_route J P S False req key), (product_schema, product_route J P S True req key),
     (metadata_schema, metadata_route J P req),
     (product_schema, create_route J P S A uid req), (product_schema, update_route J P S A uid req key),
     (created_schema, reference_route J P S A kind uid req),
     (image_schema, upload_route M J P S A uid req),
     (login_reply_schema, login_route J P S A req), (session_schema, session_route J P S req)]"

text \<open>
  What the routes rely on: the libraries as documented, UUIDs where UUIDs are generated, and a
  request body that is a value the JSON parser can return.
\<close>

definition relied_on :: "media_env \<Rightarrow> jsoncpp \<Rightarrow> postgres \<Rightarrow> request \<Rightarrow> bool" where
  "relied_on M J P req \<longleftrightarrow> jsoncpp_ok J \<and> postgres_ok J P \<and> uuids_ok P \<and> (\<forall>n. canonical (new_uuid M n)) \<and>
     (\<forall>v. json_object req = Some v \<longrightarrow> wf_json v)"

subsection \<open>Statements\<close>

text \<open>
  The statements that change the database, with what the code has checked before it sends them.
  One that is refused changes nothing, one whose reply is lost has been executed.
\<close>

inductive statement_step :: "jsoncpp \<Rightarrow> postgres \<Rightarrow> db \<Rightarrow> db \<Rightarrow> bool" for J P where
  saves: "valid_draft J draft \<Longrightarrow> wf_json draft \<Longrightarrow> save_statement J P draft actor corr key revision d = Inr (t, d') \<Longrightarrow>
    statement_step J P d d'"
| adds: "check_reference J kind v = Inr () \<Longrightarrow> reference_statement J P kind v actor corr d = Inr (k, d') \<Longrightarrow> statement_step J P d d'"
| uploads: "uuid key \<Longrightarrow> media_statement P key actor width height corr d = Inr (u, d') \<Longrightarrow> statement_step J P d d'"
| attempts: "attempt_statement hash d = Inr (n, d') \<Longrightarrow> statement_step J P d d'"
| signs_in: "create_session_statement P hash user d = Inr (u, d') \<Longrightarrow> statement_step J P d d'"
| signs_out: "revoke_statement hash d = Inr (u, d') \<Longrightarrow> statement_step J P d d'"
| elapses: "statement_step J P d (d\<lparr>clock := t\<rparr>)"

definition interleaved :: "jsoncpp \<Rightarrow> postgres \<Rightarrow> db \<Rightarrow> db \<Rightarrow> bool" where
  "interleaved J P = (statement_step J P)\<^sup>*\<^sup>*"

definition reached :: "jsoncpp \<Rightarrow> postgres \<Rightarrow> db \<Rightarrow> world \<Rightarrow> bool" where
  "reached J P d w \<longleftrightarrow> interleaved J P d (w_db w)"

lemma interleaved_refl [simp]: "interleaved J P d d"
  by (simp add: interleaved_def)

lemma interleaved_step: "interleaved J P d d1 \<Longrightarrow> statement_step J P d1 d2 \<Longrightarrow> interleaved J P d d2"
  unfolding interleaved_def by (rule rtranclp.rtrancl_into_rtrancl)

subsection \<open>Every route is a sequence of statements\<close>

lemma reached_same: "(\<And>w. w_db (snd (m w)) = w_db w) \<Longrightarrow> keeps (reached J P d) m"
  by (simp add: keeps_def reached_def)

lemma reached_exec: "(\<And>d1 x d2. stmt d1 = Inr (x, d2) \<Longrightarrow> statement_step J P d1 d2) \<Longrightarrow> keeps (reached J P d) (exec_sql stmt)"
  unfolding reached_def by (rule exec_sql_keeps) (blast intro: interleaved_step)

lemma reached_read: "(\<And>d1 x d2. stmt d1 = Inr (x, d2) \<Longrightarrow> d2 = d1) \<Longrightarrow> keeps (reached J P d) (exec_sql stmt)"
  unfolding reached_def by (rule exec_sql_keeps) blast

lemma moves_require: "keeps (reached J P d) (require J P S req permission)"
  by (rule reached_same) (rule require_db)

lemma moves_require_if: "keeps (reached J P d) (require_if J P S req admin permission)"
  by (auto simp: require_if_def intro: moves_require)

lemma moves_list: "keeps (reached J P d) (service_list J P f admin)"
proof -
  have "keeps (reached J P d) (exec_sql (list_statement P f admin))"
    by (rule reached_read) (auto dest: list_statement_Inr)
  then show ?thesis unfolding service_list_def repository_list_def by (auto intro!: keeps_bind_act)
qed

lemma moves_find: "keeps (reached J P d) (service_find J P key admin)"
proof -
  have "keeps (reached J P d) (exec_sql (find_statement P key admin))"
    by (rule reached_read) (auto simp: find_statement_def bind_res_eq_Inr split: if_splits)
  then show ?thesis
    unfolding service_find_def repository_find_def by (auto intro!: keeps_bind_act split: list.splits)
qed

lemma moves_metadata: "keeps (reached J P d) (repository_metadata J P loc)"
proof -
  have "keeps (reached J P d) (exec_sql (metadata_statement P loc))" by (rule reached_read) (simp add: metadata_statement_def)
  then show ?thesis unfolding repository_metadata_def by auto
qed

lemma moves_save:
  assumes "jsoncpp_ok J" and "wf_json draft"
  shows "keeps (reached J P d) (service_save J P draft actor corr key revision)"
proof (cases "validate_draft J draft")
  case (Inr u)
  then have "valid_draft J draft" using validate_draft_Inr [OF assms(1)] by simp
  with assms(2) have "keeps (reached J P d) (exec_sql (save_statement J P draft actor corr key revision))"
    by (intro reached_exec) (rule statement_step.saves)
  with Inr show ?thesis unfolding service_save_def repository_save_def by (auto intro!: keeps_bind_act)
qed (simp add: service_save_def)

lemma moves_add_reference: "keeps (reached J P d) (service_add_reference J P kind value actor corr)"
proof (cases "check_reference J kind value")
  case (Inr u)
  then have "keeps (reached J P d) (exec_sql (reference_statement J P kind value actor corr))"
    by (intro reached_exec) (rule statement_step.adds, simp_all)
  then have "keeps (reached J P d) (repository_add_reference J P kind value actor corr)"
    by (auto simp: keeps_def repository_add_reference_def split: prod.splits sum.splits exn.splits)
  then show ?thesis unfolding service_add_reference_def by auto
qed (simp add: service_add_reference_def)

lemma moves_store_sizes: "keeps (reached J P d) (each_act (store_size M S bytes k) image_sizes)"
  using store_sizes_frame by (intro reached_same) (metis prod.collapse)

lemma moves_upload:
  assumes "\<forall>n. canonical (new_uuid M n)"
  shows "keeps (reached J P d) (upload M P S bytes actor corr)"
proof (rule keepsI)
  fix w assume w: "reached J P d w"
  let ?key = "new_uuid M (w_random w)"
  have drawn: "reached J P d (w\<lparr>w_random := Suc (w_random w)\<rparr>)" using w by (simp add: reached_def)
  have "keeps (reached J P d) (exec_sql (media_statement P ?key actor width height corr))" for width height
    using assms by (intro reached_exec) (rule statement_step.uploads, simp_all)
  then have rest: "keeps (reached J P d) (bind_act (each_act (store_size M S bytes ?key) image_sizes) (\<lambda>_.
      bind_act (exec_sql (media_statement P ?key actor width height corr)) (\<lambda>_. ret (upload_result ?key))))" for width height
    by (intro keeps_bind_act moves_store_sizes keeps_ret)
  show "reached J P d (snd (upload M P S bytes actor corr w))"
  proof (cases "check_image M bytes")
    case (Inr size)
    then obtain width height where "check_image M bytes = Inr (width, height)" by (cases size) auto
    with keepsD [OF rest [of width height] drawn] show ?thesis by (simp add: upload_def bind_act_def draw_def)
  qed (use w in \<open>simp add: upload_def\<close>)
qed

lemma moves_guarded: "(\<And>p. keeps (reached J P d) (work p)) \<Longrightarrow> keeps (reached J P d) (guarded J P S A req permission work)"
  unfolding guarded_def by (intro keeps_bind_act keeps_lift_res moves_require)

lemma body_wf: "relied_on M J P req \<Longrightarrow> json_body req = Inr v \<Longrightarrow> wf_json v"
  by (auto simp: relied_on_def json_body_def split: if_splits)

lemma moves_writes:
  assumes R: "relied_on M J P req"
  shows "keeps (reached J P d) (create_route J P S A uid req)" "keeps (reached J P d) (update_route J P S A uid req key)"
    "keeps (reached J P d) (reference_route J P S A kind uid req)" "keeps (reached J P d) (upload_route M J P S A uid req)"
proof -
  from R have ok: "jsoncpp_ok J" "\<forall>n. canonical (new_uuid M n)" by (simp_all add: relied_on_def)
  note save = moves_save [OF ok(1) body_wf [OF R]]
  show "keeps (reached J P d) (create_route J P S A uid req)"
    unfolding create_route_def by (intro moves_guarded keeps_lift_bind keeps_bind_act save keeps_ret)
  show "keeps (reached J P d) (update_route J P S A uid req key)"
    unfolding update_route_def by (intro moves_guarded keeps_lift_bind keeps_bind_act [OF save] keeps_ret)
  show "keeps (reached J P d) (reference_route J P S A kind uid req)"
    unfolding reference_route_def by (intro moves_guarded keeps_lift_bind keeps_bind_act moves_add_reference keeps_ret)
  show "keeps (reached J P d) (upload_route M J P S A uid req)"
    unfolding upload_route_def by (intro moves_guarded keeps_bind_act moves_upload [OF ok(2)] keeps_ret)
qed

lemma moves_consume: "keeps (reached J P d) (consume S key)"
  unfolding consume_def by (intro keeps_bind_act keeps_lift_res reached_exec) (rule statement_step.attempts)

lemma moves_login: "keeps (reached J P d) (login P S A email password address)"
proof -
  have "keeps (reached J P d) (exec_sql (credentials_query e))" for e by (rule reached_read) (simp add: credentials_query_def)
  moreover have "keeps (reached J P d) (exec_sql (create_session_statement P h u))" for h u
    by (rule reached_exec) (rule statement_step.signs_in)
  moreover have "keeps (reached J P d) (draw g)" for g :: "nat \<Rightarrow> string" by (simp add: keeps_def draw_def reached_def)
  ultimately show ?thesis
    unfolding login_def Let_def by (intro keeps_bind_act keeps_lift_res moves_consume keeps_ret)
qed

lemma moves_sessions:
  "keeps (reached J P d) (login_route J P S A req)" "keeps (reached J P d) (session_route J P S req)" "keeps (reached J P d) (logout_route S A req)"
proof -
  show "keeps (reached J P d) (login_route J P S A req)"
    unfolding login_route_def Let_def case_prod_unfold
    by (intro keeps_bind_act keeps_lift_res moves_login keeps_ret)
  show "keeps (reached J P d) (session_route J P S req)"
    unfolding session_route_def by (intro keeps_bind_act moves_require keeps_ret)
  have "keeps (reached J P d) (exec_sql (revoke_statement h))" for h
    by (rule reached_exec) (rule statement_step.signs_out)
  then show "keeps (reached J P d) (logout_route S A req)"
    unfolding logout_route_def logout_def by (intro keeps_bind_act keeps_lift_res keeps_ret)
qed

lemma moves_reads:
  "keeps (reached J P d) (products_route J P S admin req)" "keeps (reached J P d) (product_route J P S admin req key)" "keeps (reached J P d) (metadata_route J P req)"
  unfolding products_route_def product_route_def metadata_route_def
  by (intro keeps_bind_act keeps_lift_res moves_require_if moves_list moves_find moves_metadata keeps_ret)+

lemma api_moves:
  assumes "relied_on M J P req" and "(s, route) \<in> set (api M J P S A uid req key kind)"
  shows "keeps (reached J P d) route"
  using assms(2) moves_writes [OF assms(1)] moves_sessions moves_reads by (auto simp: api_def)

lemma moves_media: "keeps (reached J P d) (media_route M J P S req key filename)"
proof -
  have "keeps (reached J P d) (exec_sql (published_statement P key))"
    by (rule reached_read) (auto simp: published_statement_def bind_res_eq_Inr)
  moreover have "keeps (reached J P d) (image M S key size)" for size
    by (rule reached_same)
      (simp add: image_def storage_get_def storage_request_db [OF prod.collapse [symmetric]])
  ultimately show ?thesis
    unfolding media_route_def published_def by (intro keeps_bind_act keeps_lift_res moves_require_if keeps_ret)
qed


subsection \<open>Every statement keeps the documented state\<close>

lemma save_statement_documented:
  assumes J: "jsoncpp_ok J" and P: "postgres_ok J P" and "uuids_ok P" and "valid_draft J draft" "wf_json draft"
    and "documented d" and "save_statement J P draft actor corr key revision d = Inr (x, d')"
  shows "documented d'"
proof -
  from assms(7) obtain doc a c target r where s: "jsonb_in P (encode J draft) = Some doc"
      "catalog_save P doc a c target revision d = Inr (r, d')"
    by (auto simp: save_statement_def bind_res_eq_Inr split: option.splits)
  have doc: "doc = draft" "storable draft" using s(1) jsonb_in_print [OF P assms(5)] by (auto simp: encode_def split: if_splits)
  from catalog_save_Inr [OF s(2) [unfolded doc(1)]] committed_documented [OF _ assms(4,5) doc(2) assms(3,6)] assms(6)
  show ?thesis by blast
qed

lemma signed_out_part: "revoke_statement hash d = Inr (x, d') \<Longrightarrow> catalog_part d' = catalog_part d"
  by (auto simp: revoke_statement_def catalog_part_def)

lemma step_documented:
  assumes "statement_step J P d d'" and "jsoncpp_ok J" and "postgres_ok J P" and "uuids_ok P" and "documented d"
  shows "documented d'"
  using assms(1)
proof cases
  case saves
  then show ?thesis using save_statement_documented assms(2-5) by blast
next
  case adds
  then show ?thesis using reference_statement_documented assms(4,5) by blast
next
  case uploads
  then show ?thesis using media_statement_documented assms(3,5) by blast
next
  case attempts
  then have "catalog_part d' = catalog_part d"
    by (auto simp: attempt_statement_def Let_def catalog_part_def split: option.splits if_splits)
  then show ?thesis using documented_frame assms(5) by blast
next
  case signs_in
  then have "catalog_part d' = catalog_part d"
    by (auto simp: create_session_statement_def bind_res_eq_Inr catalog_part_def)
  then show ?thesis using documented_frame assms(5) by blast
next
  case signs_out
  then have "catalog_part d' = catalog_part d" by (rule signed_out_part)
  then show ?thesis using documented_frame assms(5) by blast
next
  case elapses
  then have "catalog_part d' = catalog_part d" by (simp add: catalog_part_def)
  then show ?thesis using documented_frame assms(5) by blast
qed

lemma interleaved_documented:
  assumes "interleaved J P d d'" and "jsoncpp_ok J" and "postgres_ok J P" and "uuids_ok P" and "documented d"
  shows "documented d'"
  using assms(1) unfolding interleaved_def
  by (induction rule: rtranclp_induct) (use assms(2-5) in \<open>auto intro: step_documented\<close>)

definition docs :: "world \<Rightarrow> bool" where
  "docs w \<longleftrightarrow> documented (w_db w)"

lemma docs_moves:
  assumes "jsoncpp_ok J" and "postgres_ok J P" and "uuids_ok P" and "\<And>d. keeps (reached J P d) m"
  shows "keeps docs m"
proof (rule keepsI)
  fix w assume "docs w"
  moreover have "reached J P (w_db w) w" by (simp add: reached_def)
  from keepsD [OF assms(4) this] have "interleaved J P (w_db w) (w_db (snd (m w)))" by (simp add: reached_def)
  ultimately show "docs (snd (m w))" using interleaved_documented [OF _ assms(1-3)] by (simp add: docs_def)
qed

lemma docs_read_only: "(\<And>w. w_db (snd (m w)) = w_db w) \<Longrightarrow> keeps docs m"
  by (simp add: keeps_def docs_def)

lemma docs_require: "keeps docs (require J P S req permission)"
  by (rule docs_read_only) (rule require_db)

lemma api_docs:
  assumes "relied_on M J P req" and "(s, route) \<in> set (api M J P S A uid req key kind)"
  shows "keeps docs route"
  using assms(1) api_moves [OF assms] by (intro docs_moves [of J P]) (simp_all add: relied_on_def)

lemma docs_logout: "keeps docs (logout_route S A req)"
proof -
  have "keeps docs (exec_sql (revoke_statement h))" for h
    unfolding docs_def by (intro exec_sql_keeps) (blast intro: documented_frame signed_out_part)
  then show ?thesis unfolding logout_route_def logout_def by (intro keeps_bind_act keeps_lift_res keeps_ret)
qed

lemma docs_media: "keeps docs (media_route M J P S req key filename)"
proof -
  have "keeps docs (exec_sql (published_statement P key))"
    unfolding docs_def by (rule exec_sql_keeps) (auto simp: published_statement_def bind_res_eq_Inr)
  moreover have "keeps docs (image M S key size)" for size
    by (rule docs_read_only) (simp add: image_def storage_get_def storage_request_db [OF prod.collapse [symmetric]])
  moreover have "keeps docs (require_if J P S req admin permission)" for admin permission
    by (auto simp: require_if_def intro: docs_require)
  ultimately show ?thesis
    unfolding media_route_def published_def by (intro keeps_bind_act keeps_lift_res keeps_ret)
qed

subsection \<open>Property\<close>

text \<open>
  C10. The state stays documented while requests interleave.  Whatever statements of other requests
  have been executed before a request's own, in any order, from a documented database the
  database is documented when the request runs, after each of its statements, and at its end;
  what the request has done to it is again a sequence of the program's statements, whether it
  succeeds or fails.
\<close>

theorem interleaved_requests_keep_documented:
  assumes "relied_on M J P req" and "(s, route) \<in> set (api M J P S A uid req key kind)"
    and "documented d" and "interleaved J P d (w_db w)"
  shows "(\<forall>d'. interleaved J P d d' \<longrightarrow> documented d') \<and> interleaved J P (w_db w) (w_db (snd (route w))) \<and>
    interleaved J P d (w_db (snd (route w))) \<and> documented (w_db (snd (route w)))"
proof -
  from assms(1) have ok: "jsoncpp_ok J" "postgres_ok J P" "uuids_ok P" by (simp_all add: relied_on_def)
  have start: "reached J P (w_db w) w" "reached J P d w" using assms(4) by (simp_all add: reached_def)
  note moved = keepsD [OF api_moves [OF assms(1,2)] start(1)] keepsD [OF api_moves [OF assms(1,2)] start(2)]
  then show ?thesis using interleaved_documented [OF _ ok assms(3)] by (auto simp: reached_def)
qed

subsection \<open>Examples\<close>

lemma sample_relied_on: "relied_on sample_media sample_jsoncpp sample_postgres sample_request"
  using sample_jsoncpp_ok sample_postgres_ok sample_uuids_ok sample_media_uuids
  by (simp add: relied_on_def sample_request_def sample_media_def canonical_def)

text \<open>Another request has signed out, and time has passed, before an update runs.\<close>

definition later_world :: world where
  "later_world = sample_catalog_world\<lparr>w_db := sample_db1\<lparr>session_rows := [], clock := 5000\<rparr>\<rparr>"

lemma later_interleaved: "interleaved sample_jsoncpp sample_postgres sample_db1 (w_db later_world)"
proof -
  have "session_rows sample_db1 = []" by (simp add: sample_db1_def sample_rows_def sample_db_def empty_db_def)
  then have "revoke_statement ''h'' sample_db1 = Inr ((), sample_db1\<lparr>session_rows := []\<rparr>)" by (simp add: revoke_statement_def)
  from interleaved_step [OF interleaved_step [OF interleaved_refl statement_step.signs_out [OF this]] statement_step.elapses]
  show ?thesis by (simp add: later_world_def)
qed

theorem interleaved_requests_keep_documented_witness:
  "documented (w_db (snd (update_route sample_jsoncpp sample_postgres sample_sodium sample_auth sample_admin sample_request
     sample_product later_world)))"
proof -
  have "(product_schema, update_route sample_jsoncpp sample_postgres sample_sodium sample_auth sample_admin sample_request sample_product)
      \<in> set (api sample_media sample_jsoncpp sample_postgres sample_sodium sample_auth sample_admin sample_request sample_product [])"
    by (simp add: api_def)
  from interleaved_requests_keep_documented [OF sample_relied_on this sample_db1_documented later_interleaved] show ?thesis by simp
qed

end
