(* ===== verification/Api.thy ===== *)
theory Api
  imports Requests
begin

text \<open>
  What the API answers: every reply conforms to its schema, in every history of requests.
\<close>

subsection \<open>Every reply conforms\<close>

text \<open>What the routes return, in a documented state whose rows can be counted.\<close>

definition countable_docs :: "world \<Rightarrow> bool" where
  "countable_docs w \<longleftrightarrow> docs w \<and> countable_rows (w_db w)"

lemma countable_same: "(\<And>w. w_db (snd (m w)) = w_db w) \<Longrightarrow> returns countable_docs (\<lambda>_. True) m"
  by (rule returns_keeps) (simp add: keeps_def countable_docs_def docs_def)

lemma exec_read_Inr:
  assumes "exec_sql stmt w = (Inr x, w')" and "\<And>d x d'. stmt d = Inr (x, d') \<Longrightarrow> d' = d"
  shows "stmt (w_db w) = Inr (x, w_db w) \<and> w_db w' = w_db w"
  using exec_sql_Inr [OF assms(1)] assms(2) by auto

lemma list_value:
  assumes J: "jsoncpp_ok J" and P: "postgres_ok J P" and f: "parse_filter req = Inr f"
    and ok: "catalog_ok (w_db w)" and n: "countable_rows (w_db w)"
    and run: "service_list J P f admin w = (Inr v, w')"
  shows "w_db w' = w_db w \<and> (\<exists>category brand. v = list_body ((if admin then stored_item else shown_item) P (w_db w))
     P (w_db w) f category brand admin)"
proof -
  let ?d = "w_db w"
  from run obtain t u result where step: "exec_sql (list_statement P f admin) w = (Inr t, u)" "decode J t = Inr result"
      "if admin then v = result \<and> w' = u else w' = u \<and>
        bind_res (get_at J result ''items'') (\<lambda>items. bind_res (map_res (public_document J) (elements items))
          (\<lambda>docs. set_at J result ''items'' (JArr docs))) = Inr v"
    by (auto simp: service_list_def repository_list_def bind_act_Inr split: if_splits)
  from exec_read_Inr [OF step(1)] list_statement_Inr have stmt: "list_statement P f admin ?d = Inr (t, ?d)" "w_db u = ?d"
    by blast+
  from list_statement_Inr [OF stmt(1)] obtain category brand where
    t: "t = jsonb_out P (list_body (stored_item P ?d) P ?d f category brand admin)"
    unfolding list_body_def stored_item_def by blast
  from step(2) have "result = list_body (stored_item P ?d) P ?d f category brand admin"
    unfolding t list_read_back [OF P ok n f] by simp
  with step(3) stmt(2) items_shown [OF J ok] show ?thesis by (cases admin) auto
qed

lemma list_returns:
  assumes J: "jsoncpp_ok J" and P: "postgres_ok J P" and f: "parse_filter req = Inr f"
  shows "returns countable_docs (conforms product_page_schema) (service_list J P f admin)"
proof (rule returnsI)
  fix w v w' assume w: "countable_docs w" and run: "service_list J P f admin w = (Inr v, w')"
  let ?d = "w_db w"
  from w have doc: "documented ?d" and n: "countable_rows ?d" by (simp_all add: countable_docs_def docs_def)
  note ok = documented_ok [OF doc]
  from list_value [OF J P f ok n run] obtain category brand where v: "w_db w' = ?d"
    "v = list_body ((if admin then stored_item else shown_item) P ?d) P ?d f category brand admin" by blast
  have "conforms product_schema ((if admin then stored_item else shown_item) P ?d r)"
    if row: "r \<in> set (listed_page P ?d f category brand admin)" for r
  proof -
    from listed_public [OF ok row] product_conforms [OF doc] obtain x where
      x: "catalog_document P ?d (li_id r) = Some x" "conforms product_schema x" by blast
    with public_conforms [OF x(2) document_object [OF x(1)]] show ?thesis
      by (simp add: stored_item_def shown_item_def json_or_null_def)
  qed
  then have "conforms product_page_schema v" unfolding v(2) list_body_def by (intro page_conforms) auto
  moreover have "countable_docs w'" using w v(1) by (simp add: countable_docs_def docs_def)
  ultimately show "countable_docs w' \<and> conforms product_page_schema v" by blast
qed

lemma find_returns:
  assumes J: "jsoncpp_ok J" and P: "postgres_ok J P"
  shows "returns countable_docs (conforms product_schema) (service_find J P key admin)"
proof (rule returnsI)
  fix w v w' assume w: "countable_docs w" and run: "service_find J P key admin w = (Inr v, w')"
  let ?d = "w_db w"
  from w have doc: "documented ?d" by (simp add: countable_docs_def docs_def)
  from run have "\<not> (key = [] \<or> 160 < length key \<or> admin \<and> \<not> uuid key)" by (auto simp: service_find_def split: if_splits)
  with run obtain rows u result where step: "exec_sql (find_statement P key admin) w = (Inr rows, u)"
      "(case rows of [] \<Rightarrow> ret JNull | document # _ \<Rightarrow> lift_res (decode J document)) u = (Inr result, w')"
      "\<not> is_null result" "if admin then v = result else public_document J result = Inr v"
    by (auto simp: service_find_def repository_find_def bind_act_Inr split: if_splits)
  have "\<exists>ps. rows = map (\<lambda>p. jsonb_out P (json_or_null (catalog_document P ?d (p_id p)))) ps \<and>
      set ps \<subseteq> set (products ?d) \<and> w_db u = ?d"
    using exec_sql_Inr [OF step(1)] by (force simp: find_statement_def bind_res_eq_Inr split: if_splits)
  then obtain ps where ps: "rows = map (\<lambda>p. jsonb_out P (json_or_null (catalog_document P ?d (p_id p)))) ps"
      "set ps \<subseteq> set (products ?d)" "w_db u = ?d" by blast
  have "rows \<noteq> []" using step(2,3) by auto
  with ps(1) obtain p qs where p: "ps = p # qs" by (cases ps) auto
  with ps(2) have "p_id p \<in> p_id ` set (products ?d)" by auto
  with find_product_ids obtain q where "find_product ?d (p_id p) = Some q" by blast
  then obtain x where x: "catalog_document P ?d (p_id p) = Some x" by (simp add: catalog_document_def)
  have "decode J (jsonb_out P x) = Inr x" by (rule decode_out [OF P document_wf [OF documented_ok [OF doc] x]])
  with step(2) ps(1) p x have result: "result = x" "w' = u" by (simp_all add: json_or_null_def)
  have "conforms product_schema x" by (rule product_conforms [OF doc x])
  with step(4) result public_document_catalog [OF J x] public_conforms [OF _ document_object [OF x]]
  have "conforms product_schema v" by (simp split: if_splits)
  moreover have "countable_docs w'" using w ps(3) result(2) by (simp add: countable_docs_def docs_def)
  ultimately show "countable_docs w' \<and> conforms product_schema v" by blast
qed

lemma metadata_wf: "wf_json (JObj [(''categories'', JArr (category_entries P d loc)), (''brands'', JArr (brand_entries P d)),
      (''attributes'', JArr (attribute_entries P d loc))])"
  by (auto simp: category_entries_def brand_entries_def attribute_entries_def list_all_iff)

lemma metadata_returns:
  assumes P: "postgres_ok J P"
  shows "returns countable_docs (conforms metadata_schema) (repository_metadata J P loc)"
proof (rule returnsI)
  fix w v w' assume w: "countable_docs w" and run: "repository_metadata J P loc w = (Inr v, w')"
  from run obtain t where step: "exec_sql (metadata_statement P loc) w = (Inr t, w')" "decode J t = Inr v"
    by (auto simp: repository_metadata_def bind_act_Inr)
  from exec_sql_Inr [OF step(1)] have t: "t = jsonb_out P (JObj [(''categories'', JArr (category_entries P (w_db w) loc)),
      (''brands'', JArr (brand_entries P (w_db w))), (''attributes'', JArr (attribute_entries P (w_db w) loc))])" "w_db w' = w_db w"
    by (auto simp: metadata_statement_def)
  from w have "\<forall>k \<in> entity_ids (w_db w). canonical k" by (simp add: countable_docs_def docs_def documented_def)
  from metadata_conforms [OF this] step(2) have "conforms metadata_schema v"
    unfolding t(1) decode_out [OF P metadata_wf] by auto
  with w t(2) show "countable_docs w' \<and> conforms metadata_schema v" by (simp add: countable_docs_def docs_def)
qed

lemma save_returns:
  assumes J: "jsoncpp_ok J" and P: "postgres_ok J P" and U: "uuids_ok P" and wf: "wf_json draft"
  shows "returns docs (conforms product_schema) (service_save J P draft actor corr key revision)"
proof (rule returnsI)
  fix w v w' assume w: "docs w" and run: "service_save J P draft actor corr key revision w = (Inr v, w')"
  let ?d = "w_db w"
  from w have doc: "documented ?d" by (simp add: docs_def)
  have kept: "docs w'" using keepsD [OF docs_moves [OF J P U moves_save [OF J wf]] w, of actor corr key revision] run by simp
  from run obtain t where step: "exec_sql (save_statement J P draft actor corr key revision) w = (Inr t, w')"
      "decode J t = Inr v" "is_member J v ''failure'' = Inr False"
    by (auto simp: service_save_def repository_save_def bind_act_Inr split: if_splits)
  from exec_sql_Inr [OF step(1)] obtain doc' a c target r where s:
      "catalog_save P doc' a c target revision ?d = Inr (r, w_db w')" "t = jsonb_out P r"
    by (auto simp: save_statement_def bind_res_eq_Inr)
  have "wf_json r"
    using catalog_save_Inr [OF s(1)] committed_result [of P doc' a c target revision ?d r "w_db w'"] kept
      document_wf [of "w_db w'" P] by (auto simp: docs_def failure_def)
  then have v: "v = r" using step(2) unfolding s(2) decode_out [OF P \<open>wf_json r\<close>] by simp
  have "is_object r"
    using catalog_save_Inr [OF s(1)] committed_result [of P doc' a c target revision ?d r "w_db w'"] by (auto simp: failure_def)
  then have "\<not> has_key r ''failure''" using has_key_member [OF J, of r "''failure''"] step(3) v by simp
  with committed_iff [OF s(1)] committed_result have "catalog_document P (w_db w') (product_key P target ?d) = Some r" by blast
  with product_conforms [of "w_db w'"] kept v show "docs w' \<and> conforms product_schema v" by (auto simp: docs_def)
qed

lemma upload_returns:
  assumes J: "jsoncpp_ok J" and P: "postgres_ok J P" and U: "uuids_ok P" and ids: "\<forall>n. canonical (new_uuid M n)"
  shows "returns docs (conforms image_schema) (upload M P S bytes actor corr)"
proof (rule returnsI)
  fix w v w' assume w: "docs w" and run: "upload M P S bytes actor corr w = (Inr v, w')"
  from run obtain n where "v = upload_result (new_uuid M n)"
    by (auto simp: upload_def bind_act_Inr draw_def split: prod.splits)
  with ids upload_conforms keepsD [OF docs_moves [OF J P U moves_upload [OF ids]] w, of S bytes actor corr] run
  show "docs w' \<and> conforms image_schema v" by simp
qed

lemma require_returns:
  assumes "postgres_ok J P"
  shows "returns docs (\<lambda>p. \<exists>ps. pr_permissions p = JArr (map JStr ps)) (require J P S req permission)"
proof -
  have query: "returns docs (\<lambda>rows. \<forall>row \<in> set rows. \<exists>ps. q_permissions row = jsonb_out P (JArr (map JStr ps)))
      (exec_sql (principal_query P hash))" for hash
  proof (rule returnsI)
    fix w rows w' assume w: "docs w" and run: "exec_sql (principal_query P hash) w = (Inr rows, w')"
    from exec_sql_Inr [OF run] w
    show "docs w' \<and> (\<forall>row \<in> set rows. \<exists>ps. q_permissions row = jsonb_out P (JArr (map JStr ps)))"
      by (auto simp: principal_query_def docs_def) (rule exI, rule refl)
  qed
  have decoded: "returns docs (\<lambda>v. \<exists>ps. v = JArr (map JStr ps)) (lift_res (decode J (q_permissions row)))"
    if "\<exists>ps. q_permissions row = jsonb_out P (JArr (map JStr ps))" for row
    using that decode_out [OF assms] by (intro returns_lift_res) (auto simp: list_all_iff)
  have row: "returns docs (\<lambda>p. \<exists>ps. pr_permissions p = JArr (map JStr ps))
      (bind_act (lift_res (decode J (q_permissions row))) (\<lambda>v. bind_act (lift_res (r v)) (\<lambda>missing.
        if missing then throw e else ret \<lparr>pr_id = q_id row, pr_email = q_email row, pr_permissions = v\<rparr>)))"
    if "\<exists>ps. q_permissions row = jsonb_out P (JArr (map JStr ps))" for row r e
  proof (rule returns_bind [OF decoded [OF that]])
    fix v assume v: "\<exists>ps. v = JArr (map JStr ps)"
    show "returns docs (\<lambda>p. \<exists>ps. pr_permissions p = JArr (map JStr ps)) (bind_act (lift_res (r v)) (\<lambda>missing.
        if missing then throw e else ret \<lparr>pr_id = q_id row, pr_email = q_email row, pr_permissions = v\<rparr>))"
      by (rule returns_bind [where B = "\<lambda>_. True"]) (use v in \<open>auto intro: returns_lift_res returns_throw returns_ret\<close>)
  qed
  show ?thesis
    unfolding require_def Let_def
    by (auto intro!: returns_throw returns_bind [OF query] row split: list.splits)
qed

text \<open>A route returns a JSON response whose body conforms.\<close>

definition json_reply :: "schema \<Rightarrow> response \<Rightarrow> bool" where
  "json_reply s r \<longleftrightarrow> (\<exists>v. resp_content r = Json_Body v \<and> conforms s v)"

lemma reply_json: "conforms s v \<Longrightarrow> json_reply s (json_response v)" "conforms s v \<Longrightarrow> json_reply s (created_response v)"
  by (simp_all add: json_reply_def json_response_def created_response_def)

lemma returns_guarded:
  assumes "\<And>p. returns docs C (work p)"
  shows "returns docs C (guarded J P S A req permission work)"
  unfolding guarded_def
  by (rule returns_bind [OF returns_lift_res [where C = "\<lambda>_. True"]], simp)
    (rule returns_bind [OF returns_keeps [OF docs_require]], rule assms)

lemma read_routes_return:
  assumes R: "relied_on M J P req"
  shows "returns countable_docs (json_reply product_page_schema) (products_route J P S admin req)"
    "returns countable_docs (json_reply product_schema) (product_route J P S admin req key)"
    "returns countable_docs (json_reply metadata_schema) (metadata_route J P req)"
proof -
  from R have J: "jsoncpp_ok J" and P: "postgres_ok J P" by (simp_all add: relied_on_def)
  have "w_db (snd (require_if J P S req admin permission w)) = w_db w" for permission w
    using require_db [of J P S req permission w] by (auto simp: require_if_def bind_act_simp split: sum.splits)
  note guard = countable_same [of "require_if J P S req admin permission" for permission, OF this]
  show "returns countable_docs (json_reply product_page_schema) (products_route J P S admin req)"
    unfolding products_route_def
    by (rule returns_bind [OF guard], rule returns_bind [OF returns_lift_res [where C = "\<lambda>f. parse_filter req = Inr f"]], assumption)
      (rule returns_bind [OF list_returns [OF J P]], assumption, rule returns_ret, rule reply_json)
  show "returns countable_docs (json_reply product_schema) (product_route J P S admin req key)"
    unfolding product_route_def
    by (rule returns_bind [OF guard], rule returns_bind [OF find_returns [OF J P]], rule returns_ret, rule reply_json)
  show "returns countable_docs (json_reply metadata_schema) (metadata_route J P req)"
    unfolding metadata_route_def
    by (rule returns_bind [OF returns_lift_res [where C = "\<lambda>_. True"]], simp)
      (rule returns_bind [OF metadata_returns [OF P]], rule returns_ret, rule reply_json)
qed

lemma write_routes_return:
  assumes R: "relied_on M J P req"
  shows "returns docs (json_reply product_schema) (create_route J P S A uid req)"
    "returns docs (json_reply product_schema) (update_route J P S A uid req key)"
    "returns docs (json_reply created_schema) (reference_route J P S A kind uid req)"
    "returns docs (json_reply image_schema) (upload_route M J P S A uid req)"
proof -
  from R have ok: "jsoncpp_ok J" "postgres_ok J P" "uuids_ok P" "\<forall>n. canonical (new_uuid M n)" by (simp_all add: relied_on_def)
  have json: "returns docs wf_json (lift_res (json_body req))" using body_wf [OF R] by (rule returns_lift_res)
  have any: "returns docs (\<lambda>_. True) (lift_res r)" for r :: "'a res" by (rule returns_lift_res) simp
  have reference: "returns docs (\<lambda>v. \<exists>k. v = JObj [(''id'', JStr k)]) (service_add_reference J P kind v actor corr)" for v actor corr
  proof (rule returnsI)
    fix w x w' assume w: "docs w" and run: "service_add_reference J P kind v actor corr w = (Inr x, w')"
    then have "\<exists>k. x = JObj [(''id'', JStr k)]"
      by (auto simp: service_add_reference_def bind_act_Inr repository_add_reference_def split: prod.splits sum.splits exn.splits)
    with keepsD [OF docs_moves [OF ok(1-3) moves_add_reference] w, of kind v actor corr] run
    show "docs w' \<and> (\<exists>k. x = JObj [(''id'', JStr k)])" by simp
  qed
  show "returns docs (json_reply product_schema) (create_route J P S A uid req)"
    unfolding create_route_def
    by (rule returns_guarded, rule returns_bind [OF json], rule returns_bind [OF save_returns [OF ok(1-3)]], assumption)
      (rule returns_ret, rule reply_json)
  show "returns docs (json_reply product_schema) (update_route J P S A uid req key)"
    unfolding update_route_def
    by (rule returns_guarded, rule returns_bind [OF json], (rule returns_bind [OF any])+,
        rule returns_bind [OF save_returns [OF ok(1-3)]], assumption) (rule returns_ret, rule reply_json)
  show "returns docs (json_reply created_schema) (reference_route J P S A kind uid req)"
    unfolding reference_route_def
    by (rule returns_guarded, rule returns_bind [OF json], rule returns_bind [OF reference])
      (auto intro!: returns_ret reply_json created_conforms)
  show "returns docs (json_reply image_schema) (upload_route M J P S A uid req)"
    unfolding upload_route_def
    by (rule returns_guarded, rule returns_bind [OF upload_returns [OF ok]], rule returns_ret, rule reply_json)
qed

lemma session_routes_return:
  assumes R: "relied_on M J P req"
  shows "returns docs (json_reply login_reply_schema) (login_route J P S A req)"
    "returns docs (json_reply session_schema) (session_route J P S req)"
proof -
  from R have ok: "jsoncpp_ok J" "postgres_ok J P" "uuids_ok P" by (simp_all add: relied_on_def)
  show "returns docs (json_reply login_reply_schema) (login_route J P S A req)"
  proof (rule returnsI)
    fix w r w' assume w: "docs w" and run: "login_route J P S A req w = (Inr r, w')"
    then obtain email token where "r = session_cookie A (json_response (JObj [(''email'', JStr email)])) token False"
      by (auto simp: login_route_def Let_def bind_act_Inr split: prod.splits)
    then have "json_reply login_reply_schema r"
      using login_conforms [of email] by (simp add: json_reply_def session_cookie_def json_response_def)
    with keepsD [OF docs_moves [OF ok moves_sessions(1)] w, of S A req] run show "docs w' \<and> json_reply login_reply_schema r" by simp
  qed
  show "returns docs (json_reply session_schema) (session_route J P S req)"
    unfolding session_route_def
    by (rule returns_bind [OF require_returns [OF ok(2)]])
      (auto intro!: returns_ret reply_json session_conforms)
qed

lemma api_returns:
  assumes "relied_on M J P req" and "(s, route) \<in> set (api M J P S A uid req key kind)" and "countable_docs w"
    and "route w = (Inr r, w')"
  shows "json_reply s r"
proof -
  from assms(2) consider "returns countable_docs (json_reply s) route" | "returns docs (json_reply s) route"
    using read_routes_return [OF assms(1)] write_routes_return [OF assms(1)] session_routes_return [OF assms(1)]
    by (auto simp: api_def)
  then show ?thesis
    by cases (use assms(3,4) in \<open>auto simp: countable_docs_def dest: returnsD\<close>)
qed

subsection \<open>Histories\<close>

text \<open>
  What can happen to the world while the server runs: requests on any route, by anybody, in any
  order, with any outcome of their statements and transfers; and time.
\<close>

inductive serves :: "media_env \<Rightarrow> jsoncpp \<Rightarrow> postgres \<Rightarrow> sodium \<Rightarrow> auth_service \<Rightarrow> world \<Rightarrow> world \<Rightarrow> bool"
  for M J P S A w where
  idle: "serves M J P S A w w"
| json_route: "serves M J P S A w u \<Longrightarrow> relied_on M J P req \<Longrightarrow> (s, route) \<in> set (api M J P S A uid req key kind) \<Longrightarrow>
    serves M J P S A w (snd (route u))"
| logout: "serves M J P S A w u \<Longrightarrow> serves M J P S A w (snd (logout_route S A req u))"
| image: "serves M J P S A w u \<Longrightarrow> serves M J P S A w (snd (media_route M J P S req key filename u))"
| elapse: "serves M J P S A w u \<Longrightarrow>
    serves M J P S A w (u\<lparr>w_db := (w_db u)\<lparr>clock := t\<rparr>, w_fates := fates, w_transfers := transfers\<rparr>)"

lemma serves_docs: "serves M J P S A w u \<Longrightarrow> docs w \<Longrightarrow> docs u"
proof (induction rule: serves.induct)
  case (elapse u transfers fates t)
  then have "documented (w_db u)" by (simp add: docs_def)
  then have "documented ((w_db u)\<lparr>clock := t\<rparr>)" by (rule documented_frame [rotated]) (simp add: catalog_part_def)
  then show ?case by (simp add: docs_def)
qed (auto intro: keepsD api_docs docs_logout docs_media)

lemma reply_of_error:
  assumes "uuid (fst (request_id uid req))"
  shows "\<exists>v. resp_content (reply_of uid req (Inl e)) = Json_Body v \<and> conforms error_schema v"
  using error_conforms [OF assms]
  by (cases e) (auto simp: reply_of_def api_error_def json_response_def split: exn.splits)

lemma health_replies_conform:
  "conforms liveness_schema (case resp_content live_route of Json_Body v \<Rightarrow> v | _ \<Rightarrow> JNull)" "conforms readiness_schema ready_body"
  by (simp_all add: live_route_def json_response_def ready_body_def liveness_schema_def readiness_schema_def
      closed_schema_def text_schema_def within_def)

subsection \<open>Properties\<close>

text \<open>
  The state stays documented.  However long the server runs, whatever requests anybody sends,
  in any order and with any failures on the way, from a documented database it only gets to
  documented ones: the catalog is consistent, every identifier is a canonical UUID, every
  product has exactly the Russian and the Romanian translation, and what the rows hold is what
  \<open>validateDraft\<close> accepts.
\<close>

lemma api_keeps_documented:
  assumes "serves M J P S A w u" and "documented (w_db w)"
  shows "documented (w_db u)"
  using serves_docs [OF assms(1)] assms(2) by (simp add: docs_def)

text \<open>
  C11. Every reply has its documented type.  After any history from a documented database, what
  \<open>dispatch\<close> answers to a request on any JSON route conforms to the schema that the contract
  gives for it: the schema of the route if the work succeeded, the error schema, with the
  request's identifier, if it threw.
\<close>

theorem api_replies_conform:
  assumes "serves M J P S A w u" and "documented (w_db w)" and "countable_rows (w_db u)"
    and "relied_on M J P req" and "(s, route) \<in> set (api M J P S A uid req key kind)"
    and "uuid (fst (request_id uid req))" and "dispatch_task uid req route u = (reply, u')"
  shows "\<exists>v. resp_content reply = Json_Body v \<and> conforms (if ok (fst (route u)) then s else error_schema) v"
proof -
  have "countable_docs u"
    using serves_docs [OF assms(1)] assms(2,3) by (simp add: countable_docs_def docs_def)
  note success = api_returns [OF assms(4,5) this]
  obtain result w2 where run: "route u = (result, w2)" by fastforce
  with assms(7) have reply: "reply = reply_of uid req result" by (simp add: dispatch_task_def)
  show ?thesis
  proof (cases result)
    case (Inl e)
    with reply_of_error [OF assms(6), of e] run reply show ?thesis by simp
  next
    case (Inr r)
    with success run have "json_reply s r" by blast
    with Inr run reply show ?thesis by (simp add: json_reply_def reply_of_def)
  qed
qed

subsection \<open>Examples\<close>

lemma sample_serves:
  "serves sample_media sample_jsoncpp sample_postgres sample_sodium sample_auth sample_catalog_world
     (snd (update_route sample_jsoncpp sample_postgres sample_sodium sample_auth sample_admin sample_request sample_product sample_catalog_world))"
  by (rule serves.json_route [OF serves.idle sample_relied_on, where s = product_schema and uid = sample_admin
        and key = sample_product]) (simp add: api_def)

lemma api_keeps_documented_witness:
  "documented (w_db (snd (update_route sample_jsoncpp sample_postgres sample_sodium sample_auth sample_admin sample_request sample_product
     sample_catalog_world)))"
  by (rule api_keeps_documented [OF sample_serves]) (simp add: sample_catalog_world_facts sample_db1_documented)

lemma sample_metadata_served: "ok (fst (metadata_route sample_jsoncpp sample_postgres sample_request sample_catalog_world))"
proof -
  have "ok (parse_filter sample_request)" by code_simp
  then obtain f where f: "parse_filter sample_request = Inr f" by (cases "parse_filter sample_request") simp_all
  let ?v = "JObj [(''categories'', JArr []), (''brands'', JArr []),
      (''attributes'', JArr (attribute_entries sample_postgres sample_db1 (f_locale f)))]"
  have entries: "attribute_entries sample_postgres sample_db1 (f_locale f) = [JObj [(''code'', JStr ''color''),
      (''name'', JStr (if f_locale f = ''ro'' then ''Culoare'' else ''Cvet'')), (''unit'', JStr [])]]"
    by (simp add: attribute_entries_def sample_db1_def sample_rows_def sample_db_def empty_db_def)
  have "metadata_statement sample_postgres (f_locale f) sample_db1 = Inr (jsonb_out sample_postgres ?v, sample_db1)"
    by (simp add: metadata_statement_def category_entries_def brand_entries_def sample_db1_def sample_rows_def
        sample_db_def empty_db_def)
  then have "exec_sql (metadata_statement sample_postgres (f_locale f)) sample_catalog_world =
      (Inr (jsonb_out sample_postgres ?v), sample_catalog_world)"
    by (simp add: exec_sql_served sample_catalog_world_facts)
  moreover have "decode sample_jsoncpp (jsonb_out sample_postgres ?v) = Inr ?v"
    by (rule decode_out [OF sample_postgres_ok]) (simp add: entries)
  ultimately show ?thesis
    using f by (simp add: metadata_route_def repository_metadata_def bind_act_simp)
qed

theorem api_replies_conform_witness:
  "\<exists>v. resp_content (fst (dispatch_task sample_admin sample_request
       (metadata_route sample_jsoncpp sample_postgres sample_request) sample_catalog_world)) = Json_Body v \<and>
     conforms metadata_schema v"
proof -
  let ?route = "metadata_route sample_jsoncpp sample_postgres sample_request"
  obtain reply u' where run: "dispatch_task sample_admin sample_request ?route sample_catalog_world = (reply, u')"
    by fastforce
  have listed: "(metadata_schema, ?route) \<in> set (api sample_media sample_jsoncpp sample_postgres sample_sodium sample_auth
      sample_admin sample_request [] [])" by (simp add: api_def)
  have "uuid (fst (request_id sample_admin sample_request))"
    by (simp add: request_id_def sample_request_def sample_uuids)
  from api_replies_conform [OF serves.idle _ _ sample_relied_on listed this run] run sample_metadata_served
  show ?thesis by (simp add: sample_catalog_world_facts sample_db1_documented)
qed

end
