(* ===== verification/Config.thy ===== *)
theory Config
  imports Chars
begin

text \<open>
  platform/Config.cpp: the configuration read from the environment.  \<open>Environment\<close> is
  the C++ callable that reads a key and gives the empty string for a missing one.  Every
  failure is \<open>std::invalid_argument\<close> with the message of the source.  The terms of the
  connection string are read left to right (C++ leaves the order open; it only decides
  which key an error names).  \<open>conninfo\<close> is the reference reader of libpq's keyword and
  value strings, against which the quoting is proved.
\<close>

type_synonym environment = "string \<Rightarrow> string"

record config =
  cfg_environment :: string
  cfg_port :: "16 word"
  cfg_threads :: "32 word"
  cfg_postgres :: string
  cfg_redis_host :: string
  cfg_redis_port :: "16 word"
  cfg_redis_password :: string

definition invalid_configuration :: "string \<Rightarrow> exn" where
  "invalid_configuration key = StdError (''Invalid configuration: '' @ key)"

definition line_break :: "char \<Rightarrow> bool" where
  "line_break c \<longleftrightarrow> c = CHR 0x0D \<or> c = CHR 0x0A"

definition required :: "environment \<Rightarrow> string \<Rightarrow> string res" where
  "required read key =
     (let value = read key
      in if value = [] \<or> value = ''replace-with-random-value'' \<or> 4096 < length value \<or>
            list_ex line_break value
         then Inl (invalid_configuration key)
         else Inr value)"

definition config_number :: "environment \<Rightarrow> string \<Rightarrow> nat \<Rightarrow> nat \<Rightarrow> nat res" where
  "config_number read key fallback maximum =
     (let raw = read key
      in if raw = [] then Inr fallback
         else case from_chars_u32 raw of
                Parsed value rest \<Rightarrow>
                  if rest \<noteq> [] \<or> value = 0 \<or> value > int maximum
                  then Inl (invalid_configuration key) else Inr (nat value)
              | Invalid_Argument \<Rightarrow> Inl (invalid_configuration key)
              | Result_Out_Of_Range \<Rightarrow> Inl (invalid_configuration key))"

fun escape :: "string \<Rightarrow> string" where
  "escape [] = []"
| "escape (c # cs) =
     (if c = CHR 0x27 \<or> c = CHR 0x5C then CHR 0x5C # c # escape cs else c # escape cs)"

definition quote :: "string \<Rightarrow> string" where
  "quote value = [CHR 0x27] @ escape value @ [CHR 0x27]"

definition config_load :: "environment \<Rightarrow> config res" where
  "config_load read =
    bind_res (required read ''APP_ENV'') (\<lambda>environment.
    bind_res (throw_if (environment \<notin> {''development'', ''test'', ''staging'', ''production''})
      (invalid_configuration ''APP_ENV'')) (\<lambda>_.
    bind_res (config_number read ''API_PORT'' 8080 65535) (\<lambda>port.
    bind_res (config_number read ''API_THREADS'' 2 64) (\<lambda>threads.
    bind_res (config_number read ''PGPORT'' 5432 65535) (\<lambda>pgPort.
    let ssl = (if read ''PGSSLMODE'' = [] then ''disable'' else read ''PGSSLMODE'') in
    bind_res (throw_if (ssl \<notin> {''disable'', ''require'', ''verify-full''})
      (invalid_configuration ''PGSSLMODE'')) (\<lambda>_.
    bind_res (throw_if (environment \<in> {''production'', ''staging''} \<and> ssl \<noteq> ''verify-full'')
      (StdError ''PGSSLMODE must be verify-full outside local development'')) (\<lambda>_.
    bind_res (required read ''PGHOST'') (\<lambda>host.
    bind_res (required read ''PGDATABASE'') (\<lambda>dbname.
    bind_res (required read ''PGUSER'') (\<lambda>user.
    bind_res (required read ''PGPASSWORD'') (\<lambda>password.
    let connection = ''host='' @ quote host @ '' port='' @ digits pgPort @ '' dbname='' @ quote dbname @
      '' user='' @ quote user @ '' password='' @ quote password @
      '' sslmode='' @ ssl @ '' connect_timeout=3 application_name=bee'' in
    bind_res (if ssl = ''verify-full''
              then bind_res (required read ''PGSSLROOTCERT'') (\<lambda>cert.
                     Inr (connection @ '' sslrootcert='' @ quote cert))
              else Inr connection) (\<lambda>postgres.
    bind_res (required read ''REDIS_HOST'') (\<lambda>redisHost.
    bind_res (config_number read ''REDIS_PORT'' 6379 65535) (\<lambda>redisPort.
    bind_res (required read ''REDIS_PASSWORD'') (\<lambda>redisPassword.
    Inr \<lparr>cfg_environment = environment, cfg_port = word_of_nat port,
         cfg_threads = word_of_nat threads, cfg_postgres = postgres, cfg_redis_host = redisHost,
         cfg_redis_port = word_of_nat redisPort, cfg_redis_password = redisPassword\<rparr>)))))))))))))))"

text \<open>\<open>Config::fromEnvironment\<close>: \<open>getenv\<close> gives no value for a missing variable.\<close>

definition from_environment :: "(string \<Rightarrow> string option) \<Rightarrow> config res" where
  "from_environment getenv = config_load (\<lambda>key. case getenv key of None \<Rightarrow> [] | Some value \<Rightarrow> value)"

subsection \<open>Single values\<close>

lemma required_eq_Inr [simp]:
  "required read key = Inr v \<longleftrightarrow>
     v = read key \<and> v \<noteq> [] \<and> v \<noteq> ''replace-with-random-value'' \<and> length v \<le> 4096 \<and>
     list_all (\<lambda>c. \<not> line_break c) v"
  by (auto simp: required_def Let_def list_ex_iff list_all_iff)

lemma config_number_eq_Inr:
  "config_number read key fallback maximum = Inr n \<longleftrightarrow>
     (if read key = [] then n = fallback
      else numeral_string (read key) \<and> n = digits_value (read key) \<and>
           1 \<le> n \<and> n \<le> maximum \<and> n < 2 ^ 32)"
proof (cases "read key = []")
  case False
  have "config_number read key fallback maximum = Inr n \<longleftrightarrow>
      (\<exists>v. from_chars_u32 (read key) = Parsed v [] \<and> v \<noteq> 0 \<and> v \<le> int maximum \<and> n = nat v)"
    using False by (auto simp: config_number_def Let_def split: from_chars_result.splits if_splits)
  with False show ?thesis
    by (auto simp: from_chars_u32_def from_chars_unsigned_all)
qed (auto simp: config_number_def)

lemma config_number_range:
  "config_number read key fallback maximum = Inr n \<Longrightarrow> 1 \<le> fallback \<Longrightarrow> fallback \<le> maximum \<Longrightarrow>
     1 \<le> n \<and> n \<le> maximum"
  by (auto simp: config_number_eq_Inr split: if_splits)

subsection \<open>Which environments load\<close>

definition usable :: "string \<Rightarrow> bool" where
  "usable v \<longleftrightarrow> v \<noteq> [] \<and> v \<noteq> ''replace-with-random-value'' \<and> length v \<le> 4096 \<and>
     list_all (\<lambda>c. \<not> line_break c) v"

definition usable_number :: "nat \<Rightarrow> string \<Rightarrow> bool" where
  "usable_number maximum v \<longleftrightarrow>
     v = [] \<or> numeral_string v \<and> 1 \<le> digits_value v \<and> digits_value v \<le> maximum"

definition ssl_mode :: "environment \<Rightarrow> string" where
  "ssl_mode read = (if read ''PGSSLMODE'' = [] then ''disable'' else read ''PGSSLMODE'')"

definition port_value :: "string \<Rightarrow> nat \<Rightarrow> nat" where
  "port_value v fallback = (if v = [] then fallback else digits_value v)"

definition loadable :: "environment \<Rightarrow> bool" where
  "loadable read \<longleftrightarrow>
     list_all (\<lambda>key. usable (read key))
       [''APP_ENV'', ''PGHOST'', ''PGDATABASE'', ''PGUSER'', ''PGPASSWORD'', ''REDIS_HOST'', ''REDIS_PASSWORD''] \<and>
     read ''APP_ENV'' \<in> {''development'', ''test'', ''staging'', ''production''} \<and>
     usable_number 65535 (read ''API_PORT'') \<and> usable_number 64 (read ''API_THREADS'') \<and>
     usable_number 65535 (read ''PGPORT'') \<and> usable_number 65535 (read ''REDIS_PORT'') \<and>
     ssl_mode read \<in> {''disable'', ''require'', ''verify-full''} \<and>
     (read ''APP_ENV'' \<in> {''production'', ''staging''} \<longrightarrow> ssl_mode read = ''verify-full'') \<and>
     (ssl_mode read = ''verify-full'' \<longrightarrow> usable (read ''PGSSLROOTCERT''))"

lemma ok_required: "ok (required read key) \<longleftrightarrow> usable (read key)"
  by (auto simp: ok_iff usable_def)

lemma required_eq: "required read key = (if usable (read key) then Inr (read key) else Inl (invalid_configuration key))"
  by (auto simp: usable_def required_def Let_def list_ex_iff list_all_iff)

lemma config_number_eq:
  assumes "maximum < 2 ^ 32"
  shows "config_number read key fallback maximum =
    (if usable_number maximum (read key) then Inr (port_value (read key) fallback)
     else Inl (invalid_configuration key))"
proof (cases "config_number read key fallback maximum")
  case (Inl e)
  then have "\<not> ok (config_number read key fallback maximum)" by simp
  then have "config_number read key fallback maximum \<noteq> Inr (port_value (read key) fallback)"
    by (metis ok_Inr)
  then have "\<not> usable_number maximum (read key)"
    using assms by (auto simp: config_number_eq_Inr usable_number_def port_value_def split: if_splits)
  moreover have "e = invalid_configuration key"
    using Inl by (auto simp: config_number_def Let_def split: if_splits from_chars_result.splits)
  ultimately show ?thesis using Inl by simp
next
  case (Inr n)
  then show ?thesis
    by (auto simp: config_number_eq_Inr usable_number_def port_value_def split: if_splits)
qed

lemma config_load_cases:
  "config_load read = Inr cfg \<longleftrightarrow> loadable read \<and>
     cfg = \<lparr>cfg_environment = read ''APP_ENV'',
       cfg_port = word_of_nat (port_value (read ''API_PORT'') 8080),
       cfg_threads = word_of_nat (port_value (read ''API_THREADS'') 2),
       cfg_postgres = ''host='' @ quote (read ''PGHOST'') @
         '' port='' @ digits (port_value (read ''PGPORT'') 5432) @
         '' dbname='' @ quote (read ''PGDATABASE'') @ '' user='' @ quote (read ''PGUSER'') @
         '' password='' @ quote (read ''PGPASSWORD'') @ '' sslmode='' @ ssl_mode read @
         '' connect_timeout=3 application_name=bee'' @
         (if ssl_mode read = ''verify-full'' then '' sslrootcert='' @ quote (read ''PGSSLROOTCERT'') else []),
       cfg_redis_host = read ''REDIS_HOST'',
       cfg_redis_port = word_of_nat (port_value (read ''REDIS_PORT'') 6379),
       cfg_redis_password = read ''REDIS_PASSWORD''\<rparr>"
  unfolding config_load_def Let_def ssl_mode_def [symmetric] required_eq
  by (simp add: config_number_eq bind_res_eq_Inr loadable_def) auto

subsection \<open>Reading a libpq connection string\<close>

text \<open>
  The documented grammar of keyword and value strings: items separated by spaces, a value
  either bare up to the next space or in single quotes, a backslash taking the next byte
  as it is.  (Spaces around the equals sign, which libpq allows and the program never
  writes, are left out.)
\<close>

fun read_quoted :: "string \<Rightarrow> (string \<times> string) option" where
  "read_quoted [] = None"
| "read_quoted (c # cs) =
     (if c = CHR 0x27 then Some ([], cs)
      else if c = CHR 0x5C
      then (case cs of [] \<Rightarrow> None
            | d # ds \<Rightarrow> map_option (\<lambda>(v, r). (d # v, r)) (read_quoted ds))
      else map_option (\<lambda>(v, r). (c # v, r)) (read_quoted cs))"

fun read_bare :: "string \<Rightarrow> string \<times> string" where
  "read_bare [] = ([], [])"
| "read_bare (c # cs) =
     (if c = CHR '' '' then ([], c # cs)
      else if c = CHR 0x5C
      then (case cs of [] \<Rightarrow> ([], [])
            | d # ds \<Rightarrow> (case read_bare ds of (v, r) \<Rightarrow> (d # v, r)))
      else (case read_bare cs of (v, r) \<Rightarrow> (c # v, r)))"

definition read_value :: "string \<Rightarrow> (string \<times> string) option" where
  "read_value s = (if s \<noteq> [] \<and> hd s = CHR 0x27 then read_quoted (tl s) else Some (read_bare s))"

lemma read_quoted_length: "read_quoted s = Some (v, r) \<Longrightarrow> length r < length s"
  by (induction s arbitrary: v r rule: read_quoted.induct) (fastforce split: if_splits list.splits)+

lemma read_bare_length: "read_bare s = (v, r) \<Longrightarrow> length r \<le> length s"
  by (induction s arbitrary: v r rule: read_bare.induct)
    (fastforce split: if_splits list.splits prod.splits)+

lemma read_value_length: "read_value s = Some (v, r) \<Longrightarrow> length r \<le> length s"
  by (auto simp: read_value_def dest!: read_quoted_length read_bare_length split: if_splits)

lemma conninfo_shorter:
  assumes "read_value (tl (dropWhile P (dropWhile Q s))) = Some (v, rest)" "dropWhile P (dropWhile Q s) \<noteq> []"
  shows "length rest < length s"
proof -
  have "length rest \<le> length (tl (dropWhile P (dropWhile Q s)))"
    using assms(1) by (rule read_value_length)
  also have "\<dots> < length (dropWhile P (dropWhile Q s))" using assms(2) by simp
  also have "\<dots> \<le> length s"
    using length_dropWhile_le [of P "dropWhile Q s"] length_dropWhile_le [of Q s] by linarith
  finally show ?thesis .
qed

function conninfo :: "string \<Rightarrow> (string \<times> string) list option" where
  "conninfo s =
     (let s' = dropWhile (\<lambda>c. c = CHR '' '') s;
          key = takeWhile (\<lambda>c. c \<noteq> CHR ''='') s';
          r = dropWhile (\<lambda>c. c \<noteq> CHR ''='') s'
      in if s' = [] then Some []
         else if r = [] then None
         else case read_value (tl r) of
                None \<Rightarrow> None
              | Some (v, rest) \<Rightarrow> map_option ((#) (key, v)) (conninfo rest))"
  by pat_completeness auto

termination
  by (relation "measure length") (auto intro!: conninfo_shorter simp del: dropWhile_eq_Nil_conv)

declare conninfo.simps [simp del]

lemma read_quoted_escape: "read_quoted (escape v @ CHR 0x27 # rest) = Some (v, rest)"
  by (induction v) auto

lemma read_value_quote: "read_value (quote v @ rest) = Some (v, rest)"
  by (simp add: read_value_def quote_def read_quoted_escape)

lemma read_bare_plain:
  "list_all (\<lambda>c. c \<noteq> CHR '' '' \<and> c \<noteq> CHR 0x5C) v \<Longrightarrow> rest = [] \<or> hd rest = CHR '' '' \<Longrightarrow>
     read_bare (v @ rest) = (v, rest)"
proof (induction v)
  case Nil
  then show ?case by (cases rest) auto
qed auto

lemma conninfo_Nil [simp]: "conninfo [] = Some []"
  by (subst conninfo.simps) simp

lemma conninfo_space [simp]: "conninfo (CHR '' '' # s) = conninfo s"
  by (simp add: conninfo.simps [of "CHR '' '' # s"] conninfo.simps [of s])

lemma takeWhile_key: "c \<notin> set key \<Longrightarrow> takeWhile (\<lambda>x. x \<noteq> c) (key @ c # r) = key"
  by (induction key) auto

lemma dropWhile_key: "c \<notin> set key \<Longrightarrow> dropWhile (\<lambda>x. x \<noteq> c) (key @ c # r) = c # r"
  by (induction key) auto

lemma conninfo_item:
  assumes "CHR ''='' \<notin> set key" "key \<noteq> []" "hd key \<noteq> CHR '' ''" "read_value r = Some (v, rest)"
  shows "conninfo (key @ CHR ''='' # r) = map_option ((#) (key, v)) (conninfo rest)"
proof -
  have "dropWhile (\<lambda>c. c = CHR '' '') (key @ CHR ''='' # r) = key @ CHR ''='' # r"
    using assms(2,3) by (cases key) auto
  with assms show ?thesis
    by (subst conninfo.simps) (simp add: takeWhile_key dropWhile_key)
qed

lemma conninfo_quote:
  "CHR ''='' \<notin> set key \<Longrightarrow> key \<noteq> [] \<Longrightarrow> hd key \<noteq> CHR '' '' \<Longrightarrow>
     conninfo (key @ CHR ''='' # quote v @ rest) = map_option ((#) (key, v)) (conninfo rest)"
  by (rule conninfo_item) (simp_all add: read_value_quote)

lemma conninfo_bare:
  assumes "CHR ''='' \<notin> set key" "key \<noteq> []" "hd key \<noteq> CHR '' ''"
    "list_all (\<lambda>c. c \<noteq> CHR '' '' \<and> c \<noteq> CHR 0x5C) v" "v \<noteq> []" "hd v \<noteq> CHR 0x27"
    "rest = [] \<or> hd rest = CHR '' ''"
  shows "conninfo (key @ CHR ''='' # v @ rest) = map_option ((#) (key, v)) (conninfo rest)"
  using assms by (intro conninfo_item) (simp_all add: read_value_def read_bare_plain)

lemma digits_bare:
  "list_all (\<lambda>c. c \<noteq> CHR '' '' \<and> c \<noteq> CHR 0x5C) (digits n)" "hd (digits n) \<noteq> CHR 0x27"
proof -
  have all: "\<forall>c \<in> set (digits n). is_digit c"
    using digits_numeral [of n] by (simp add: numeral_string_def list_all_iff)
  then show "list_all (\<lambda>c. c \<noteq> CHR '' '' \<and> c \<noteq> CHR 0x5C) (digits n)"
    by (auto simp: list_all_iff is_digit_def)
  show "hd (digits n) \<noteq> CHR 0x27"
    using all by (cases "digits n") (auto simp: is_digit_def)
qed

lemma config_load_fields:
  assumes "config_load read = Inr cfg"
  shows "cfg_port cfg = word_of_nat (port_value (read ''API_PORT'') 8080)"
    and "cfg_threads cfg = word_of_nat (port_value (read ''API_THREADS'') 2)"
    and "cfg_redis_port cfg = word_of_nat (port_value (read ''REDIS_PORT'') 6379)"
  using assms by (simp_all add: config_load_cases)

lemma ssl_mode_bare:
  assumes "ssl_mode read \<in> {''disable'', ''require'', ''verify-full''}"
  shows "list_all (\<lambda>c. c \<noteq> CHR '' '' \<and> c \<noteq> CHR 0x5C) (ssl_mode read)"
    and "ssl_mode read \<noteq> []" and "hd (ssl_mode read) \<noteq> CHR 0x27"
  using assms by auto

lemma conninfo_tail:
  "conninfo (''connect_timeout=3 application_name=bee'' @ (if b then '' sslrootcert='' @ quote c else [])) =
     Some ([(''connect_timeout'', ''3''), (''application_name'', ''bee'')] @
           (if b then [(''sslrootcert'', c)] else []))"
proof -
  have cert: "conninfo ('' sslrootcert='' @ quote c) = Some [(''sslrootcert'', c)]"
    using conninfo_quote [of "''sslrootcert''" c "[]"] by simp
  let ?rest = "if b then '' sslrootcert='' @ quote c else []"
  have rest: "?rest = [] \<or> hd ?rest = CHR '' ''" by simp
  show ?thesis
    using conninfo_bare [of "''connect_timeout''" "''3''" "'' application_name=bee'' @ ?rest"]
      conninfo_bare [of "''application_name''" "''bee''" ?rest] rest cert
    by simp
qed

lemma conninfo_loaded:
  assumes "config_load read = Inr cfg"
  shows "conninfo (cfg_postgres cfg) = Some (
    [(''host'', read ''PGHOST''), (''port'', digits (port_value (read ''PGPORT'') 5432)),
     (''dbname'', read ''PGDATABASE''), (''user'', read ''PGUSER''),
     (''password'', read ''PGPASSWORD''), (''sslmode'', ssl_mode read),
     (''connect_timeout'', ''3''), (''application_name'', ''bee'')] @
    (if ssl_mode read = ''verify-full'' then [(''sslrootcert'', read ''PGSSLROOTCERT'')] else []))"
proof -
  from assms have mode: "ssl_mode read \<in> {''disable'', ''require'', ''verify-full''}"
    by (simp add: config_load_cases loadable_def)
  let ?tail = "''connect_timeout=3 application_name=bee'' @
    (if ssl_mode read = ''verify-full'' then '' sslrootcert='' @ quote (read ''PGSSLROOTCERT'') else [])"
  have sslmode: "conninfo (''sslmode='' @ ssl_mode read @ '' '' @ ?tail) =
      map_option ((#) (''sslmode'', ssl_mode read)) (conninfo ?tail)"
    using conninfo_bare [of "''sslmode''" "ssl_mode read" "'' '' @ ?tail"] ssl_mode_bare [OF mode]
    by simp
  have port: "conninfo (''port='' @ digits n @ '' '' @ rest) =
      map_option ((#) (''port'', digits n)) (conninfo rest)" for n rest
    using conninfo_bare [of "''port''" "digits n" "'' '' @ rest"] digits_bare [of n] by simp
  note items = conninfo_quote [of "''host''", simplified] conninfo_quote [of "''dbname''", simplified]
    conninfo_quote [of "''user''", simplified] conninfo_quote [of "''password''", simplified]
    port [simplified] sslmode [simplified] conninfo_tail [simplified]
  from assms have "cfg_postgres cfg = ''host='' @ quote (read ''PGHOST'') @
      '' port='' @ digits (port_value (read ''PGPORT'') 5432) @
      '' dbname='' @ quote (read ''PGDATABASE'') @ '' user='' @ quote (read ''PGUSER'') @
      '' password='' @ quote (read ''PGPASSWORD'') @ '' sslmode='' @ ssl_mode read @ '' '' @ ?tail"
    by (simp add: config_load_cases)
  then show ?thesis by (simp add: items)
qed

lemma config_ranges:
  assumes "config_load read = Inr cfg"
  shows "unat (cfg_port cfg) = port_value (read ''API_PORT'') 8080 \<and> 1 \<le> unat (cfg_port cfg) \<and>
    unat (cfg_redis_port cfg) = port_value (read ''REDIS_PORT'') 6379 \<and> 1 \<le> unat (cfg_redis_port cfg) \<and>
    unat (cfg_threads cfg) = port_value (read ''API_THREADS'') 2 \<and>
    1 \<le> unat (cfg_threads cfg) \<and> unat (cfg_threads cfg) \<le> 64"
proof -
  have range: "usable_number maximum v \<Longrightarrow> 1 \<le> d \<Longrightarrow> d \<le> maximum \<Longrightarrow>
      1 \<le> port_value v d \<and> port_value v d \<le> maximum" for maximum v d
    by (auto simp: usable_number_def port_value_def)
  from assms have "usable_number 65535 (read ''API_PORT'')" "usable_number 64 (read ''API_THREADS'')"
    "usable_number 65535 (read ''REDIS_PORT'')"
    by (simp_all add: config_load_cases loadable_def)
  from this [THEN range] have
    "1 \<le> port_value (read ''API_PORT'') 8080 \<and> port_value (read ''API_PORT'') 8080 \<le> 65535"
    "1 \<le> port_value (read ''API_THREADS'') 2 \<and> port_value (read ''API_THREADS'') 2 \<le> 64"
    "1 \<le> port_value (read ''REDIS_PORT'') 6379 \<and> port_value (read ''REDIS_PORT'') 6379 \<le> 65535"
    by simp_all
  with config_load_fields [OF assms] show ?thesis by (simp add: unat_of_nat)
qed

subsection \<open>Properties\<close>

text \<open>
  C26. The connection string cannot be bent by its values: read back by libpq's grammar, the
  string that a loaded configuration holds gives exactly the host, database, user and
  password of the environment, byte for byte, whatever quotes, backslashes, spaces or
  equals signs they contain, with the port, the SSL mode and, under \<open>verify-full\<close>, the
  root certificate, and no other keyword.
\<close>

theorem config_conninfo:
  assumes "config_load read = Inr cfg"
  shows "conninfo (cfg_postgres cfg) = Some (
    [(''host'', read ''PGHOST''), (''port'', digits (port_value (read ''PGPORT'') 5432)),
     (''dbname'', read ''PGDATABASE''), (''user'', read ''PGUSER''),
     (''password'', read ''PGPASSWORD''), (''sslmode'', ssl_mode read),
     (''connect_timeout'', ''3''), (''application_name'', ''bee'')] @
    (if ssl_mode read = ''verify-full'' then [(''sslrootcert'', read ''PGSSLROOTCERT'')] else []))"
  by (rule conninfo_loaded [OF assms])

text \<open>
  Exactly the loadable environments load: every required value is set, is not the
  placeholder, has at most 4096 bytes and no line break; the environment name is one of the
  four; the numbers are decimal, positive and within their bounds (64 threads, 65535 for the
  ports); the SSL mode is one of the three, and in production and staging it is
  \<open>verify-full\<close> with a root certificate.
\<close>

lemma config_load_iff: "ok (config_load read) \<longleftrightarrow> loadable read"
  by (auto simp: ok_iff config_load_cases)

text \<open>
  The numbers of a loaded configuration are the numbers of the environment (or the
  defaults), never zero and never truncated by the casts to \<open>unsigned short\<close>.
\<close>

lemma config_numbers_exact:
  assumes "config_load read = Inr cfg"
  shows "unat (cfg_port cfg) = port_value (read ''API_PORT'') 8080 \<and> 1 \<le> unat (cfg_port cfg) \<and>
    unat (cfg_redis_port cfg) = port_value (read ''REDIS_PORT'') 6379 \<and> 1 \<le> unat (cfg_redis_port cfg) \<and>
    unat (cfg_threads cfg) = port_value (read ''API_THREADS'') 2 \<and>
    1 \<le> unat (cfg_threads cfg) \<and> unat (cfg_threads cfg) \<le> 64"
  by (rule config_ranges [OF assms])

subsection \<open>Witnesses\<close>

text \<open>A production environment, with a password that holds a quote and a backslash.\<close>

definition sample_environment :: environment where
  "sample_environment key =
     (case map_of [(''APP_ENV'', ''production''), (''PGSSLMODE'', ''verify-full''),
        (''PGSSLROOTCERT'', ''/certs/ca.pem''), (''PGHOST'', ''postgres''), (''PGDATABASE'', ''bee''),
        (''PGUSER'', ''bee''), (''PGPASSWORD'', [CHR ''a'', CHR 0x27, CHR ''b'', CHR 0x5C, CHR ''c'']),
        (''REDIS_HOST'', ''redis''), (''REDIS_PASSWORD'', ''secret''), (''API_PORT'', ''9000'')] key of
        None \<Rightarrow> [] | Some v \<Rightarrow> v)"

lemma sample_environment_loads: "\<exists>cfg. config_load sample_environment = Inr cfg"
proof -
  have "loadable sample_environment"
    by (simp add: loadable_def usable_def usable_number_def sample_environment_def ssl_mode_def
        line_break_def numeral_string_def is_digit_def digits_value_def)
  then show ?thesis by (simp add: config_load_cases)
qed

theorem config_conninfo_witness:
  "\<exists>cfg pairs. config_load sample_environment = Inr cfg \<and> conninfo (cfg_postgres cfg) = Some pairs \<and>
     map_of pairs ''password'' = Some [CHR ''a'', CHR 0x27, CHR ''b'', CHR 0x5C, CHR ''c''] \<and>
     map_of pairs ''sslmode'' = Some ''verify-full''"
proof -
  obtain cfg where cfg: "config_load sample_environment = Inr cfg" using sample_environment_loads by blast
  from config_conninfo [OF cfg] cfg show ?thesis
    by (simp add: sample_environment_def ssl_mode_def)
qed

lemma sample_numbers:
  "\<exists>cfg. config_load sample_environment = Inr cfg \<and> unat (cfg_port cfg) = 9000"
proof -
  obtain cfg where cfg: "config_load sample_environment = Inr cfg" using sample_environment_loads by blast
  from config_numbers_exact [OF cfg] cfg show ?thesis
    by (simp add: sample_environment_def port_value_def digits_value_def)
qed

end
