(* ===== verification/Startup.thy ===== *)
theory Startup
  imports Config Media_Integrity
begin

text \<open>
  services/api/src/main.cpp: how the API process is put together.  The initialisation of the
  libraries and the resolution of the Redis host are arguments; \<open>run\<close> is Drogon's event loop,
  which serves the routes of the other theories until it is told to quit.
\<close>

record platform =
  sodium_init_ok :: bool
  curl_init_ok :: bool
  vips_init_ok :: bool
  resolve :: "string \<Rightarrow> string \<Rightarrow> string option"   \<comment> \<open>\<open>getaddrinfo\<close> on host and port\<close>

record 'a server =
  sv_postgres :: string
  sv_redis :: string
  sv_redis_password :: string
  sv_executor :: "'a executor"
  sv_auth :: auth_service
  sv_storage :: s3_storage
  sv_port :: "16 word"
  sv_threads :: "32 word"
  sv_max_body :: nat

definition redis_address :: "platform \<Rightarrow> string \<Rightarrow> 16 word \<Rightarrow> string res" where
  "redis_address p host port = (case resolve p (c_str host) (digits (unat port)) of
     None \<Rightarrow> Inl (StdError ''Redis host resolution failed'') | Some address \<Rightarrow> Inr address)"

definition startup ::
  "platform \<Rightarrow> sodium \<Rightarrow> (string \<Rightarrow> string option) \<Rightarrow> (world, 'a server) act" where
  "startup p S env =
    bind_act (lift_res (from_environment env)) (\<lambda>config.
    bind_act (lift_res (throw_if (\<not> sodium_init_ok p \<or> \<not> curl_init_ok p \<or> \<not> vips_init_ok p)
      (StdError ''Dependency initialization failed''))) (\<lambda>_.
    bind_act (lift_res (redis_address p (cfg_redis_host config) (cfg_redis_port config))) (\<lambda>redis.
    bind_act (lift_res (required_env env ''ADMIN_ORIGIN'')) (\<lambda>origin.
    bind_act (make_auth S (cfg_environment config = ''production'' \<or> cfg_environment config = ''staging'') origin) (\<lambda>auth.
    bind_act (lift_res (make_storage env)) (\<lambda>st.
    ret \<lparr>sv_postgres = cfg_postgres config, sv_redis = redis, sv_redis_password = cfg_redis_password config,
         sv_executor = executor_init 4, sv_auth = auth, sv_storage = st,
         sv_port = cfg_port config, sv_threads = cfg_threads config, sv_max_body = 8 * 1024 * 1024\<rparr>))))))"

text \<open>The exit code of \<open>main\<close> and the operational events it logs.\<close>

definition api_main ::
  "platform \<Rightarrow> sodium \<Rightarrow> (string \<Rightarrow> string option) \<Rightarrow> world \<Rightarrow> (int \<times> string list) \<times> world" where
  "api_main p S env w =
    (case (startup p S env w :: nat server res \<times> world) of
       (Inl _, w') \<Rightarrow> ((1, [''startup_failed'']), w')
     | (Inr _, w') \<Rightarrow> ((0, [''starting'', ''stopped'']), w'))"

subsection \<open>A started server\<close>

abbreviation getenv_text :: "(string \<Rightarrow> string option) \<Rightarrow> string \<Rightarrow> string" where
  "getenv_text env key \<equiv> (case env key of None \<Rightarrow> [] | Some v \<Rightarrow> v)"

lemma required_env_Inr: "required_env env name = Inr v \<longleftrightarrow> env name = Some v \<and> v \<noteq> []"
  by (auto simp: required_env_def split: option.splits if_splits)

lemma make_auth_Inr:
  "make_auth S secure origin w = (Inr auth, w') \<Longrightarrow>
     auth_secure auth = secure \<and> auth_origin auth = origin \<and> origin \<noteq> [] \<and>
     (secure \<longrightarrow> starts_with origin ''https://'') \<and> w_db w' = w_db w \<and> w_objects w' = w_objects w"
  by (auto simp: make_auth_def bind_act_Inr hash_password_def draw_def split: option.splits)

lemma make_storage_Inr:
  "make_storage env = Inr st \<Longrightarrow>
     env ''S3_ENDPOINT'' = Some (st_endpoint st) \<and> env ''S3_BUCKET'' = Some (st_bucket st) \<and>
     bucket_name (st_bucket st) \<and> \<not> ends_with (st_endpoint st) ''/'' \<and>
     (env ''APP_ENV'' \<noteq> Some ''development'' \<and> env ''APP_ENV'' \<noteq> Some ''test'' \<longrightarrow> starts_with (st_endpoint st) ''https://'')"
  by (auto simp: make_storage_def bind_res_eq_Inr required_env_Inr)

lemma startup_Inr:
  assumes "startup p S env w = (Inr sv, w')"
  obtains cfg where "config_load (getenv_text env) = Inr cfg" "sv_postgres sv = cfg_postgres cfg"
    "sv_executor sv = executor_init 4" "sv_port sv = cfg_port cfg" "sv_threads sv = cfg_threads cfg"
    "sv_max_body sv = 8388608" "env ''ADMIN_ORIGIN'' = Some (auth_origin (sv_auth sv))"
    "make_storage env = Inr (sv_storage sv)"
    "auth_secure (sv_auth sv) \<longleftrightarrow> cfg_environment cfg = ''production'' \<or> cfg_environment cfg = ''staging''"
    "auth_secure (sv_auth sv) \<longrightarrow> starts_with (auth_origin (sv_auth sv)) ''https://''"
    "w_db w' = w_db w" "w_objects w' = w_objects w"
proof -
  from assms obtain cfg redis origin auth st w1 where
    "from_environment env = Inr cfg" and origin: "required_env env ''ADMIN_ORIGIN'' = Inr origin"
    and auth: "make_auth S (cfg_environment cfg = ''production'' \<or> cfg_environment cfg = ''staging'') origin w = (Inr auth, w1)"
    and st: "make_storage env = Inr st" "w' = w1"
    and sv: "sv = \<lparr>sv_postgres = cfg_postgres cfg, sv_redis = redis, sv_redis_password = cfg_redis_password cfg,
         sv_executor = executor_init 4, sv_auth = auth, sv_storage = st,
         sv_port = cfg_port cfg, sv_threads = cfg_threads cfg, sv_max_body = 8 * 1024 * 1024\<rparr>"
    by (auto simp: startup_def bind_act_Inr)
  moreover note make_auth_Inr [OF auth]
  moreover from origin have "env ''ADMIN_ORIGIN'' = Some origin" by (simp add: required_env_Inr)
  ultimately show thesis by (intro that [of cfg]) (simp_all add: from_environment_def)
qed

text \<open>
  C33. A server that starts in production or staging is closed.  Its database connection is
  verified against a root certificate, the session cookie is only sent over TLS, the admin
  origin is an HTTPS origin and so is the endpoint of the object storage, in a bucket with a
  valid name; the port and the threads are in range, the four workers of the executor are idle
  and its queue empty; and the start has written nothing.
\<close>

theorem production_start_is_closed:
  assumes "startup p S env w = (Inr sv, w')" and "env ''APP_ENV'' = Some stage" and "stage = ''production'' \<or> stage = ''staging''"
  shows "(\<exists>pairs cert. conninfo (sv_postgres sv) = Some pairs \<and> map_of pairs ''sslmode'' = Some ''verify-full'' \<and>
      map_of pairs ''sslrootcert'' = Some cert \<and> cert \<noteq> []) \<and>
    auth_secure (sv_auth sv) \<and> starts_with (auth_origin (sv_auth sv)) ''https://'' \<and>
    starts_with (st_endpoint (sv_storage sv)) ''https://'' \<and> bucket_name (st_bucket (sv_storage sv)) \<and>
    1 \<le> unat (sv_port sv) \<and> 1 \<le> unat (sv_threads sv) \<and> unat (sv_threads sv) \<le> 64 \<and>
    queue (sv_executor sv) = [] \<and> workers (sv_executor sv) = replicate 4 Waiting \<and>
    w_db w' = w_db w \<and> w_objects w' = w_objects w"
proof -
  from assms(1) obtain cfg where cfg: "config_load (getenv_text env) = Inr cfg" and sv: "sv_postgres sv = cfg_postgres cfg"
    "sv_executor sv = executor_init 4" "sv_port sv = cfg_port cfg" "sv_threads sv = cfg_threads cfg"
    "make_storage env = Inr (sv_storage sv)"
    "auth_secure (sv_auth sv) \<longleftrightarrow> cfg_environment cfg = ''production'' \<or> cfg_environment cfg = ''staging''"
    "auth_secure (sv_auth sv) \<longrightarrow> starts_with (auth_origin (sv_auth sv)) ''https://''"
    "w_db w' = w_db w" "w_objects w' = w_objects w"
    by (rule startup_Inr)
  from cfg have loaded: "loadable (getenv_text env)" and stage: "cfg_environment cfg = getenv_text env ''APP_ENV''"
    by (simp_all add: config_load_cases)
  from loaded assms(2,3) have mode: "ssl_mode (getenv_text env) = ''verify-full''"
    and cert: "getenv_text env ''PGSSLROOTCERT'' \<noteq> []"
    by (auto simp: loadable_def usable_def)
  have tls: "\<exists>pairs cert. conninfo (sv_postgres sv) = Some pairs \<and> map_of pairs ''sslmode'' = Some ''verify-full'' \<and>
      map_of pairs ''sslrootcert'' = Some cert \<and> cert \<noteq> []"
    using cert by (simp add: sv(1) conninfo_loaded [OF cfg] mode)
  have numbers: "1 \<le> unat (sv_port sv) \<and> 1 \<le> unat (sv_threads sv) \<and> unat (sv_threads sv) \<le> 64"
    using config_ranges [OF cfg] sv(3,4) by simp
  show ?thesis
    using tls numbers sv make_storage_Inr [OF sv(5)] stage assms(2,3) by (auto simp: executor_init_def)
qed

subsection \<open>An example\<close>

definition sample_getenv :: "string \<Rightarrow> string option" where
  "sample_getenv key =
     (case map_of [(''ADMIN_ORIGIN'', ''https://admin.bee.md''), (''S3_ENDPOINT'', ''https://s3.bee.md''),
        (''S3_BUCKET'', ''bee-media''), (''S3_ACCESS_KEY'', ''access''), (''S3_SECRET_KEY'', ''secret''),
        (''S3_REGION'', ''eu'')] key of
        Some v \<Rightarrow> Some v
      | None \<Rightarrow> if sample_environment key = [] then None else Some (sample_environment key))"

definition sample_platform :: platform where
  "sample_platform = \<lparr>sodium_init_ok = True, curl_init_ok = True, vips_init_ok = True, resolve = (\<lambda>_ _. Some ''10.0.0.2'')\<rparr>"

lemma sample_getenv_loads: "\<exists>cfg. from_environment sample_getenv = Inr cfg"
proof -
  have "loadable (getenv_text sample_getenv)"
    by (simp add: loadable_def usable_def usable_number_def sample_getenv_def sample_environment_def ssl_mode_def
        line_break_def numeral_string_def is_digit_def digits_value_def)
  then show ?thesis by (simp add: config_load_cases from_environment_def)
qed

lemma sample_make_storage: "make_storage sample_getenv = Inr sample_storage"
proof -
  have "bucket_name ''bee-media''" by code_simp
  then show ?thesis
    by (simp add: make_storage_def required_env_def sample_getenv_def sample_environment_def sample_storage_def
        ends_with_def starts_with_def throw_if_def)
qed

lemma sample_startup: "\<exists>sv w'. startup sample_platform sample_sodium sample_getenv sample_world = (Inr (sv :: nat server), w')"
proof -
  obtain cfg where "from_environment sample_getenv = Inr cfg" using sample_getenv_loads by blast
  moreover have "required_env sample_getenv ''ADMIN_ORIGIN'' = Inr ''https://admin.bee.md''"
    by (simp add: required_env_def sample_getenv_def)
  ultimately show ?thesis
    by (simp add: startup_def bind_act_def sample_platform_def redis_address_def sample_make_storage make_auth_def
        hash_password_def draw_def sample_sodium_def starts_with_def throw_if_def)
qed

theorem production_start_is_closed_witness:
  "\<exists>sv w'. startup sample_platform sample_sodium sample_getenv sample_world = (Inr (sv :: nat server), w') \<and>
     starts_with (auth_origin (sv_auth sv)) ''https://'' \<and> auth_secure (sv_auth sv)"
proof -
  obtain sv :: "nat server" and w' where run: "startup sample_platform sample_sodium sample_getenv sample_world = (Inr sv, w')"
    using sample_startup by blast
  have "sample_getenv ''APP_ENV'' = Some ''production''"
    by (simp add: sample_getenv_def sample_environment_def)
  from production_start_is_closed [OF run this] run show ?thesis by blast
qed

end
