(* ===== verification/Provisioning.thy ===== *)
theory Provisioning
  imports Auth_Sessions Config
begin

text \<open>
  admin\_create.cpp: the command that creates an administrator from one JSON document on its
  standard input, and what a later sign-in makes of it.
\<close>

subsection \<open>The command\<close>

text \<open>The rows that migration 0002 puts into \<open>roles\<close>; nothing changes that table.\<close>

definition seeded_roles :: "string list" where
  "seeded_roles = [''ADMIN'', ''CONTENT_MANAGER'']"

definition create_admin_statement :: "postgres \<Rightarrow> string \<Rightarrow> string \<Rightarrow> unit statement" where
  "create_admin_statement P typed hash d =
    (let email = c_str typed; key = random_uuid P (uuid_counter d) in
     bind_res (throw_if (email \<noteq> lower_text P email) Check_Violation) (\<lambda>_.
     bind_res (throw_if (list_ex (\<lambda>u. u_id u = key \<or> u_email u = email) (users d)) Unique_Violation) (\<lambda>_.
     bind_res (throw_if (''ADMIN'' \<notin> set seeded_roles) Foreign_Key_Violation) (\<lambda>_.
     bind_res (throw_if ((key, ''ADMIN'') \<in> set (user_roles d)) Unique_Violation) (\<lambda>_.
     Inr ((), d\<lparr>uuid_counter := Suc (uuid_counter d),
       users := users d @ [\<lparr>u_id = key, u_email = email, u_password_hash = hash, u_active = True\<rparr>],
       user_roles := user_roles d @ [(key, ''ADMIN'')]\<rparr>))))))"

text \<open>\<open>std::getline\<close>: up to the first newline.\<close>

definition first_line :: "string \<Rightarrow> string" where
  "first_line input = takeWhile (\<lambda>c. c \<noteq> CHR 0x0A) input"

definition read_credentials :: "jsoncpp \<Rightarrow> string \<Rightarrow> (string \<times> string) res" where
  "read_credentials J input =
    bind_res (decode J (first_line input)) (\<lambda>doc.
    bind_res (bind_res (get_at J doc ''email'') (as_string J)) (\<lambda>email.
    bind_res (bind_res (get_at J doc ''password'') (as_string J)) (\<lambda>password.
    bind_res (throw_if (email = [] \<or> 254 < length email \<or> CHR ''@'' \<notin> set email \<or> length password < 12 \<or> 256 < length password)
      (StdError ''Invalid provisioning input'')) (\<lambda>_.
    Inr (email, password)))))"

definition create_admin ::
  "jsoncpp \<Rightarrow> postgres \<Rightarrow> sodium \<Rightarrow> (string \<Rightarrow> string option) \<Rightarrow> string \<Rightarrow> (world, unit) act" where
  "create_admin J P S env input =
    bind_act (lift_res (from_environment env)) (\<lambda>config.
    bind_act (lift_res (read_credentials J input)) (\<lambda>(raw, password).
    let email = lower raw in
    bind_act (hash_password S password) (\<lambda>hash.
    exec_sql (create_admin_statement P email hash))))"

text \<open>\<open>main\<close>: the exit code, standard output and standard error.\<close>

definition admin_main ::
  "jsoncpp \<Rightarrow> postgres \<Rightarrow> sodium \<Rightarrow> bool \<Rightarrow> (string \<Rightarrow> string option) \<Rightarrow> string \<Rightarrow> world \<Rightarrow> (int \<times> string \<times> string) \<times> world" where
  "admin_main J P S sodium_ready env input w =
    (if \<not> sodium_ready then ((1, [], []), w)
     else case create_admin J P S env input w of
            (Inl _, w') \<Rightarrow> ((1, [], ''Administrator creation failed; check input, migrations and duplicate email''), w')
          | (Inr _, w') \<Rightarrow> ((0, ''Administrator created'', []), w'))"

subsection \<open>What it stores\<close>

lemma create_admin_statement_Inr:
  "create_admin_statement P email hash d = Inr (x, d') \<Longrightarrow>
     random_uuid P (uuid_counter d) \<notin> u_id ` set (users d) \<and> c_str email \<notin> u_email ` set (users d) \<and> c_str email = lower_text P (c_str email) \<and>
     d' = d\<lparr>uuid_counter := Suc (uuid_counter d),
       users := users d @ [\<lparr>u_id = random_uuid P (uuid_counter d), u_email = c_str email, u_password_hash = hash, u_active = True\<rparr>],
       user_roles := user_roles d @ [(random_uuid P (uuid_counter d), ''ADMIN'')]\<rparr>"
  by (auto simp: create_admin_statement_def Let_def bind_res_eq_Inr list_ex_iff)

lemma create_admin_Inr:
  assumes "create_admin J P S env input w = (Inr x, w')"
  shows "\<exists>raw password hash. read_credentials J input = Inr (raw, password) \<and> pwhash S (w_random w) password = Some hash \<and>
    create_admin_statement P (lower raw) hash (w_db w) = Inr ((), w_db w')"
proof -
  from assms obtain raw password hash w1 where read: "read_credentials J input = Inr (raw, password)"
    and hash: "hash_password S password w = (Inr hash, w1)"
    and stmt: "exec_sql (create_admin_statement P (lower raw) hash) w1 = (Inr x, w')"
    by (auto simp: create_admin_def Let_def bind_act_Inr split: prod.splits)
  from hash have "pwhash S (w_random w) password = Some hash" "w1 = w\<lparr>w_random := Suc (w_random w)\<rparr>"
    by (auto simp: hash_password_def bind_act_Inr draw_def split: option.splits)
  with read exec_sql_Inr [OF stmt] show ?thesis by auto
qed

lemma credentials_bounds:
  "read_credentials J input = Inr (raw, password) \<Longrightarrow>
     raw \<noteq> [] \<and> length raw \<le> 254 \<and> 12 \<le> length password \<and> length password \<le> 256"
  by (auto simp: read_credentials_def bind_res_eq_Inr)

text \<open>
  C34. A created administrator can sign in.  When the command exits with 0 it has added one active
  user, with the e-mail of the input in lower case (up to a NUL character) and the role \<open>ADMIN\<close>,
  changed no other table, and
  a later sign-in with that password and the e-mail in any spelling is never refused as wrong
  credentials while the users are as the command left them: unless the database fails or the
  attempts are used up it returns a session of that user.
\<close>

theorem created_admin_signs_in:
  assumes "sodium_ok S" and "users_ok P (w_db w)" 
    and "uuid_in P (random_uuid P (uuid_counter (w_db w))) = Some (random_uuid P (uuid_counter (w_db w)))"
    and "admin_main J P S ready env input w = ((0, out, err), w')"
  shows "\<exists>raw password u. read_credentials J input = Inr (raw, password) \<and> u_email u = c_str (lower raw) \<and> u_active u \<and>
    u_id u \<notin> u_id ` set (users (w_db w)) \<and>
    w_db w' = (w_db w)\<lparr>uuid_counter := Suc (uuid_counter (w_db w)), users := users (w_db w) @ [u],
      user_roles := user_roles (w_db w) @ [(u_id u, ''ADMIN'')]\<rparr> \<and>
    (\<forall>A typed address w1 r w2. users (w_db w1) = users (w_db w') \<longrightarrow> lower typed = lower raw \<longrightarrow>
      login P S A typed password address w1 = (r, w2) \<longrightarrow>
      (\<exists>m. r = Inl (DbError m)) \<or> r = Inl (Error 429 ''RATE_LIMITED'' ''Too many attempts. Try again later'') \<or>
      (\<exists>token. r = Inr (token, \<lparr>pr_id = u_id u, pr_email = lower raw, pr_permissions = JArr []\<rparr>)))"
proof -
  from assms(4) obtain x where "create_admin J P S env input w = (Inr x, w')"
    by (auto simp: admin_main_def split: if_splits sum.splits prod.splits)
  from create_admin_Inr [OF this] obtain raw password hash where
    read: "read_credentials J input = Inr (raw, password)" and hash: "pwhash S (w_random w) password = Some hash"
    and stmt: "create_admin_statement P (lower raw) hash (w_db w) = Inr ((), w_db w')" by blast
  let ?u = "\<lparr>u_id = random_uuid P (uuid_counter (w_db w)), u_email = c_str (lower raw), u_password_hash = hash, u_active = True\<rparr>"
  from create_admin_statement_Inr [OF stmt] have fresh: "u_id ?u \<notin> u_id ` set (users (w_db w))"
    and absent: "c_str (lower raw) \<notin> u_email ` set (users (w_db w))"
    and db: "w_db w' = (w_db w)\<lparr>uuid_counter := Suc (uuid_counter (w_db w)), users := users (w_db w) @ [?u],
      user_roles := user_roles (w_db w) @ [(u_id ?u, ''ADMIN'')]\<rparr>" by simp_all
  from assms(1) hash have verify: "pwhash_verify S (c_str hash) password" by (simp add: sodium_ok_def)
  have ok: "users_ok P (w_db w')" using assms(2,3) fresh absent by (auto simp: users_ok_def db)
  have signs: "(\<exists>m. r = Inl (DbError m)) \<or> r = Inl (Error 429 ''RATE_LIMITED'' ''Too many attempts. Try again later'') \<or>
      (\<exists>token. r = Inr (token, \<lparr>pr_id = u_id ?u, pr_email = lower raw, pr_permissions = JArr []\<rparr>))"
    if "users (w_db w1) = users (w_db w')" "lower typed = lower raw" "login P S A typed password address w1 = (r, w2)"
    for A typed address w1 r w2
  proof -
    have "\<forall>v \<in> set (users (w_db w)). u_email v \<noteq> c_str (lower raw)" using absent by force
    then have match: "matching_user S (w_db w1) (lower raw) password v \<longleftrightarrow> v = ?u" for v
      using that(1) verify by (auto simp: matching_user_def db)
    have "length typed = length raw" using that(2) by (metis length_lower)
    with credentials_bounds [OF read] have bounds: "\<not> (typed = [] \<or> 254 < length typed \<or> password = [] \<or> 256 < length password)"
      by auto
    have "users_ok P (w_db w1)" using ok that(1) by (simp add: users_ok_def)
    from login_stages [OF that(3) this] bounds show ?thesis by (auto simp: match that(2))
  qed
  from read fresh db signs show ?thesis by (intro exI [of _ raw] exI [of _ password] exI [of _ ?u]) simp
qed

subsection \<open>An example\<close>

definition sample_input :: string where
  "sample_input = show_json (JObj [(''email'', JStr ''Root@bee.md''), (''password'', JStr ''correct horse'')])"

lemma sample_read_credentials:
  "read_credentials sample_jsoncpp sample_input = Inr (''Root@bee.md'', ''correct horse'')"
proof -
  have line: "first_line sample_input = sample_input" by code_simp
  have doc: "decode sample_jsoncpp sample_input = Inr (JObj [(''email'', JStr ''Root@bee.md''), (''password'', JStr ''correct horse'')])"
    unfolding decode_ok sample_input_def sample_jsoncpp_def jsoncpp.simps by (rule sample_parse_show) simp
  show ?thesis
    by (simp add: read_credentials_def line doc jsoncpp_rules [OF sample_jsoncpp_ok])
qed

lemma sample_admin_main:
  "\<exists>out err w'. admin_main sample_jsoncpp sample_postgres sample_sodium True (\<lambda>k. Some (sample_environment k)) sample_input sample_world =
     ((0, out, err), w')"
proof -
  have config: "\<exists>cfg. from_environment (\<lambda>k. Some (sample_environment k)) = Inr cfg"
    using sample_environment_loads by (auto simp: from_environment_def ok_iff)
  have names: "lower ''Root@bee.md'' = ''root@bee.md''" "lower ''root@bee.md'' = ''root@bee.md''"
    "sample_admin \<noteq> sample_uuid 0" "sample_uuid 0 \<noteq> sample_admin" by code_simp+
  show ?thesis
    using config by (auto simp: admin_main_def create_admin_def bind_act_def sample_read_credentials names hash_password_def
        draw_def exec_sql_def create_admin_statement_def sample_postgres_def sample_sodium_def throw_if_def seeded_roles_def
        Let_def sample_world_def sample_db_def empty_db_def)
qed

theorem created_admin_signs_in_witness:
  "\<exists>u \<in> set (users (w_db (snd (admin_main sample_jsoncpp sample_postgres sample_sodium True
      (\<lambda>k. Some (sample_environment k)) sample_input sample_world)))). u_active u \<and> u_email u = ''root@bee.md''"
proof -
  obtain out err w' where run: "admin_main sample_jsoncpp sample_postgres sample_sodium True
      (\<lambda>k. Some (sample_environment k)) sample_input sample_world = ((0, out, err), w')"
    using sample_admin_main by blast
  have "uuid_in sample_postgres (random_uuid sample_postgres (uuid_counter (w_db sample_world))) =
      Some (random_uuid sample_postgres (uuid_counter (w_db sample_world)))"
    by (simp add: sample_postgres_def sample_world_def sample_db_def empty_db_def) code_simp
  moreover have "c_str (lower ''Root@bee.md'') = ''root@bee.md''" by code_simp
  ultimately show ?thesis
    using created_admin_signs_in [OF sample_sodium_ok sample_users_ok _ run] sample_read_credentials run by auto
qed

end
