(* ===== verification/Outbox.thy ===== *)
theory Outbox
  imports Database "HOL-Library.Product_Lexorder"
begin

text \<open>
  services/worker: the statement of OutboxRepository.cpp that parks the events nobody handles
  yet, over the table \<open>outbox_events\<close> (migration 0001), and the loop of the worker's main.cpp
  around it.  The table is apart from those of the catalog and no other code writes it.  A
  statement takes no time, so a turn lasts as long as its sleeps; the stop signal comes during a
  sleep (one that comes during the statement is seen by the first test after it), and the write of
  the heartbeat file is taken to succeed.
\<close>

subsection \<open>The table and the statement\<close>

record event =
  e_id :: string
  e_type :: string
  e_aggregate :: string
  e_payload :: json
  e_created :: int
  e_available :: int
  e_processed :: "int option"
  e_attempts :: int
  e_error :: "string option"
  e_dead :: "int option"

text \<open>Rows that another transaction has locked are skipped.\<close>

definition pending :: "event \<Rightarrow> bool" where
  "pending e \<longleftrightarrow> e_processed e = None \<and> e_dead e = None"

definition due :: "string list \<Rightarrow> int \<Rightarrow> event \<Rightarrow> bool" where
  "due locked now e \<longleftrightarrow> pending e \<and> e_available e \<le> now \<and> e_id e \<notin> set locked"

definition batch :: "string list \<Rightarrow> int \<Rightarrow> event list \<Rightarrow> event list" where
  "batch locked now events = take 20 (sort_key (\<lambda>e. (e_available e, e_created e)) (filter (due locked now) events))"

definition park :: "int \<Rightarrow> event \<Rightarrow> event" where
  "park now e = e\<lparr>e_attempts := e_attempts e + 1, e_available := now + 60000000,
     e_error := Some ''UNHANDLED_EVENT_TYPE'', e_dead := (if 5 \<le> e_attempts e + 1 then Some now else None)\<rparr>"

definition park_batch :: "string list \<Rightarrow> int \<Rightarrow> event list \<Rightarrow> (nat \<times> event list) sql" where
  "park_batch locked now events =
    (let ids = map e_id (batch locked now events) in
     bind_res (throw_if (list_ex (\<lambda>e. 2 ^ 31 \<le> e_attempts e + 1) (batch locked now events)) Other_Sql_Error) (\<lambda>_.
     Inr (length (filter (\<lambda>e. e_id e \<in> set ids) events),
          map (\<lambda>e. if e_id e \<in> set ids then park now e else e) events)))"

subsection \<open>The worker\<close>

record log_entry =
  log_level :: string
  log_event :: string
  log_count :: "nat option"

record worker_state =
  ws_events :: "event list"
  ws_now :: int                      \<comment> \<open>microseconds\<close>
  ws_stopping :: bool
  ws_heartbeat :: "int option"       \<comment> \<open>time of the last write of the heartbeat file\<close>
  ws_log :: "log_entry list"

text \<open>
  What one turn of the loop meets: the fate of its statement, the rows other workers hold, and
  the sleep during which a signal arrives, if any.
\<close>

record tick =
  tk_fate :: fate
  tk_locked :: "string list"
  tk_signal :: "nat option"

definition append_log :: "string \<Rightarrow> string \<Rightarrow> nat option \<Rightarrow> worker_state \<Rightarrow> worker_state" where
  "append_log level event count s = s\<lparr>ws_log := ws_log s @ [\<lparr>log_level = level, log_event = event, log_count = count\<rparr>]\<rparr>"

text \<open>The \<open>try\<close> block: the heartbeat is written last.\<close>

definition poll :: "tick \<Rightarrow> worker_state \<Rightarrow> worker_state" where
  "poll t s =
    (if tk_fate t = Refused then append_log ''error'' ''poll_failed'' None s
     else case park_batch (tk_locked t) (ws_now s) (ws_events s) of
            Inl _ \<Rightarrow> append_log ''error'' ''poll_failed'' None s
          | Inr (count, events) \<Rightarrow>
              if tk_fate t = Lost then append_log ''error'' ''poll_failed'' None (s\<lparr>ws_events := events\<rparr>)
              else (if 0 < count then append_log ''warn'' ''unhandled_events_deferred'' (Some count) else (\<lambda>s. s))
                     (s\<lparr>ws_events := events, ws_heartbeat := Some (ws_now s)\<rparr>))"

text \<open>At most twenty sleeps of 100 ms; a signal sets the flag during one of them.\<close>

function wait :: "nat option \<Rightarrow> nat \<Rightarrow> worker_state \<Rightarrow> worker_state" where
  "wait signal i s =
    (if 20 \<le> i \<or> ws_stopping s then s
     else wait signal (Suc i) (s\<lparr>ws_now := ws_now s + 100000, ws_stopping := (signal = Some i)\<rparr>))"
  by pat_completeness auto

termination
  by (relation "measure (\<lambda>(_, i, _). 20 - i)") auto

declare wait.simps [simp del]

fun worker_loop :: "tick list \<Rightarrow> worker_state \<Rightarrow> worker_state" where
  "worker_loop [] s = s"
| "worker_loop (t # ts) s =
     (if ws_stopping s then s else worker_loop ts (wait (tk_signal t) 0 (poll t s)))"

text \<open>
  \<open>main\<close>: its exit code and what it logs, given whether the configuration loads, over a run that
  ends with the schedule or with a signal.
\<close>

definition worker_main :: "bool \<Rightarrow> tick list \<Rightarrow> worker_state \<Rightarrow> int \<times> worker_state" where
  "worker_main configured ts s =
    (if \<not> configured then (1, append_log ''error'' ''startup_failed'' None s)
     else (0, append_log ''info'' ''stopped'' None (worker_loop ts (append_log ''info'' ''started'' None s))))"

subsection \<open>The batch\<close>

lemma batch_due: "e \<in> set (batch locked now events) \<Longrightarrow> e \<in> set events \<and> due locked now e"
  unfolding batch_def by (drule in_set_takeD) simp

lemma batch_length: "length (batch locked now events) = min 20 (length (filter (due locked now) events))"
  by (simp add: batch_def min.commute)

lemma filter_in_batch:
  assumes "distinct (map e_id events)"
  shows "length (filter (\<lambda>e. e_id e \<in> set (map e_id (batch locked now events))) events) = length (batch locked now events)"
proof -
  have sub: "set (batch locked now events) \<subseteq> set events" using batch_due by blast
  have "distinct (map e_id (sort_key (\<lambda>e. (e_available e, e_created e)) (filter (due locked now) events)))"
    using assms by (simp add: distinct_map inj_on_def)
  then have dist: "distinct (map e_id (batch locked now events))"
    unfolding batch_def take_map [symmetric] by (rule distinct_take)
  have inj: "inj_on e_id (set events)" using assms by (simp add: distinct_map)
  let ?chosen = "filter (\<lambda>e. e_id e \<in> set (map e_id (batch locked now events))) events"
  have "distinct ?chosen" using assms by (simp add: distinct_map)
  moreover have "set ?chosen = set (batch locked now events)" using sub inj by (auto simp: inj_on_def)
  moreover have "distinct (batch locked now events)" using dist by (simp add: distinct_map)
  ultimately show ?thesis by (metis distinct_card)
qed

text \<open>The batch holds the earliest of the due events.\<close>

lemma batch_earliest:
  assumes "e \<in> set events" and "due locked now e" and "e \<notin> set (batch locked now events)"
    and "b \<in> set (batch locked now events)"
  shows "(e_available b, e_created b) \<le> (e_available e, e_created e)"
proof -
  let ?xs = "sort_key (\<lambda>e. (e_available e, e_created e)) (filter (due locked now) events)"
  have "e \<in> set (take 20 ?xs @ drop 20 ?xs)" using assms(1,2) by (simp only: append_take_drop_id) simp
  then have "e \<in> set (drop 20 ?xs)" using assms(3) unfolding set_append batch_def by blast
  moreover have "sorted (map (\<lambda>e. (e_available e, e_created e)) (take 20 ?xs @ drop 20 ?xs))"
    by (simp only: append_take_drop_id sorted_sort_key)
  ultimately show ?thesis using assms(4) unfolding batch_def map_append sorted_append by auto
qed

subsection \<open>Work left\<close>

text \<open>How often the pending events can still be parked.\<close>

definition tries_left :: "event \<Rightarrow> nat" where
  "tries_left e = (if pending e then nat (5 - e_attempts e) else 0)"

definition tries :: "event list \<Rightarrow> nat" where
  "tries events = sum_list (map tries_left events)"

text \<open>Events as the migrations and this statement leave them.\<close>

definition outbox_ok :: "event list \<Rightarrow> bool" where
  "outbox_ok events \<longleftrightarrow> distinct (map e_id events) \<and> (\<forall>e \<in> set events. 0 \<le> e_attempts e \<and>
     (e_processed e = None \<or> e_dead e = None) \<and> (pending e \<longrightarrow> e_attempts e < 5))"

lemma park_tries: "pending e \<Longrightarrow> e_attempts e < 5 \<Longrightarrow> tries_left e = Suc (tries_left (park now e))"
  by (auto simp: tries_left_def park_def pending_def)

lemma sum_list_decrease:
  "(\<And>x. x \<in> set xs \<Longrightarrow> Q x \<Longrightarrow> f x = Suc (f (g x))) \<Longrightarrow>
     sum_list (map f (map (\<lambda>x. if Q x then g x else x) xs)) + length (filter Q xs) = sum_list (map f xs)"
  by (induction xs) fastforce+

lemma chosen_due:
  assumes "distinct (map e_id events)" and "e \<in> set events" and "e_id e \<in> set (map e_id (batch locked now events))"
  shows "e \<in> set (batch locked now events) \<and> due locked now e"
proof -
  from assms(3) obtain b where b: "b \<in> set (batch locked now events)" "e_id b = e_id e" by auto
  with batch_due have "b \<in> set events" "due locked now b" by blast+
  with assms(1,2) b show ?thesis by (metis distinct_map inj_onD)
qed

lemma park_batch_Inr:
  assumes ok: "outbox_ok events"
  obtains events' where "park_batch locked now events = Inr (length (batch locked now events), events')"
    "events' = map (\<lambda>e. if e_id e \<in> set (map e_id (batch locked now events)) then park now e else e) events"
    "outbox_ok events'" "tries events' + length (batch locked now events) = tries events"
proof -
  let ?Q = "\<lambda>e. e_id e \<in> set (map e_id (batch locked now events))"
  let ?events' = "map (\<lambda>e. if ?Q e then park now e else e) events"
  have dist: "distinct (map e_id events)" using ok by (simp add: outbox_ok_def)
  have chosen: "pending e \<and> e_attempts e < 5 \<and> 0 \<le> e_attempts e" if "e \<in> set events" "?Q e" for e
    using chosen_due [OF dist that] ok that(1) by (auto simp: outbox_ok_def due_def)
  have "\<not> list_ex (\<lambda>e. 2 ^ 31 \<le> e_attempts e + 1) (batch locked now events)"
    using batch_due [of _ locked now events] chosen by (fastforce simp: list_ex_iff)
  then have "park_batch locked now events = Inr (length (batch locked now events), ?events')"
    using filter_in_batch [OF dist, of locked now] by (simp add: park_batch_def Let_def)
  moreover have "outbox_ok ?events'"
    using ok chosen by (auto simp: outbox_ok_def park_def pending_def o_def if_distrib cong: if_cong split: if_splits)
  moreover have "tries ?events' + length (batch locked now events) = tries events"
    using sum_list_decrease [of events ?Q tries_left "park now"] chosen park_tries filter_in_batch [OF dist, of locked now]
    by (simp add: tries_def)
  ultimately show thesis by (rule that [OF _ refl])
qed

text \<open>Successive statements of one worker, at the given times, with no row locked.\<close>

fun poll_all :: "int list \<Rightarrow> event list \<Rightarrow> event list" where
  "poll_all [] events = events"
| "poll_all (now # moments) events =
     (case park_batch [] now events of Inl _ \<Rightarrow> events | Inr (_, events') \<Rightarrow> poll_all moments events')"

text \<open>What may become of an event.\<close>

definition carried :: "event \<Rightarrow> event \<Rightarrow> bool" where
  "carried e f \<longleftrightarrow> e_id f = e_id e \<and> e_type f = e_type e \<and> e_aggregate f = e_aggregate e \<and>
     e_payload f = e_payload e \<and> e_created f = e_created e \<and> e_processed f = e_processed e \<and>
     (\<not> pending e \<longrightarrow> f = e) \<and>
     (pending e \<longrightarrow> pending f \<or> e_dead f \<noteq> None \<and> e_attempts f = 5 \<and> e_error f = Some ''UNHANDLED_EVENT_TYPE'')"

lemma carried_refl: "carried e e"
  by (simp add: carried_def)

lemma carried_trans: "carried e f \<Longrightarrow> carried f g \<Longrightarrow> carried e g"
  unfolding carried_def by (cases "pending f") auto

lemma carried_park: "pending e \<Longrightarrow> e_attempts e < 5 \<Longrightarrow> carried e (park now e)"
  by (auto simp: carried_def park_def pending_def)

lemma list_all2_map_self: "(\<And>x. x \<in> set xs \<Longrightarrow> R x (f x)) \<Longrightarrow> list_all2 R xs (map f xs)"
  by (induction xs) auto

lemma tries_zero:
  assumes "outbox_ok events" and "tries events = 0" and "e \<in> set events"
  shows "\<not> pending e"
proof
  assume "pending e"
  with assms(1,3) have "e_attempts e < 5" by (simp add: outbox_ok_def)
  moreover have "tries_left e = 0" using assms(2,3) by (simp add: tries_def sum_list_eq_0_iff)
  ultimately show False using \<open>pending e\<close> by (simp add: tries_left_def)
qed

lemma poll_all_drains:
  "outbox_ok events \<Longrightarrow> tries events \<le> length moments \<Longrightarrow>
     (\<forall>e \<in> set events. pending e \<longrightarrow> moments \<noteq> [] \<longrightarrow> e_available e \<le> hd moments) \<Longrightarrow>
     sorted_wrt (\<lambda>s t. s + 60000000 \<le> t) moments \<Longrightarrow>
     outbox_ok (poll_all moments events) \<and> tries (poll_all moments events) = 0 \<and>
     list_all2 carried events (poll_all moments events)"
proof (induction moments arbitrary: events)
  case Nil
  then show ?case by (simp add: list_all2_refl carried_refl)
next
  case (Cons now moments)
  let ?b = "batch [] now events"
  obtain events' where step: "park_batch [] now events = Inr (length ?b, events')"
    "events' = map (\<lambda>e. if e_id e \<in> set (map e_id ?b) then park now e else e) events"
    "outbox_ok events'" "tries events' + length ?b = tries events"
    by (rule park_batch_Inr [OF Cons.prems(1), of "[]" now])
  have dist: "distinct (map e_id events)" using Cons.prems(1) by (simp add: outbox_ok_def)
  have chosen: "pending e \<and> e_attempts e < 5" if "e \<in> set events" "e_id e \<in> set (map e_id ?b)" for e
    using chosen_due [OF dist that] Cons.prems(1) that(1) by (auto simp: outbox_ok_def due_def)
  have due: "filter (due [] now) events = filter pending events"
    using Cons.prems(3) by (intro filter_cong) (auto simp: due_def)
  have left: "tries events \<le> Suc (length moments)" using Cons.prems(2) by simp
  have "tries events' \<le> length moments"
  proof (cases "filter pending events")
    case Nil
    then have "tries events = 0" by (auto simp: tries_def tries_left_def filter_empty_conv)
    with step(4) show ?thesis by simp
  next
    case (Cons e es)
    then have "Suc 0 \<le> length ?b" by (simp add: batch_length due)
    with step(4) left show ?thesis by linarith
  qed
  moreover have "\<forall>e \<in> set events'. pending e \<longrightarrow> moments \<noteq> [] \<longrightarrow> e_available e \<le> hd moments"
    using Cons.prems(3,4) by (cases moments) (auto simp: step(2) park_def)
  moreover have "sorted_wrt (\<lambda>s t. s + 60000000 \<le> t) moments" using Cons.prems(4) by simp
  ultimately have "outbox_ok (poll_all moments events') \<and> tries (poll_all moments events') = 0 \<and>
      list_all2 carried events' (poll_all moments events')"
    by (rule Cons.IH [OF step(3)])
  moreover have "list_all2 carried events events'"
    unfolding step(2) by (rule list_all2_map_self) (auto simp: carried_refl intro!: carried_park dest: chosen)
  ultimately show ?case
    using list_all2_trans [of carried carried carried events events' "poll_all moments events'"] carried_trans
    by (auto simp: step(1))
qed

subsection \<open>The worker's turns\<close>

text \<open>How long a turn sleeps, in sleeps of 100 ms.\<close>

definition sleeps :: "nat option \<Rightarrow> nat" where
  "sleeps signal = (case signal of None \<Rightarrow> 20 | Some i \<Rightarrow> if i < 20 then Suc i else 20)"

definition signalled :: "nat option \<Rightarrow> bool" where
  "signalled signal \<longleftrightarrow> (\<exists>i < 20. signal = Some i)"

lemma wait_stopped: "ws_stopping s \<Longrightarrow> wait signal i s = s"
  by (simp add: wait.simps)

lemma wait_from:
  "\<not> ws_stopping s \<Longrightarrow> i \<le> 20 \<Longrightarrow> (\<forall>j. signal = Some j \<longrightarrow> i \<le> j) \<Longrightarrow>
     wait signal i s = s\<lparr>ws_now := ws_now s + 100000 * (int (sleeps signal) - int i), ws_stopping := signalled signal\<rparr>"
proof (induction signal i s rule: wait.induct)
  case (1 signal i s)
  show ?case
  proof (cases "i < 20")
    case False
    with 1(3) have i: "i = 20" by simp
    with 1(4) have "sleeps signal = 20" "\<not> signalled signal"
      by (auto simp: sleeps_def signalled_def split: option.splits)
    moreover have "wait signal i s = s" using i by (simp add: wait.simps)
    ultimately show ?thesis using 1(2) i by (cases s) simp
  next
    case True
    let ?s = "s\<lparr>ws_now := ws_now s + 100000, ws_stopping := (signal = Some i)\<rparr>"
    have step: "wait signal i s = wait signal (Suc i) ?s"
      using True 1(2) by (simp add: wait.simps [of signal i s])
    show ?thesis
    proof (cases "signal = Some i")
      case True
      with step wait_stopped [of ?s signal "Suc i"] \<open>i < 20\<close> show ?thesis
        by (simp add: sleeps_def signalled_def)
    next
      case False
      have "\<forall>j. signal = Some j \<longrightarrow> Suc i \<le> j" using 1(4) False by (auto simp: Suc_le_eq order_less_le)
      with 1(1) 1(2) True False have "wait signal (Suc i) ?s =
          ?s\<lparr>ws_now := ws_now ?s + 100000 * (int (sleeps signal) - int (Suc i)), ws_stopping := signalled signal\<rparr>"
        by simp
      with step show ?thesis by (simp add: algebra_simps)
    qed
  qed
qed

lemma poll_frame: "ws_stopping (poll t s) = ws_stopping s" "ws_now (poll t s) = ws_now s"
  by (auto simp: poll_def append_log_def split: sum.splits prod.splits)

lemma turn:
  "\<not> ws_stopping s \<Longrightarrow> wait (tk_signal t) 0 (poll t s) =
     (poll t s)\<lparr>ws_now := ws_now s + 100000 * int (sleeps (tk_signal t)), ws_stopping := signalled (tk_signal t)\<rparr>"
  using wait_from [of "poll t s" 0 "tk_signal t"] by (simp add: poll_frame)

lemma worker_loop_stop:
  "\<forall>t \<in> set ts. \<not> signalled (tk_signal t) \<Longrightarrow> signalled (tk_signal t) \<Longrightarrow> \<not> ws_stopping s \<Longrightarrow>
     worker_loop (ts @ t # after) s = worker_loop (ts @ [t]) s \<and>
     ws_now (worker_loop (ts @ [t]) s) = ws_now s + 2000000 * int (length ts) + 100000 * int (sleeps (tk_signal t))"
proof (induction ts arbitrary: s)
  case Nil
  let ?s = "wait (tk_signal t) 0 (poll t s)"
  have "ws_stopping ?s" "ws_now ?s = ws_now s + 100000 * int (sleeps (tk_signal t))"
    using turn [OF Nil(3), of t] Nil(2) by simp_all
  then show ?case using Nil(3) by (cases after) auto
next
  case (Cons u ts)
  let ?s = "wait (tk_signal u) 0 (poll u s)"
  have quiet: "\<not> signalled (tk_signal u)" using Cons.prems(1) by simp
  then have "sleeps (tk_signal u) = 20" by (auto simp: sleeps_def signalled_def split: option.splits)
  with quiet turn [OF Cons.prems(3), of u] have s: "\<not> ws_stopping ?s" "ws_now ?s = ws_now s + 2000000" by simp_all
  from Cons.IH [OF _ Cons.prems(2) s(1)] Cons.prems(1,3) s(2) show ?case by (simp add: algebra_simps)
qed

subsection \<open>Properties\<close>

text \<open>
  One statement parks the right events.  On a table whose pending events have fewer than
  five attempts it never fails; it takes at most twenty of the events that are pending, due and
  not locked by another worker, none of them later than one it leaves; each gets one attempt
  more, a delay of a minute and the error code, and is dead-lettered at the fifth; no other event
  changes, in particular none that is processed, dead or locked, and the table stays as it
  was assumed.
\<close>

lemma park_batch_correct:
  assumes "outbox_ok events"
  shows "\<exists>chosen events'. park_batch locked now events = Inr (length chosen, events') \<and>
    length chosen = min 20 (length (filter (due locked now) events)) \<and>
    (\<forall>e \<in> set chosen. e \<in> set events \<and> pending e \<and> e_available e \<le> now \<and> e_id e \<notin> set locked) \<and>
    (\<forall>e \<in> set events. due locked now e \<longrightarrow> e \<notin> set chosen \<longrightarrow>
       (\<forall>b \<in> set chosen. (e_available b, e_created b) \<le> (e_available e, e_created e))) \<and>
    events' = map (\<lambda>e. if e \<in> set chosen then park now e else e) events \<and> outbox_ok events'"
proof -
  let ?b = "batch locked now events"
  obtain events' where step: "park_batch locked now events = Inr (length ?b, events')"
    "events' = map (\<lambda>e. if e_id e \<in> set (map e_id ?b) then park now e else e) events" "outbox_ok events'"
    by (rule park_batch_Inr [OF assms, of locked now])
  have "distinct (map e_id events)" using assms by (simp add: outbox_ok_def)
  then have "e_id e \<in> set (map e_id ?b) \<longleftrightarrow> e \<in> set ?b" if "e \<in> set events" for e
    using chosen_due [of events e locked now] that by auto
  with step(2) have "events' = map (\<lambda>e. if e \<in> set ?b then park now e else e) events" by (auto intro!: map_cong)
  moreover have "\<forall>e \<in> set ?b. e \<in> set events \<and> pending e \<and> e_available e \<le> now \<and> e_id e \<notin> set locked"
    using batch_due [of _ locked now events] by (auto simp: due_def)
  ultimately show ?thesis
    using step(1,3) batch_length [of locked now events] batch_earliest [of _ events locked now] by blast
qed

text \<open>
  C32. The outbox drains.  Statements at least a minute apart, the first when all pending events
  are due, as many as there are attempts left, leave no event pending: each one that was has
  been tried five times and is dead-lettered with the error code; nothing is lost, none becomes
  processed, and events that were not pending are as before.
\<close>

theorem outbox_drains:
  assumes "outbox_ok events" and "tries events \<le> length moments"
    and "\<forall>e \<in> set events. pending e \<longrightarrow> moments \<noteq> [] \<longrightarrow> e_available e \<le> hd moments"
    and "sorted_wrt (\<lambda>s t. s + 60000000 \<le> t) moments"
  shows "list_all2 (\<lambda>e f. e_id f = e_id e \<and> e_type f = e_type e \<and> e_payload f = e_payload e \<and> e_processed f = e_processed e \<and>
    (if pending e then e_dead f \<noteq> None \<and> e_attempts f = 5 \<and> e_error f = Some ''UNHANDLED_EVENT_TYPE'' else f = e))
    events (poll_all moments events)"
proof -
  from poll_all_drains [OF assms] have ok: "outbox_ok (poll_all moments events)" "tries (poll_all moments events) = 0"
    and carried: "list_all2 carried events (poll_all moments events)" by blast+
  have "list_all2 (\<lambda>e f. carried e f \<and> \<not> pending f) events (poll_all moments events)"
    using carried tries_zero [OF ok] by (simp add: list_all2_conv_all_nth)
  then show ?thesis by (rule list_all2_mono) (auto simp: carried_def)
qed

text \<open>
  C37. The worker stops promptly.  Whatever the fates of its statements (it survives every failure),
  after a signal during some sleep of a turn it starts no further statement, whatever would
  come next, logs \<open>stopped\<close> and exits with 0; every earlier turn takes two seconds and the last one
  ends with the sleep in which the signal arrived.
\<close>

theorem worker_shutdown:
  assumes "\<not> ws_stopping s" and "\<forall>u \<in> set before. tk_signal u = None" and "tk_signal t = Some i" and "i < 20"
    and "worker_main True (before @ t # after) s = (rc, s')"
  shows "rc = 0 \<and> worker_main True (before @ [t]) s = (rc, s') \<and>
    last (ws_log s') = \<lparr>log_level = ''info'', log_event = ''stopped'', log_count = None\<rparr> \<and>
    ws_now s' = ws_now s + 2000000 * int (length before) + 100000 * (int i + 1)"
proof -
  let ?s = "append_log ''info'' ''started'' None s"
  have "\<not> ws_stopping ?s" "ws_now ?s = ws_now s" using assms(1) by (simp_all add: append_log_def)
  moreover have "\<forall>u \<in> set before. \<not> signalled (tk_signal u)" using assms(2) by (simp add: signalled_def)
  moreover have "signalled (tk_signal t)" "sleeps (tk_signal t) = Suc i"
    using assms(3,4) by (simp_all add: signalled_def sleeps_def)
  ultimately show ?thesis
    using worker_loop_stop [of before t ?s after] assms(5) by (auto simp: worker_main_def append_log_def)
qed

subsection \<open>Examples\<close>

definition sample_event :: event where
  "sample_event = \<lparr>e_id = ''e1'', e_type = ''order.created'', e_aggregate = ''a1'', e_payload = JObj [],
     e_created = 5, e_available = 5, e_processed = None, e_attempts = 3, e_error = None, e_dead = None\<rparr>"

lemma sample_event_ok: "outbox_ok [sample_event]"
  by (simp add: outbox_ok_def sample_event_def)

lemma park_batch_correct_witness:
  "\<exists>(chosen :: event list) events'. park_batch [] 10 [sample_event] = Inr (length chosen, events') \<and> length chosen = 1"
proof -
  have one: "length (filter (due [] 10) [sample_event]) = 1"
    by (simp add: due_def pending_def sample_event_def)
  from park_batch_correct [OF sample_event_ok, where locked = "[]" and now = 10] obtain chosen :: "event list" and events' where
    "park_batch [] 10 [sample_event] = Inr (length chosen, events')"
    "length chosen = min 20 (length (filter (due [] 10) [sample_event]))"
    by blast
  with one show ?thesis by (intro exI [of _ chosen] exI [of _ events']) simp
qed

theorem outbox_drains_witness:
  "\<exists>f. poll_all [10, 60000010] [sample_event] = [f] \<and> e_dead f \<noteq> None \<and> e_attempts f = 5"
proof -
  have "tries [sample_event] \<le> length [10 :: int, 60000010]"
    by (simp add: tries_def tries_left_def pending_def sample_event_def)
  from outbox_drains [OF sample_event_ok this] show ?thesis
    by (auto simp: list_all2_Cons1 pending_def sample_event_def)
qed

definition sample_worker :: worker_state where
  "sample_worker = \<lparr>ws_events = [sample_event], ws_now = 10, ws_stopping = False, ws_heartbeat = None, ws_log = []\<rparr>"

theorem worker_shutdown_witness:
  "ws_now (snd (worker_main True [\<lparr>tk_fate = Refused, tk_locked = [], tk_signal = None\<rparr>,
     \<lparr>tk_fate = Served, tk_locked = [], tk_signal = Some 2\<rparr>] sample_worker)) = 2300010"
proof -
  let ?t = "\<lparr>tk_fate = Refused, tk_locked = [], tk_signal = None\<rparr>"
  let ?u = "\<lparr>tk_fate = Served, tk_locked = [], tk_signal = Some 2\<rparr>"
  obtain rc s' where run: "worker_main True ([?t] @ [?u]) sample_worker = (rc, s')" by fastforce
  have "ws_now s' = ws_now sample_worker + 2000000 * int (length [?t]) + 100000 * (int 2 + 1)"
    by (rule worker_shutdown [OF _ _ _ _ run, of 2, THEN conjunct2, THEN conjunct2, THEN conjunct2])
      (simp_all add: sample_worker_def)
  with run show ?thesis by (simp add: sample_worker_def)
qed

end
