(* ===== verification/Editor.thy ===== *)
theory Editor
  imports Contract_Documents
begin

text \<open>
  The product editor of the admin application (apps/admin): what its form sends for a product
  that it was opened with, and that the service takes it back.
\<close>

subsection \<open>The form\<close>

text \<open>
  \<open>draftOf\<close> of lib/catalog.ts.  A spread \<open>{...x}\<close> copies the members of an object, and
  \<open>({currency: _, ...variant})\<close> all of them but one.  A product is an answer of the API, so it
  has the members of its schema and no member is missing.
\<close>

definition spread :: "json \<Rightarrow> json" where
  "spread v = JObj (members_of v)"

definition variant_draft :: "json \<Rightarrow> json" where
  "variant_draft x = JObj (map (\<lambda>(k, v). (k, if k = ''attributes'' then spread v else v))
     (filter (\<lambda>(k, _). k \<noteq> ''currency'') (members_of x)))"

definition draft_of :: "json \<Rightarrow> json" where
  "draft_of v = JObj
     [(''slug'', part v ''slug''), (''status'', part v ''status''), (''brandId'', part v ''brandId''),
      (''categoryIds'', JArr (elements (part v ''categoryIds''))),
      (''mediaIds'', JArr (map (\<lambda>i. part i ''id'') (elements (part v ''images'')))),
      (''translations'', JObj [(''ru'', spread (part (part v ''translations'') ''ru'')),
         (''ro'', spread (part (part v ''translations'') ''ro''))]),
      (''variants'', JArr (map variant_draft (elements (part v ''variants''))))]"

text \<open>The body that ProductEditor.svelte sends: \<open>{...draft, revision: product.revision}\<close>.\<close>

definition save_body :: "json \<Rightarrow> json \<Rightarrow> json" where
  "save_body product draft = JObj (AList.update ''revision'' (part product ''revision'') (members_of draft))"

subsection \<open>The draft of a stored product\<close>

text \<open>The rows of a product that its document shows, and the draft over them.\<close>

definition variants_of :: "postgres \<Rightarrow> db \<Rightarrow> string \<Rightarrow> variant_row list" where
  "variants_of P d k = sort_key (\<lambda>v. collation_key P (v_sku v)) (filter (\<lambda>v. v_product v = k) (variants d))"

definition images_of :: "db \<Rightarrow> string \<Rightarrow> string list" where
  "images_of d k = map i_media (sort_key i_position (filter (\<lambda>i. i_product i = k) (images d)))"

definition row_draft :: "db \<Rightarrow> variant_row \<Rightarrow> json" where
  "row_draft d v = JObj [(''id'', JStr (v_id v)), (''sku'', JStr (v_sku v)), (''name'', JStr (v_name v)),
     (''priceMinor'', JInt (v_price v)), (''active'', JBool (v_active v)),
     (''attributes'', JObj (map (\<lambda>a. (a_code a, JStr (a_value a))) (values_of (attribute_values d) (v_id v))))]"

definition form_rows :: "postgres \<Rightarrow> db \<Rightarrow> product_row \<Rightarrow> translation_row \<Rightarrow> translation_row \<Rightarrow> json" where
  "form_rows P d p ru ro = JObj
     [(''slug'', JStr (p_slug p)), (''status'', JStr (p_status p)), (''brandId'', json_option (p_brand p)),
      (''categoryIds'', JArr (map JStr (sort (categories_of d (p_id p))))), (''mediaIds'', JArr (map JStr (images_of d (p_id p)))),
      (''translations'', JObj [(''ru'', snd (translation_json ru)), (''ro'', snd (translation_json ro))]),
      (''variants'', JArr (map (row_draft d) (variants_of P d (p_id p)))), (''revision'', JInt (p_revision p))]"

lemma variant_draft_row: "variant_draft (variant_json d v) = row_draft d v"
  by (simp add: variant_draft_def variant_json_def row_draft_def spread_def values_of_def)

lemma draft_of_document:
  assumes "documented d" and "catalog_document P d k = Some v"
  shows "\<exists>p ru ro. find_product d k = Some p \<and> ru \<in> set (product_texts d) \<and> ro \<in> set (product_texts d) \<and>
     t_product ru = k \<and> t_product ro = k \<and> t_locale ru = ''ru'' \<and> t_locale ro = ''ro'' \<and>
     part (part v ''translations'') ''ru'' = snd (translation_json ru) \<and>
     part (part v ''translations'') ''ro'' = snd (translation_json ro) \<and>
     save_body v (draft_of v) = form_rows P d p ru ro"
proof -
  from document_parts [OF assms(2)] obtain p where p: "find_product d k = Some p" "part v ''slug'' = JStr (p_slug p)"
      "part v ''status'' = JStr (p_status p)" "part v ''brandId'' = json_option (p_brand p)"
      "part v ''categoryIds'' = JArr (map JStr (sort (map snd (filter (\<lambda>(q, _). q = k) (product_categories d)))))"
      "part v ''translations'' = JObj (map translation_json (filter (\<lambda>t. t_product t = k) (product_texts d)))"
      "part v ''variants'' = JArr (map (variant_json d) (sort_key (\<lambda>v. collation_key P (v_sku v)) (filter (\<lambda>v. v_product v = k) (variants d))))"
      "part v ''images'' = JArr (map image_json (sort_key i_position (filter (\<lambda>i. i_product i = k) (images d))))" by blast
  have rev: "part v ''revision'' = JInt (p_revision p)"
    using assms(2) p(1) by (auto simp: catalog_document_def part_def)
  have id: "p_id p = k" using find_product_id [OF p(1)] by simp
  let ?ts = "filter (\<lambda>t. t_product t = k) (product_texts d)"
  have key: "k \<in> p_id ` set (products d)" using find_product_id [OF p(1)] by auto
  have unique: "distinct (map fst (map translation_json ?ts))"
  proof -
    have "distinct (map (\<lambda>t. (t_product t, t_locale t)) (product_texts d))"
      using documented_ok [OF assms(1)] by (simp add: catalog_ok_def texts_ok_def)
    then have "distinct (map t_locale ?ts)" by (rule distinct_filter_pair)
    then show ?thesis by (simp add: translation_json_def comp_def)
  qed
  have "locales_of d k = {''ru'', ''ro''}" using assms(1) key unfolding documented_def by blast
  then have both: "''ru'' \<in> locales_of d k" "''ro'' \<in> locales_of d k" by simp_all
  from both(1) obtain ru where ru: "''ru'' = t_locale ru" "ru \<in> set ?ts" unfolding locales_of_def by (rule imageE)
  from both(2) obtain ro where ro: "''ro'' = t_locale ro" "ro \<in> set ?ts" unfolding locales_of_def by (rule imageE)
  note t = ru(2) ru(1) [symmetric] ro(2) ro(1) [symmetric]
  have shown: "part (part v ''translations'') (t_locale t) = snd (translation_json t)" if "t \<in> set ?ts" for t
  proof -
    have "(t_locale t, snd (translation_json t)) = translation_json t" by (simp add: translation_json_def)
    also have "\<dots> \<in> set (map translation_json ?ts)" using imageI [OF that] by (simp only: list.set_map)
    finally show ?thesis unfolding p(6) unfolding part_def members_of.simps by (rule member_mem [OF unique])
  qed
  have texts: "part (part v ''translations'') ''ru'' = snd (translation_json ru)"
      "part (part v ''translations'') ''ro'' = snd (translation_json ro)"
    using shown [OF t(1)] shown [OF t(3)] by (simp_all only: t(2,4))
  have "save_body v (draft_of v) = form_rows P d p ru ro"
    unfolding save_body_def draft_of_def texts p(2-5,7,8) rev form_rows_def id
    by (simp add: categories_of_def images_of_def variants_of_def variant_draft_row comp_def)
      (simp add: spread_def translation_json_def part_def image_json_def)
  with p(1) t texts show ?thesis by auto
qed


lemma canonical_storable: "canonical k \<Longrightarrow> storable (JStr k)"
  using uuid_no_nul [of k] by (simp add: canonical_def)

text \<open>What a documented database holds for a product, by its key.\<close>

lemma variants_of_set: "set (variants_of P d k) = {v \<in> set (variants d). v_product v = k}"
  by (auto simp: variants_of_def)

lemma variants_of_distinct:
  assumes "catalog_ok d"
  shows "distinct (map v_id (variants_of P d k))" "distinct (map v_sku (variants_of P d k))"
  using assms by (simp_all add: catalog_ok_def variants_ok_def variants_of_def distinct_map inj_on_def)

lemma row_draft_valid:
  assumes J: "jsoncpp_ok J" and "documented d" and v: "v \<in> set (variants d)"
  shows "draft_variant J (row_draft d v)"
proof -
  let ?as = "values_of (attribute_values d) (v_id v)"
  let ?m = "map (\<lambda>a. (a_code a, JStr (a_value a))) ?as"
  have w: "fit_text 1 64 (v_sku v)" "fit_text 1 160 (v_name v)" "length ?as \<le> 30" "\<forall>a \<in> set ?as. value_written a"
    using assms(2) v by (auto simp: documented_def written_def list_all_iff variant_written_def values_of_def)
  have ok: "catalog_ok d" using assms(2) by simp
  then have price: "0 \<le> v_price v" "v_price v \<le> 100000000"
    using v by (auto simp: catalog_ok_def variants_ok_def variant_bounds_def)
  have id: "canonical (v_id v)" using assms(2) v by (auto simp: documented_def entity_ids_def)
  have "distinct (map (\<lambda>a. (a_variant a, a_code a)) (attribute_values d))" using ok by (simp add: catalog_ok_def values_ok_def)
  then have codes: "distinct (map fst ?m)" unfolding values_of_def by (simp add: comp_def distinct_filter_pair)
  have plain: "c_str (a_code a) = a_code a" if "a \<in> set ?as" for a
    using w(4) that by (auto simp: value_written_def)
  have "valid_text 1 300 (member ?m (c_str (a_code a)))" if a: "a \<in> set ?as" for a
  proof -
    have "(a_code a, JStr (a_value a)) \<in> set ?m" using a by simp
    then have "member ?m (a_code a) = JStr (a_value a)" by (rule member_mem [OF codes])
    then show ?thesis using w(4) a plain [OF a] by (simp add: value_written_def fit_text_def)
  qed
  then have "valid_attributes (JObj ?m)" using w(3) by (auto simp: valid_attributes_def)
  moreover have "valid_price J (JInt (v_price v))"
    using price is_int64_JInt [OF J] as_int64_JInt [OF J] by (simp add: valid_price_def)
  ultimately have "valid_variant J (row_draft d v)"
    using w(1,2) id by (auto simp: valid_variant_def row_draft_def member_def fit_text_def)
  moreover have "wf_json (row_draft d v)" using codes price by (simp add: row_draft_def list_all_iff)
  moreover have "storable (row_draft d v)"
    using w(1,2,4) canonical_storable [OF id] by (auto simp: row_draft_def list_all_iff fit_text_def value_written_def)
  ultimately show ?thesis by (simp add: draft_variant_def)
qed

lemma row_draft_simps:
  "id_of (row_draft d v) = Some (v_id v)" "sku_of (row_draft d v) = v_sku v" "active_of (row_draft d v) = v_active v"
  "part (row_draft d v) ''priceMinor'' = JInt (v_price v)"
  "members_of (part (row_draft d v) ''attributes'') = map (\<lambda>a. (a_code a, JStr (a_value a))) (values_of (attribute_values d) (v_id v))"
  by (simp_all add: row_draft_def id_of_def sku_of_def active_of_def part_def)

lemma images_of_ok:
  assumes "documented d"
  shows "distinct (images_of d k)" "set (images_of d k) \<subseteq> m_id ` set (media d)" "length (images_of d k) \<le> 10"
    "list_all canonical (images_of d k)"
proof -
  let ?is = "filter (\<lambda>i. i_product i = k) (images d)"
  have ok: "images_ok (p_id ` set (products d)) (m_id ` set (media d)) (images d)" using documented_ok [OF assms] by (simp add: catalog_ok_def)
  then have pairs: "distinct (map (\<lambda>i. (i_product i, i_media i)) (images d))" "distinct (map (\<lambda>i. (i_product i, i_position i)) (images d))"
    by (simp_all add: images_ok_def)
  have same: "set (images_of d k) = i_media ` set ?is" by (auto simp: images_of_def)
  show "distinct (images_of d k)"
    using distinct_filter_pair [OF pairs(1), of k] by (simp add: images_of_def distinct_map)
  show sub: "set (images_of d k) \<subseteq> m_id ` set (media d)" unfolding same using ok by (auto simp: images_ok_def)
  have "set (map i_position ?is) \<subseteq> {0..9}" using ok by (auto simp: images_ok_def)
  from card_mono [OF _ this] distinct_card [OF distinct_filter_pair [OF pairs(2), of k]]
  show "length (images_of d k) \<le> 10" by (simp add: images_of_def)
  have "\<forall>k \<in> entity_ids d. canonical k" using assms by (simp add: documented_def)
  then show "list_all canonical (images_of d k)" unfolding list_all_iff using sub table_ids(5) [of d] by blast
qed

lemma categories_of_ok:
  assumes "documented d"
  shows "distinct (categories_of d k)" "set (categories_of d k) \<subseteq> c_id ` set (categories d)" "list_all canonical (categories_of d k)"
proof -
  have ok: "category_links_ok (p_id ` set (products d)) (c_id ` set (categories d)) (product_categories d)"
    using documented_ok [OF assms] by (simp add: catalog_ok_def)
  then have "distinct (filter (\<lambda>(q, _). q = k) (product_categories d))" by (simp add: category_links_ok_def)
  then show "distinct (categories_of d k)" by (auto simp: categories_of_def distinct_map inj_on_def)
  show sub: "set (categories_of d k) \<subseteq> c_id ` set (categories d)" using ok by (auto simp: categories_of_def category_links_ok_def)
  have "\<forall>k \<in> entity_ids d. canonical k" using assms by (simp add: documented_def)
  then show "list_all canonical (categories_of d k)" unfolding list_all_iff using sub table_ids(3) [of d] by blast
qed


subsection \<open>The form is accepted\<close>

lemma translation_written: "text_written t \<Longrightarrow> valid_translation (snd (translation_json t))"
  by (auto simp: valid_translation_def translation_json_def text_written_def fit_text_def member_def)

lemma product_facts:
  assumes "documented d" and "p \<in> set (products d)"
  shows "fit_text 1 160 (p_slug p)" "slug (p_slug p)" "known_status (p_status p)" "0 < p_revision p" "p_revision p < 2 ^ 31"
    "1 \<le> length (categories_of d (p_id p))" "length (categories_of d (p_id p)) \<le> 10" "canonical (p_id p)"
    "p_brand p = Some b \<Longrightarrow> b \<in> b_id ` set (brands d) \<and> canonical b"
proof -
  have ok: "products_ok (b_id ` set (brands d)) (products d)" using documented_ok [OF assms(1)] by (simp add: catalog_ok_def)
  have w: "product_written d p" using assms by (simp add: documented_def written_def list_all_iff)
  have ids: "\<forall>k \<in> entity_ids d. canonical k" using assms by (simp add: documented_def)
  show "fit_text 1 160 (p_slug p)" "1 \<le> length (categories_of d (p_id p))" "length (categories_of d (p_id p)) \<le> 10"
    using w by (simp_all add: product_written_def)
  show "slug (p_slug p)" "known_status (p_status p)" "0 < p_revision p" "p_revision p < 2 ^ 31"
    using ok assms(2) by (auto simp: products_ok_def)
  show "canonical (p_id p)" using table_ids(1) [OF ids] assms(2) by simp
  show "b \<in> b_id ` set (brands d) \<and> canonical b" if "p_brand p = Some b"
  proof -
    have "b \<in> b_id ` set (brands d)" using ok assms(2) that by (auto simp: products_ok_def)
    with table_ids(4) [OF ids] show ?thesis by blast
  qed
qed

lemma form_valid:
  assumes J: "jsoncpp_ok J" and doc: "documented d" and p: "p \<in> set (products d)"
    and texts: "ru \<in> set (product_texts d)" "ro \<in> set (product_texts d)"
    and variants: "1 \<le> length (variants_of P d (p_id p))" "length (variants_of P d (p_id p)) \<le> 50"
    and active: "p_status p = ''active'' \<longrightarrow> list_ex v_active (variants_of P d (p_id p))"
  shows "valid_draft J (form_rows P d p ru ro)"
proof -
  let ?vs = "variants_of P d (p_id p)"
  note f = product_facts [OF doc p] and cats = categories_of_ok [OF doc, of "p_id p"] and imgs = images_of_ok [OF doc, of "p_id p"]
  have t: "valid_translation (snd (translation_json ru))" "valid_translation (snd (translation_json ro))"
    using doc texts by (auto simp: documented_def written_def list_all_iff intro!: translation_written)
  have "valid_variant J (row_draft d v)" if "v \<in> set ?vs" for v
    using row_draft_valid [OF J doc] that by (simp add: variants_of_set draft_variant_def)
  then have "list_all (valid_variant J) (map (row_draft d) ?vs)" by (simp add: list_all_iff)
  moreover have "map sku_of (map (row_draft d) ?vs) = map v_sku ?vs" "ids_of (map (row_draft d) ?vs) = map v_id ?vs"
    by (simp_all add: row_draft_simps ids_of_def List.map_filter_def comp_def)
  ultimately have vs: "valid_variants J (map (row_draft d) ?vs)"
    using variants_of_distinct [OF documented_ok [OF doc]] unfolding valid_variants_def by (simp only: simp_thms)
  have act: "p_status p = ''active'' \<longrightarrow> list_ex active_of (map (row_draft d) ?vs)"
    using active by (auto simp: list_ex_iff row_draft_simps)
  have ids: "valid_ids 1 10 (JArr (map JStr (sort (categories_of d (p_id p)))))" "valid_ids 0 10 (JArr (map JStr (images_of d (p_id p))))"
    using f(6,7) cats imgs unfolding valid_ids_JArr by (simp_all add: list_all_iff canonical_def)
  have brand: "json_option (p_brand p) = JNull \<or> (\<exists>b. json_option (p_brand p) = JStr b \<and> uuid b)"
    using f(9) by (cases "p_brand p") (auto simp: json_option_def canonical_def)
  have scalars: "valid_text 1 160 (JStr (p_slug p))" "JStr (p_status p) \<in> {JStr ''draft'', JStr ''active'', JStr ''archived''}"
    using f(1,3) by (auto simp: fit_text_def known_status_def)
  show ?thesis
    unfolding valid_draft_def form_rows_def
    by (intro exI [of _ "[(''ru'', snd (translation_json ru)), (''ro'', snd (translation_json ro))]"]
        exI [of _ "map (row_draft d) ?vs"] exI conjI, rule refl)
      (use f(2) t vs act ids brand scalars variants in \<open>simp_all add: member_def\<close>)
qed

lemma form_storable:
  assumes J: "jsoncpp_ok J" and doc: "documented d" and p: "p \<in> set (products d)"
    and texts: "ru \<in> set (product_texts d)" "ro \<in> set (product_texts d)"
  shows "wf_json (form_rows P d p ru ro) \<and> storable (form_rows P d p ru ro)"
proof -
  note f = product_facts [OF doc p] and cats = categories_of_ok [OF doc, of "p_id p"] and imgs = images_of_ok [OF doc, of "p_id p"]
  have vs: "list_all wf_json (map (row_draft d) (variants_of P d (p_id p)))" "list_all storable (map (row_draft d) (variants_of P d (p_id p)))"
    using row_draft_valid [OF J doc] by (auto simp: list_all_iff variants_of_set draft_variant_def)
  have ids: "list_all storable (map JStr (sort (categories_of d (p_id p))))" "list_all storable (map JStr (images_of d (p_id p)))"
    using cats(3) imgs(4) canonical_storable by (simp_all add: list_all_iff)
  have t: "wf_json (snd (translation_json t)) \<and> storable (snd (translation_json t))" if "t \<in> set (product_texts d)" for t
    using doc that by (auto simp: documented_def written_def list_all_iff text_written_def fit_text_def translation_json_def)
  have brand: "wf_json (json_option (p_brand p)) \<and> storable (json_option (p_brand p))"
    using f(9) canonical_storable by (cases "p_brand p") (auto simp: json_option_def)
  have "storable (JStr (p_slug p))" "storable (JStr (p_status p))"
    using f(1,3) by (auto simp: fit_text_def known_status_def)
  with vs ids t [OF texts(1)] t [OF texts(2)] brand f(4,5) show ?thesis
    by (simp add: form_rows_def list_all_iff)
qed

lemma form_fits:
  assumes doc: "documented d" and p: "p \<in> set (products d)" and "p_revision p + 1 < 2 ^ 31"
  shows "draft_fits P d (Some (p_id p)) (p_revision p) (form_rows P d p ru ro)"
proof -
  note f = product_facts [OF doc p] and cats = categories_of_ok [OF doc, of "p_id p"] and imgs = images_of_ok [OF doc, of "p_id p"]
  have ok: "catalog_ok d" using doc by simp
  then have "distinct (map p_id (products d))" "distinct (map p_slug (products d))"
    by (simp_all add: catalog_ok_def products_ok_def)
  with p have found: "find_product d (p_id p) = Some p" and slugs: "\<forall>q \<in> set (products d). p_slug p = p_slug q \<longrightarrow> p = q"
    by (auto simp: find_product_own distinct_map dest: inj_onD)
  have lowers: "map (lower \<circ> str_of) (map JStr ks) = ks" if "list_all canonical ks" for ks
    using that by (induction ks) (simp_all add: canonical_def)
  have refs: "references (JArr (map JStr (sort (categories_of d (p_id p))))) (c_id ` set (categories d))"
      "references (JArr (map JStr (images_of d (p_id p)))) (m_id ` set (media d))"
    using cats imgs lowers [of "sort (categories_of d (p_id p))"] lowers [OF imgs(4)]
    by (simp_all add: references_def list_all_iff Let_def comp_def)
  have "variant_fits d (p_id p) (row_draft d v)" if v: "v \<in> set (variants_of P d (p_id p))" for v
  proof -
    have v: "v \<in> set (variants d)" "v_product v = p_id p" using v by (simp_all add: variants_of_set)
    have "canonical (v_id v)" using doc v(1) by (auto simp: documented_def entity_ids_def)
    moreover have "\<forall>w \<in> set (variants d). v_sku w = v_sku v \<longrightarrow> w = v"
      using ok v(1) by (auto simp: catalog_ok_def variants_ok_def distinct_map dest: inj_onD)
    moreover have "a_code ` set (values_of (attribute_values d) (v_id v)) \<subseteq> d_code ` set (attributes d)"
      using ok by (auto simp: catalog_ok_def values_ok_def values_of_def)
    ultimately show ?thesis using v by (auto simp: variant_fits_def row_draft_simps canonical_def image_image)
  qed
  then have "list_all (variant_fits d (p_id p)) (map (row_draft d) (variants_of P d (p_id p)))" by (simp add: list_all_iff)
  moreover have "\<forall>b. json_option (p_brand p) = JStr b \<longrightarrow> lower b \<in> b_id ` set (brands d)"
    using f(9) by (cases "p_brand p") (auto simp: json_option_def canonical_def)
  ultimately show ?thesis
    using found slugs refs f(4) assms(3)
    by (auto simp: draft_fits_def part_def form_rows_def product_key_def)
qed


subsection \<open>What the save of an untouched form leaves\<close>

text \<open>The variants and, for each variant, its values are those of the database the form was read from.\<close>

definition same_variants :: "db \<Rightarrow> db \<Rightarrow> bool" where
  "same_variants d e \<longleftrightarrow> variants e = variants d \<and> (\<forall>k. values_of (attribute_values e) k = values_of (attribute_values d) k)"

lemma put_same:
  assumes "v \<in> set vs" and "distinct (map v_id vs)"
  shows "put_variant v vs = vs"
proof -
  have "x = v" if "x \<in> set vs" "v_id x = v_id v" for x
    using that assms by (auto simp: distinct_map dest: inj_onD)
  then have "(if v_id x = v_id v then v\<lparr>v_product := v_product x\<rparr> else x) = x" if "x \<in> set vs" for x
    using that by (cases "x = v") auto
  then have "map (\<lambda>x. if v_id x = v_id v then v\<lparr>v_product := v_product x\<rparr> else x) vs = vs" by (rule map_idI)
  with assms(1) show ?thesis by (simp add: put_variant_def)
qed

lemma row_columns:
  assumes J: "jsoncpp_ok J" and P: "postgres_ok J P" and "draft_variant J (row_draft d v)" and w: "item_columns P (row_draft d v) w"
    and "v_id w = v_id v" and "v_product w = v_product v"
  shows "w = v"
proof -
  have "- (2 ^ 63) \<le> v_price v" "v_price v < 2 ^ 63"
    using assms(3) is_int64_JInt [OF J, of "v_price v"]
    by (auto simp: draft_variant_def valid_variant_def row_draft_def valid_price_def member_def)
  then have "bigint_in P (decimal_text (v_price v)) = Inr (v_price v)" using P unfolding postgres_ok_def by blast
  then have "v_sku w = v_sku v" "v_name w = v_name v" "v_price w = v_price v" "v_active w = v_active v"
    using w P by (auto simp: item_columns_def row_draft_def field_text_def postgres_ok_def simp del: decimal_text.simps split: if_splits)
  with assms(5,6) show ?thesis by (intro variant_row.equality) simp_all
qed

lemma row_values:
  assumes "list_all2 (value_of P k) (map (\<lambda>a. (a_code a, JStr (a_value a))) as) bs" and "\<forall>a \<in> set as. a_variant a = k"
  shows "bs = as"
  using assms
proof (induction as arbitrary: bs)
  case (Cons a as)
  then obtain b bs' where b: "bs = b # bs'" "value_of P k (a_code a, JStr (a_value a)) b"
      "list_all2 (value_of P k) (map (\<lambda>a. (a_code a, JStr (a_value a))) as) bs'" by (cases bs) auto
  have "b = a" using b(2) Cons.prems(2) by (intro value_row.equality) (simp_all add: value_of_def)
  with Cons.IH [OF b(3)] Cons.prems(2) b(1) show ?case by simp
qed simp

lemma save_row_same:
  assumes J: "jsoncpp_ok J" and P: "postgres_ok J P" and doc: "documented d" and v: "v \<in> set (variants d)" "v_product v = key"
    and step: "save_variant P key (row_draft d v) (ks, e) = Inr (ks', e')" and same: "same_variants d e"
  shows "ks' = ks @ [v_id v] \<and> same_variants d e'"
proof -
  let ?item = "row_draft d v"
  from save_variant_Inr [OF step] obtain w ms as d1 where s: "variant_key P ?item e (v_id w, d1)" "ks' = ks @ [v_id w]"
      "v_product w = key" "item_columns P ?item w" "object_members (field ?item ''attributes'') = Inr ms" "list_all2 (value_of P (v_id w)) ms as"
      "e' = d1\<lparr>variants := put_variant w (variants e),
        attribute_values := filter (\<lambda>a. a_variant a \<noteq> v_id w) (attribute_values e) @ as\<rparr>" by blast
  have id: "canonical (v_id v)" using doc v(1) by (auto simp: documented_def entity_ids_def)
  have "v_id w = lower (v_id v)"
    using s(1) P id by (auto simp: variant_key_def row_draft_def field_text_def postgres_ok_def canonical_def)
  with id have k: "v_id w = v_id v" by (simp add: canonical_def)
  from row_columns [OF J P row_draft_valid [OF J doc v(1)] s(4) k] s(3) v(2) have w: "w = v" by simp
  have "ms = map (\<lambda>a. (a_code a, JStr (a_value a))) (values_of (attribute_values d) (v_id v))"
    using s(5) by (simp add: row_draft_def object_members_def)
  from row_values [OF s(6) [unfolded this k]] have as: "as = values_of (attribute_values d) (v_id v)" by (simp add: values_of_def)
  have "distinct (map v_id (variants d))" using documented_ok [OF doc] by (simp add: catalog_ok_def variants_ok_def)
  then have "variants e' = variants d" using same v(1) by (simp add: s(7) w same_variants_def put_same)
  moreover have "values_of (attribute_values e') j = values_of (attribute_values d) j" for j
  proof (cases "j = v_id v")
    case True
    then show ?thesis by (simp add: s(7) w as values_of_def filter_empty_conv)
  next
    case False
    then have "values_of (attribute_values e') j = values_of (attribute_values e) j"
      by (auto simp: s(7) w as values_of_def filter_empty_conv intro!: filter_cong)
    with same show ?thesis by (simp add: same_variants_def)
  qed
  ultimately show ?thesis using s(2) k by (simp add: same_variants_def)
qed

lemma fold_rows_same:
  assumes J: "jsoncpp_ok J" and P: "postgres_ok J P" and doc: "documented d"
    and "\<forall>v \<in> set vs. v \<in> set (variants d) \<and> v_product v = key"
    and "fold_res (save_variant P key) (map (row_draft d) vs) (ks, e) = Inr (ks', e')" and "same_variants d e"
  shows "ks' = ks @ map v_id vs \<and> same_variants d e'"
  using assms(4-)
proof (induction vs arbitrary: ks e)
  case (Cons v vs)
  from Cons.prems(2) obtain ks1 e1 where step: "save_variant P key (row_draft d v) (ks, e) = Inr (ks1, e1)"
      "fold_res (save_variant P key) (map (row_draft d) vs) (ks1, e1) = Inr (ks', e')"
    by (auto simp: bind_res_eq_Inr)
  from save_row_same [OF J P doc _ _ step(1) Cons.prems(3)] Cons.prems(1) have "ks1 = ks @ [v_id v]" "same_variants d e1" by simp_all
  with Cons.IH [OF _ step(2)] Cons.prems(1) show ?case by simp
qed simp

lemma untouched_variants:
  assumes J: "jsoncpp_ok J" and P: "postgres_ok J P" and doc: "documented d"
    and c: "committed P (form_rows P d p ru ro) actor corr (Some (p_id p)) expected d v d'"
  shows "same_variants d d'"
proof -
  let ?k = "p_id p" and ?vs = "variants_of P d (p_id p)"
  from committed_parts [OF c] obtain previous d0 where s:
      "save_parts P (form_rows P d p ru ro) actor corr (Some ?k) previous ?k d0 = Inr (v, d')"
      "d0 = d\<lparr>uuid_counter := uuid_counter d0, products := products d0\<rparr>"
    by (auto simp: product_key_def)
  have d0: "variants d0 = variants d" "attribute_values d0 = attribute_values d" by (subst s(2), simp)+
  have items: "array_elements (field (form_rows P d p ru ro) ''variants'') = Inr (map (row_draft d) ?vs)"
    by (simp add: form_rows_def array_elements_def)
  from save_parts_variants [OF s(1)] obtain retained d2 d3 where loop:
      "fold_res (save_variant P ?k) (map (row_draft d) ?vs) ([], d2) = Inr (retained, d3)"
      "variants d2 = variants d0" "attribute_values d2 = attribute_values d0"
      "variants d' = variants (retire_variants ?k retained d3)" "attribute_values d' = attribute_values d3"
    using items by auto
  have "same_variants d d2" using loop(2,3) d0 by (simp add: same_variants_def)
  from fold_rows_same [OF J P doc _ loop(1) this] have
    "retained = map v_id ?vs" and same: "same_variants d d3" by (simp_all add: variants_of_set)
  then have "variants d' = variants d"
    by (auto simp: loop(4) retire_variants_def same_variants_def variants_of_set intro!: map_idI)
  with same loop(5) show ?thesis by (simp add: same_variants_def)
qed


text \<open>The rest of the document, over the rows of the product.\<close>

lemma untouched_rows:
  assumes P: "postgres_ok J P" and doc: "documented d" and p: "p \<in> set (products d)"
    and c: "committed P (form_rows P d p ru ro) actor corr (Some (p_id p)) (p_revision p) d v d'"
  shows "\<exists>q. find_product d' (p_id p) = Some q \<and> p_id q = p_id p \<and> p_slug q = p_slug p \<and> p_status q = p_status p \<and>
      p_brand q = p_brand p \<and> p_revision q = p_revision p + 1 \<and>
      sort (categories_of d' (p_id p)) = sort (categories_of d (p_id p)) \<and> images_of d' (p_id p) = images_of d (p_id p) \<and>
      map translation_json (filter (\<lambda>t. t_product t = p_id p) (product_texts d')) =
        [(''ru'', snd (translation_json ru)), (''ro'', snd (translation_json ro))]"
proof -
  let ?k = "p_id p" and ?doc = "form_rows P d p ru ro"
  have key: "product_key P (Some ?k) d = ?k" by (simp add: product_key_def)
  have lowers: "map lower ks = ks" if "list_all canonical ks" for ks
    using that by (induction ks) (simp_all add: canonical_def)
  have uuids: "list_all uuid ks" if "list_all canonical ks" for ks
    using that by (simp add: list_all_iff canonical_def)
  have cats: "list_all canonical (sort (categories_of d ?k))" using categories_of_ok(3) [OF doc] by (simp add: list_all_iff)
  have imgs: "list_all canonical (images_of d ?k)" using images_of_ok(4) [OF doc] .
  obtain m where m: "?doc = JObj m" "member m ''categoryIds'' = JArr (map JStr (sort (categories_of d ?k)))"
      "member m ''mediaIds'' = JArr (map JStr (images_of d ?k))"
      "member m ''translations'' = JObj [(''ru'', snd (translation_json ru)), (''ro'', snd (translation_json ro))]"
    by (simp add: form_rows_def member_def)
  from references_read_back [OF P c [unfolded m(1)] m(2) uuids [OF cats] m(3) uuids [OF imgs]]
  have refs: "categories_of d' ?k = sort (categories_of d ?k)" "images_of d' ?k = images_of d ?k"
    by (simp_all only: key lowers [OF cats] lowers [OF imgs] flip: categories_of_def images_of_def)
  from committed_rows [OF c] object_part [OF m(4)]
  have "list_all2 (text_row P ?k) [(''ru'', snd (translation_json ru)), (''ro'', snd (translation_json ro))]
      (filter (\<lambda>t. t_product t = ?k) (product_texts d'))" by (auto simp: key m(1))
  then have texts: "map translation_json (filter (\<lambda>t. t_product t = ?k) (product_texts d')) =
        [(''ru'', snd (translation_json ru)), (''ro'', snd (translation_json ro))]"
    by (auto simp: list_all2_Cons1 text_row_def translation_json_def field_text_def)
  have brand: "cast (uuid_in P) (field_text P ?doc ''brandId'') = Inr (p_brand p)"
  proof (cases "p_brand p")
    case None
    then show ?thesis by (simp add: form_rows_def field_text_def json_option_def cast_def)
  next
    case (Some b)
    with product_facts(9) [OF doc p Some] P show ?thesis
      by (simp add: form_rows_def field_text_def json_option_def cast_def postgres_ok_def canonical_def)
  qed
  have "field_text P ?doc ''slug'' = Some (p_slug p)" "field_text P ?doc ''status'' = Some (p_status p)"
    by (simp_all add: form_rows_def field_text_def)
  moreover have "sort (categories_of d' ?k) = sort (categories_of d ?k)" by (simp add: refs(1) sorted_sort_id)
  ultimately show ?thesis using committed_product [OF c] brand refs(2) texts by (auto simp: key)
qed

text \<open>Two documents of one product that differ in the revision only (and the order of the locales).\<close>

definition next_revision :: "json \<Rightarrow> json \<Rightarrow> bool" where
  "next_revision v v' \<longleftrightarrow>
     (\<forall>k \<in> {''id'', ''slug'', ''status'', ''brandId'', ''categoryIds'', ''variants'', ''images''}. part v' k = part v k) \<and>
     (\<forall>l \<in> {''ru'', ''ro''}. part (part v' ''translations'') l = part (part v ''translations'') l) \<and>
     (case part v ''revision'' of JInt r \<Rightarrow> part v' ''revision'' = JInt (r + 1) | _ \<Rightarrow> False)"

lemma untouched_document:
  assumes J: "jsoncpp_ok J" and P: "postgres_ok J P" and doc: "documented d" and p: "find_product d k = Some p"
    and v: "catalog_document P d k = Some v"
    and texts: "part (part v ''translations'') ''ru'' = snd (translation_json ru)" "part (part v ''translations'') ''ro'' = snd (translation_json ro)"
    and c: "committed P (form_rows P d p ru ro) actor corr (Some k) (p_revision p) d v' d'"
  shows "next_revision v v'"
proof -
  have p': "p_id p = k" "p \<in> set (products d)" using find_product_id [OF p] by auto
  have c': "committed P (form_rows P d p ru ro) actor corr (Some (p_id p)) (p_revision p) d v' d'" using c by (simp add: p'(1))
  from untouched_rows [OF P doc p'(2) c', unfolded p'(1)] obtain q where q: "find_product d' k = Some q" "p_id q = k" "p_slug q = p_slug p"
      "p_status q = p_status p" "p_brand q = p_brand p" "p_revision q = p_revision p + 1"
      "sort (categories_of d' k) = sort (categories_of d k)" "images_of d' k = images_of d k"
      "map translation_json (filter (\<lambda>t. t_product t = k) (product_texts d')) =
        [(''ru'', snd (translation_json ru)), (''ro'', snd (translation_json ro))]"
    by (elim exE conjE) (rule that)
  have v': "catalog_document P d' k = Some v'" using committed_result [OF c] by (simp add: product_key_def)
  have image: "map image_json xs = map image_json ys" if "map i_media xs = map i_media ys" for xs ys
  proof -
    have "map image_json zs = map (\<lambda>m. image_json \<lparr>i_product = [], i_media = m, i_position = 0\<rparr>) (map i_media zs)" for zs
      by (simp add: image_json_def)
    with that show ?thesis by metis
  qed
  from untouched_variants [OF J P doc c'] have same: "variants d' = variants d" "\<And>x. variant_json d' x = variant_json d x"
    by (simp_all add: same_variants_def variant_json_def values_of_def)
  from q(9) have locales: "part v' ''translations'' = JObj [(''ru'', snd (translation_json ru)), (''ro'', snd (translation_json ro))]"
    using document_parts [OF v'] by (elim exE conjE) simp
  have "part v ''id'' = JStr k" "part v' ''id'' = JStr k" "part v ''revision'' = JInt (p_revision p)"
      "part v' ''revision'' = JInt (p_revision p + 1)"
    using v v' p q(1,2,6) p'(1) by (auto simp: catalog_document_def part_def)
  moreover have "part v' ''slug'' = part v ''slug''" "part v' ''status'' = part v ''status''" "part v' ''brandId'' = part v ''brandId''"
    using document_parts [OF v] document_parts [OF v'] by (auto simp: p q(1,3-5))
  moreover have "part v' ''categoryIds'' = part v ''categoryIds''" "part v' ''images'' = part v ''images''"
    using document_parts [OF v] document_parts [OF v'] 
    by (auto simp: q(7) [unfolded categories_of_def] image [OF q(8) [unfolded images_of_def]])
  moreover have "part v' ''variants'' = part v ''variants''"
    using document_parts [OF v] document_parts [OF v'] by (auto simp: same)
  moreover have object: "part (JObj [(''ru'', x), (''ro'', y)]) ''ru'' = x" "part (JObj [(''ru'', x), (''ro'', y)]) ''ro'' = y" for x y
    by (simp_all add: part_def member_def)
  have "part (part v' ''translations'') l = part (part v ''translations'') l" if "l \<in> {''ru'', ''ro''}" for l
    using that texts object by (auto simp: locales)
  ultimately show ?thesis by (simp add: next_revision_def)
qed


subsection \<open>Properties\<close>

text \<open>
  C14. Opening and saving changes nothing.  An administrator opens a stored product in the editor
  and saves the untouched form.  The service accepts what the form sends, and the product is the
  same but for its revision, the next one: slug, status, brand, categories, images, all variants with
  their attributes, and both translations.  The product must have at most the 50 variants that
  \<open>validateDraft\<close> accepts, at least one, and an active one if it is active.
\<close>

theorem untouched_form_saves:
  assumes "jsoncpp_ok J" and "postgres_ok J P" and "documented (w_db w)" and "w_fates w = []"
    and "uuid key" and "find_product (w_db w) (lower key) = Some p" and "p_revision p + 1 < 2 ^ 31"
    and "uuid actor" and "lower actor \<in> u_id ` set (users (w_db w))" and "uuid corr"
    and "1 \<le> length (variants_of P (w_db w) (lower key))" and "length (variants_of P (w_db w) (lower key)) \<le> 50"
    and "p_status p = ''active'' \<longrightarrow> list_ex v_active (variants_of P (w_db w) (lower key))"
  shows "\<exists>v v' d'. service_find J P key True w = (Inr v, w) \<and> part v ''revision'' = JInt (p_revision p) \<and>
     service_save J P (save_body v (draft_of v)) actor corr key (p_revision p) w = (Inr v', w\<lparr>w_db := d'\<rparr>) \<and>
     next_revision v v'"
proof -
  let ?d = "w_db w"
  have p: "p_id p = lower key" "p \<in> set (products ?d)" using find_product_id [OF assms(6)] by auto
  have key: "key \<noteq> []" using uuid_nonempty [OF assms(5)] .
  obtain v where v: "catalog_document P ?d (lower key) = Some v" "part v ''revision'' = JInt (p_revision p)"
    using assms(6) by (auto simp: catalog_document_def part_def)
  from draft_of_document [OF assms(3) v(1)] assms(6) obtain ru ro where form:
      "ru \<in> set (product_texts ?d)" "ro \<in> set (product_texts ?d)" "save_body v (draft_of v) = form_rows P ?d p ru ro"
      "part (part v ''translations'') ''ru'' = snd (translation_json ru)" "part (part v ''translations'') ''ro'' = snd (translation_json ro)"
    by auto
  have ready: "valid_draft J (form_rows P ?d p ru ro)" "wf_json (form_rows P ?d p ru ro)" "storable (form_rows P ?d p ru ro)"
    using form_valid [OF assms(1,3) p(2) form(1,2)] form_storable [OF assms(1,3) p(2) form(1,2)] assms(11-13) by (simp_all add: p(1))
  have ok: "catalog_ok ?d" using assms(3) by simp
  from fitting_commits [OF assms(1,2) ready ok assms(9) form_fits [OF assms(3) p(2) assms(7)]] obtain v' d' where
    c: "committed P (form_rows P ?d p ru ro) (lower actor) (lower corr) (Some (lower key)) (p_revision p) ?d v' d'"
    unfolding p(1) by blast
  have "key = [] \<or> uuid key \<and> 1 \<le> p_revision p" using assms(5) product_facts(4) [OF assms(3) p(2)] by simp
  from committed_served [OF assms(1,2) ok assms(4) ready assms(8,10) this, of v' d'] c key
  have "service_save J P (form_rows P ?d p ru ro) actor corr key (p_revision p) w = (Inr v', w\<lparr>w_db := d'\<rparr>)" by simp
  moreover have "next_revision v v'"
    by (rule untouched_document [OF assms(1-3) assms(6) v(1) form(4,5) c])
  moreover have "service_find J P key True w = (Inr v, w)"
    by (rule service_find_admin [OF assms(2) ok assms(4,5) v(1)])
  ultimately show ?thesis using v(2) form(3) by auto
qed

text \<open>
  C38. A product outgrows its editor.  The variants a save leaves out stay in the product as inactive
  ones, and the form sends all of them: once a product has more than 50, the service refuses
  every untouched form of it with a 422 and nothing is saved.
\<close>

theorem outgrown_form_refused:
  assumes "jsoncpp_ok J" and "postgres_ok J P" and "documented (w_db w)" and "w_fates w = []"
    and "uuid key" and "find_product (w_db w) (lower key) = Some p"
    and "50 < length (variants_of P (w_db w) (lower key))"
  shows "\<exists>v m. service_find J P key True w = (Inr v, w) \<and>
     service_save J P (save_body v (draft_of v)) actor corr key (p_revision p) w = (Inl (validation_failed m), w)"
proof -
  let ?d = "w_db w"
  have p: "p_id p = lower key" using find_product_id [OF assms(6)] by auto
  obtain v where v: "catalog_document P ?d (lower key) = Some v"
    using assms(6) by (auto simp: catalog_document_def)
  from draft_of_document [OF assms(3) v] assms(6) obtain ru ro where form: "save_body v (draft_of v) = form_rows P ?d p ru ro"
    by auto
  let ?f = "form_rows P ?d p ru ro"
  have "draft_shaped ?f"
    by (auto simp: draft_shaped_def form_rows_def member_def translation_json_def indexable_def row_draft_def)
  moreover have "\<not> valid_draft J ?f"
    using assms(7) by (auto simp: valid_draft_def form_rows_def member_def p)
  ultimately obtain m where "validate_draft J ?f = Inl (validation_failed m)"
    using validate_draft_only_422 [OF assms(1), of ?f] validate_draft_Inr [OF assms(1), of ?f]
    by (cases "validate_draft J ?f") (auto simp: only_422_def)
  then have "service_save J P ?f actor corr key (p_revision p) w = (Inl (validation_failed m), w)"
    by (simp add: service_save_def bind_act_simp)
  moreover have ok: "catalog_ok ?d" using assms(3) by simp
  then have "service_find J P key True w = (Inr v, w)"
    by (rule service_find_admin [OF assms(2) _ assms(4,5) v])
  ultimately show ?thesis using form by auto
qed

subsection \<open>Examples\<close>

lemma sample_db1_product: "find_product sample_db1 (lower sample_product) =
    Some \<lparr>p_id = sample_product, p_slug = ''kettle'', p_brand = None, p_status = ''active'',
       p_revision = 1, p_created = 1000, p_updated = 1000\<rparr>"
  by (simp add: find_product_def sample_db1_def sample_rows_def sample_product_lower)

theorem untouched_form_saves_witness:
  "\<exists>v v' d'. service_find sample_jsoncpp sample_postgres sample_product True sample_catalog_world = (Inr v, sample_catalog_world) \<and>
     service_save sample_jsoncpp sample_postgres (save_body v (draft_of v)) sample_admin sample_admin sample_product 1
       sample_catalog_world = (Inr v', sample_catalog_world\<lparr>w_db := d'\<rparr>) \<and> next_revision v v'"
proof -
  let ?w = sample_catalog_world
  have w: "documented (w_db ?w)" "w_fates ?w = []" "find_product (w_db ?w) (lower sample_product) =
      Some \<lparr>p_id = sample_product, p_slug = ''kettle'', p_brand = None, p_status = ''active'',
       p_revision = 1, p_created = 1000, p_updated = 1000\<rparr>" "lower sample_admin \<in> u_id ` set (users (w_db ?w))"
    by (simp_all add: sample_catalog_world_facts sample_db1_documented sample_db1_product sample_lower)
      (simp add: sample_db1_def sample_rows_def sample_db_def empty_db_def)
  have vs: "length (variants_of sample_postgres (w_db ?w) (lower sample_product)) = 1"
      "list_ex v_active (variants_of sample_postgres (w_db ?w) (lower sample_product))"
    by (simp_all add: variants_of_def sample_catalog_world_facts sample_db1_def sample_rows_def sample_product_lower)
  from untouched_form_saves [OF sample_jsoncpp_ok sample_postgres_ok w(1,2) sample_uuids(3) w(3) _ sample_uuids(2) w(4) sample_uuids(2)] vs
  show ?thesis by auto
qed

definition outgrown_variants :: "variant_row list" where
  "outgrown_variants = map (\<lambda>n. \<lparr>v_id = sample_uuid n, v_product = sample_product, v_sku = replicate n (CHR ''K''), v_name = ''Steel'',
     v_price = 100, v_active = (n = 1)\<rparr>) [1..<52]"

definition outgrown_world :: world where
  "outgrown_world = sample_catalog_world\<lparr>w_db := sample_db1\<lparr>variants := outgrown_variants, attribute_values := []\<rparr>\<rparr>"

lemma leading_zeros: "digits_value (replicate k CHR ''0'' @ ds) = digits_value ds"
  by (induction k) (simp_all add: digits_value_def)

lemma sample_uuid_number:
  assumes "length (digits n) \<le> 12"
  shows "digits_value (drop 24 (sample_uuid n)) = n"
  using assms by (simp add: sample_uuid_def Let_def leading_zeros digits_value_digits)

lemma outgrown_rows:
  "list_all (\<lambda>v. variant_bounds v \<and> v_product v = sample_product \<and> fit_text 1 64 (v_sku v) \<and> fit_text 1 160 (v_name v)) outgrown_variants"
  "distinct (map v_id outgrown_variants)" "distinct (map v_sku outgrown_variants)" "length outgrown_variants = 51"
  "\<forall>v \<in> set outgrown_variants. canonical (v_id v)"
proof -
  show "list_all (\<lambda>v. variant_bounds v \<and> v_product v = sample_product \<and> fit_text 1 64 (v_sku v) \<and> fit_text 1 160 (v_name v)) outgrown_variants"
    by (auto simp: outgrown_variants_def list_all_iff variant_bounds_def fit_text_def text_eval char_count_def)
  have "list_all (\<lambda>n. length (digits n) \<le> 12) [1..<52]" by code_simp
  then have "map (digits_value \<circ> drop 24) (map v_id outgrown_variants) = [1..<52]"
    by (auto simp: outgrown_variants_def list_all_iff sample_uuid_number intro!: map_idI)
  then have "distinct (map (digits_value \<circ> drop 24) (map v_id outgrown_variants))" by (simp only: distinct_upt)
  then show "distinct (map v_id outgrown_variants)" unfolding distinct_map by blast
  show "distinct (map v_sku outgrown_variants)"
    by (auto simp: outgrown_variants_def distinct_map inj_on_def dest: arg_cong [where f = length])
  show "length outgrown_variants = 51" by (simp add: outgrown_variants_def)
  have "canonical (sample_uuid n)" for n using sample_uuids_ok by (simp add: uuids_ok_def sample_functions)
  then show "\<forall>v \<in> set outgrown_variants. canonical (v_id v)" by (simp add: outgrown_variants_def)
qed

lemma outgrown_documented: "documented (w_db outgrown_world)"
proof -
  let ?d = "sample_db1\<lparr>variants := outgrown_variants, attribute_values := []\<rparr>"
  have old: "documented sample_db1" by (rule sample_db1_documented)
  have "variants_ok (p_id ` set (products sample_db1)) outgrown_variants"
    using outgrown_rows by (auto simp: variants_ok_def list_all_iff sample_db1_def sample_rows_def)
  then have "catalog_ok ?d" using documented_ok [OF old] by (simp add: catalog_ok_def values_ok_def)
  moreover have "entity_ids ?d \<subseteq> entity_ids sample_db1 \<union> v_id ` set outgrown_variants" by (auto simp: entity_ids_def)
  then have "\<forall>k \<in> entity_ids ?d. canonical k" using old outgrown_rows(5) by (auto simp: documented_def)
  moreover have "product_written ?d = product_written sample_db1" by (rule ext) (simp add: product_written_def categories_of_def)
  then have "written ?d"
    using old outgrown_rows(1) by (simp add: documented_def written_def list_all_iff variant_written_def values_of_def)
  ultimately show ?thesis using old by (simp add: documented_def outgrown_world_def locales_of_def)
qed

theorem outgrown_form_refused_witness:
  "\<exists>v m. service_find sample_jsoncpp sample_postgres sample_product True outgrown_world = (Inr v, outgrown_world) \<and>
     service_save sample_jsoncpp sample_postgres (save_body v (draft_of v)) sample_admin sample_admin sample_product 1 outgrown_world =
       (Inl (validation_failed m), outgrown_world)"
proof -
  have db: "w_fates outgrown_world = []" "variants (w_db outgrown_world) = outgrown_variants"
    "find_product (w_db outgrown_world) (lower sample_product) = Some \<lparr>p_id = sample_product, p_slug = ''kettle'', p_brand = None,
       p_status = ''active'', p_revision = 1, p_created = 1000, p_updated = 1000\<rparr>"
    using sample_db1_product by (simp_all add: outgrown_world_def sample_catalog_world_facts find_product_def)
  have "filter (\<lambda>v. v_product v = sample_product) outgrown_variants = outgrown_variants"
    using outgrown_rows(1) by (auto simp: list_all_iff intro!: filter_True)
  then have "50 < length (variants_of sample_postgres (w_db outgrown_world) (lower sample_product))"
    by (simp add: variants_of_def db(2) sample_product_lower outgrown_rows(4))
  from outgrown_form_refused [OF sample_jsoncpp_ok sample_postgres_ok outgrown_documented db(1) sample_uuids(3) db(3) this,
      of sample_admin sample_admin]
  show ?thesis by simp
qed

end
