(* ===== verification/Migrations.thy ===== *)
theory Migrations
  imports Database Health
begin

text \<open>
  infra/scripts: the plan of the migrations (migration-plan.mjs) and the job that applies them
  (migrate.mjs).  The advisory lock lets one job run at a time, so a history is a sequence
  of runs, each on the directory it was deployed with; a transaction can be refused, or commit
  without the job seeing it.  SHA-256, the collation of \<open>localeCompare\<close> (by its sort keys) and
  the effect of a migration's SQL are parameters.
\<close>

subsection \<open>The plan\<close>

record migration_file =
  m_name :: string
  m_sql :: string

record planned =
  pl_name :: string
  pl_sql :: string
  pl_checksum :: string
  pl_applied :: bool

text \<open>\<open>/^\d{4}_[a-z0-9_]+\.sql$/\<close>\<close>

definition name_rx :: rx where
  "name_rx = Seq (Rep 4 (Cls [(CHR ''0'', CHR ''9'')])) (Seq (Lit CHR ''_'')
     (Seq (Plus (Cls [(CHR ''a'', CHR ''z''), (CHR ''0'', CHR ''9''), (CHR ''_'', CHR ''_'')]))
     (Seq (Lit CHR ''.'') (Seq (Lit CHR ''s'') (Seq (Lit CHR ''q'') (Lit CHR ''l''))))))"

definition migration_name :: "string \<Rightarrow> bool" where
  "migration_name s = regex_match s name_rx"

text \<open>\<open>[...known.keys()].sort().at(-1) ?? ''\<close>\<close>

definition latest_of :: "string list \<Rightarrow> string" where
  "latest_of versions = (case sort versions of [] \<Rightarrow> [] | vs \<Rightarrow> last vs)"

definition plan_entry ::
  "(string \<Rightarrow> string) \<Rightarrow> (string \<times> string) list \<Rightarrow> string \<Rightarrow> migration_file \<Rightarrow> string + planned" where
  "plan_entry sha history latest file =
    bind_res (throw_if (\<not> migration_name (m_name file)) (''Invalid migration name: '' @ m_name file)) (\<lambda>_.
    let checksum = sha (m_sql file); known = map_of (rev history) (m_name file) in
    bind_res (throw_if (known \<noteq> None \<and> known \<noteq> Some checksum) (''Applied migration changed: '' @ m_name file)) (\<lambda>_.
    bind_res (throw_if (known = None \<and> m_name file < latest) (''Out-of-order migration: '' @ m_name file)) (\<lambda>_.
    Inr \<lparr>pl_name = m_name file, pl_sql = m_sql file, pl_checksum = checksum, pl_applied = (known \<noteq> None)\<rparr>)))"

definition plan_migrations ::
  "(string \<Rightarrow> string) \<Rightarrow> (string \<Rightarrow> 'k::linorder) \<Rightarrow> migration_file list \<Rightarrow> (string \<times> string) list \<Rightarrow> string + planned list" where
  "plan_migrations sha key files history =
    bind_res (each (\<lambda>(version, _). throw_if (version \<notin> m_name ` set files) (''Applied migration is missing: '' @ version)) history) (\<lambda>_.
    map_res (plan_entry sha history (latest_of (map fst history))) (sort_key (\<lambda>f. key (m_name f)) files))"

subsection \<open>The job\<close>

text \<open>The database: its schema and data, and the rows of \<open>schema_migrations\<close> in the order they were inserted.\<close>

record 'db target =
  schema_state :: 'db
  journal :: "(string \<times> string) list"

text \<open>What becomes of a transaction: its reply comes, it is rolled back, or it commits and the reply is lost.\<close>

datatype outcome = Commits | Refuses | Unseen

definition apply_one :: "(string \<Rightarrow> 'db \<Rightarrow> 'db option) \<Rightarrow> planned \<Rightarrow> outcome \<Rightarrow> 'db target \<Rightarrow> bool \<times> 'db target" where
  "apply_one exec m outcome t =
    (case exec (pl_sql m) (schema_state t) of
       None \<Rightarrow> (False, t)
     | Some s \<Rightarrow> if outcome = Refuses \<or> pl_name m \<in> fst ` set (journal t) then (False, t)
         else (outcome = Commits, t\<lparr>schema_state := s, journal := journal t @ [(pl_name m, pl_checksum m)]\<rparr>))"

fun apply_all :: "(string \<Rightarrow> 'db \<Rightarrow> 'db option) \<Rightarrow> planned list \<Rightarrow> outcome list \<Rightarrow> 'db target \<Rightarrow> bool \<times> 'db target" where
  "apply_all exec [] outs t = (True, t)"
| "apply_all exec (m # ms) outs t =
    (if pl_applied m then apply_all exec ms outs t
     else case apply_one exec m (case outs of [] \<Rightarrow> Commits | out # _ \<Rightarrow> out) t of
         (True, t') \<Rightarrow> apply_all exec ms (drop 1 outs) t'
       | (False, t') \<Rightarrow> (False, t'))"

definition sql_files :: "migration_file list \<Rightarrow> migration_file list" where
  "sql_files directory = filter (\<lambda>f. ends_with (m_name f) ''.sql'') directory"

text \<open>The exit code, and the database; \<open>connects\<close> covers the connection, the lock, the table and the files.\<close>

definition migrate ::
  "(string \<Rightarrow> string) \<Rightarrow> bool \<Rightarrow> (string \<Rightarrow> string) \<Rightarrow> (string \<Rightarrow> 'k::linorder) \<Rightarrow> (string \<Rightarrow> 'db \<Rightarrow> 'db option) \<Rightarrow>
     migration_file list \<Rightarrow> outcome list \<Rightarrow> 'db target \<Rightarrow> int \<times> 'db target" where
  "migrate getenv connects sha key exec directory outs t =
    (if list_ex (\<lambda>k. getenv k = []) [''PGHOST'', ''PGDATABASE'', ''PGUSER'', ''PGPASSWORD''] \<or> \<not> connects then (1, t)
     else case plan_migrations sha key (sql_files directory) (journal t) of
         Inl _ \<Rightarrow> (1, t)
       | Inr ms \<Rightarrow> (case apply_all exec ms outs t of (done_all, t') \<Rightarrow> (if done_all then 0 else 1, t')))"

subsection \<open>The entries of a plan\<close>

definition entry_of :: "(string \<Rightarrow> string) \<Rightarrow> (string \<times> string) list \<Rightarrow> migration_file \<Rightarrow> planned" where
  "entry_of sha history f = \<lparr>pl_name = m_name f, pl_sql = m_sql f, pl_checksum = sha (m_sql f),
     pl_applied = (m_name f \<in> fst ` set history)\<rparr>"

lemma entry_of_simps [simp]:
  "pl_name (entry_of sha h f) = m_name f" "pl_sql (entry_of sha h f) = m_sql f"
  "pl_checksum (entry_of sha h f) = sha (m_sql f)" "pl_applied (entry_of sha h f) \<longleftrightarrow> m_name f \<in> fst ` set h"
  by (simp_all add: entry_of_def)

lemma known_iff: "map_of (rev history) v \<noteq> None \<longleftrightarrow> v \<in> fst ` set history"
  by (simp add: map_of_eq_None_iff)

lemma known_some: "distinct (map fst history) \<Longrightarrow> map_of (rev history) v = Some c \<longleftrightarrow> (v, c) \<in> set history"
  by (simp add: map_of_eq_Some_iff flip: rev_map)

lemma known_none: "map_of (rev history) v = None \<longleftrightarrow> v \<notin> fst ` set history"
  by (simp add: map_of_eq_None_iff)

lemma changed_iff:
  assumes "distinct (map fst history)"
  shows "map_of (rev history) v \<noteq> None \<and> map_of (rev history) v \<noteq> Some c \<longleftrightarrow> (\<exists>c'. (v, c') \<in> set history \<and> c' \<noteq> c)"
proof (cases "map_of (rev history) v")
  case None
  then have "(v, c') \<notin> set history" for c' using known_some [OF assms, of v c'] by simp
  then show ?thesis using None by simp
next
  case (Some a)
  then have "(v, c') \<in> set history \<longleftrightarrow> c' = a" for c' using known_some [OF assms, of v c'] by auto
  then show ?thesis using Some by auto
qed

lemma plan_entry_Inr:
  assumes "distinct (map fst history)"
  shows "plan_entry sha history latest f = Inr e \<longleftrightarrow> migration_name (m_name f) \<and>
    (\<forall>c. (m_name f, c) \<in> set history \<longrightarrow> c = sha (m_sql f)) \<and>
    (m_name f \<notin> fst ` set history \<longrightarrow> latest \<le> m_name f) \<and> e = entry_of sha history f"
  unfolding plan_entry_def Let_def bind_res_eq_Inr throw_if_eq_Inr changed_iff [OF assms]
  unfolding known_iff known_none entry_of_def not_less [symmetric]
  by auto

lemma sorted_le_last: "sorted vs \<Longrightarrow> v \<in> set vs \<Longrightarrow> v \<le> last vs"
  by (induction vs) auto

lemma latest_of_le: "latest_of vs \<le> x \<longleftrightarrow> (\<forall>v \<in> set vs. v \<le> x)"
proof (cases "sort vs")
  case Nil
  then have "vs = []" by (metis length_0_conv length_sort)
  then show ?thesis by (simp add: latest_of_def)
next
  case (Cons a as)
  then have l: "latest_of vs = last (sort vs)" "sort vs \<noteq> []" by (simp_all add: latest_of_def)
  have "v \<le> last (sort vs)" if "v \<in> set vs" for v
    using sorted_le_last [of "sort vs" v] that by simp
  moreover have "last (sort vs) \<in> set vs" using last_in_set [OF l(2)] by simp
  ultimately show ?thesis using l(1) by (auto intro: order_trans)
qed

lemma map_res_eq_Inr:
  "map_res f xs = Inr ys \<longleftrightarrow> list_all2 (\<lambda>x y. f x = Inr y) xs ys"
  by (induction xs arbitrary: ys) (auto simp: list_all2_Cons1 bind_res_eq_Inr)

definition names :: "migration_file list \<Rightarrow> string set" where
  "names fs = m_name ` set fs"

definition recorded :: "(string \<Rightarrow> string) \<Rightarrow> migration_file \<Rightarrow> string \<times> string" where
  "recorded sha f = (m_name f, sha (m_sql f))"

definition unapplied :: "(string \<times> string) list \<Rightarrow> migration_file list \<Rightarrow> migration_file list" where
  "unapplied history fs = filter (\<lambda>f. m_name f \<notin> fst ` set history) fs"

text \<open>When a directory can be planned on a history.\<close>

definition plannable :: "(string \<Rightarrow> string) \<Rightarrow> migration_file list \<Rightarrow> (string \<times> string) list \<Rightarrow> bool" where
  "plannable sha files history \<longleftrightarrow> fst ` set history \<subseteq> names files \<and>
     (\<forall>f \<in> set files. migration_name (m_name f) \<and>
        (\<forall>c. (m_name f, c) \<in> set history \<longrightarrow> c = sha (m_sql f)) \<and>
        (m_name f \<notin> fst ` set history \<longrightarrow> (\<forall>v \<in> fst ` set history. v \<le> m_name f)))"

lemma plan_migrations_Inr:
  assumes "distinct (map fst history)"
  shows "plan_migrations sha key files history = Inr ms \<longleftrightarrow> plannable sha files history \<and>
     ms = map (entry_of sha history) (sort_key (\<lambda>f. key (m_name f)) files)"
proof -
  let ?fs = "sort_key (\<lambda>f. key (m_name f)) files"
  have "each (\<lambda>(version, _). throw_if (version \<notin> m_name ` set files) (''Applied migration is missing: '' @ version)) history = Inr ()
      \<longleftrightarrow> fst ` set history \<subseteq> names files"
    by (auto simp: each_eq_Inr names_def)
  moreover have "map_res (plan_entry sha history (latest_of (map fst history))) ?fs = Inr ms \<longleftrightarrow>
      (\<forall>f \<in> set files. migration_name (m_name f) \<and>
        (\<forall>c. (m_name f, c) \<in> set history \<longrightarrow> c = sha (m_sql f)) \<and>
        (m_name f \<notin> fst ` set history \<longrightarrow> (\<forall>v \<in> fst ` set history. v \<le> m_name f))) \<and>
      ms = map (entry_of sha history) ?fs" (is "_ \<longleftrightarrow> (\<forall>f \<in> set files. ?C f) \<and> _")
  proof -
    have "map_res (plan_entry sha history (latest_of (map fst history))) fs = Inr ms \<longleftrightarrow>
        (\<forall>f \<in> set fs. ?C f) \<and> ms = map (entry_of sha history) fs" for fs ms
      unfolding map_res_eq_Inr plan_entry_Inr [OF assms] latest_of_le
      by (induction fs arbitrary: ms) (auto simp: list_all2_Cons1)
    then show ?thesis by simp
  qed
  ultimately show ?thesis
    unfolding plan_migrations_def bind_res_eq_Inr plannable_def by auto
qed

subsection \<open>The runs\<close>

fun run_sqls :: "(string \<Rightarrow> 'db \<Rightarrow> 'db option) \<Rightarrow> string list \<Rightarrow> 'db \<Rightarrow> 'db option" where
  "run_sqls exec [] s = Some s"
| "run_sqls exec (q # qs) s = (case exec q s of None \<Rightarrow> None | Some s' \<Rightarrow> run_sqls exec qs s')"

lemma run_sqls_append:
  "run_sqls exec (qs @ rs) s = (case run_sqls exec qs s of None \<Rightarrow> None | Some s' \<Rightarrow> run_sqls exec rs s')"
  by (induction qs arbitrary: s) (auto split: option.splits)

lemma apply_one_cases:
  assumes "apply_one exec (entry_of sha h f) out t = (c, t')"
  obtains (same) "\<not> c" "t' = t"
  | (kept) s where "exec (m_sql f) (schema_state t) = Some s"
      "t' = t\<lparr>schema_state := s, journal := journal t @ [recorded sha f]\<rparr>"
  using assms by (auto simp: apply_one_def recorded_def split: option.splits if_splits)

text \<open>A run records a prefix of what was pending, all of it when it succeeds.\<close>

lemma apply_all_prefix:
  assumes "apply_all exec (map (entry_of sha h) fs) outs t = (b, t')"
  shows "\<exists>pre post. unapplied h fs = pre @ post \<and> (b \<longrightarrow> post = []) \<and>
     run_sqls exec (map m_sql pre) (schema_state t) = Some (schema_state t') \<and>
     journal t' = journal t @ map (recorded sha) pre"
  using assms
proof (induction fs arbitrary: outs t)
  case Nil
  then show ?case by (simp add: unapplied_def)
next
  case (Cons f fs)
  show ?case
  proof (cases "m_name f \<in> fst ` set h")
    case True
    then have "apply_all exec (map (entry_of sha h) fs) outs t = (b, t')" using Cons.prems by (simp)
    from Cons.IH [OF this] True show ?thesis by (simp add: unapplied_def)
  next
    case False
    let ?e = "entry_of sha h f" and ?o = "case outs of [] \<Rightarrow> Commits | out # _ \<Rightarrow> out"
    have p: "unapplied h (f # fs) = f # unapplied h fs" using False by (simp add: unapplied_def)
    obtain c t1 where one: "apply_one exec ?e ?o t = (c, t1)" by fastforce
    have step: "(if c then apply_all exec (map (entry_of sha h) fs) (drop 1 outs) t1 else (False, t1)) = (b, t')"
      using Cons.prems False one by (cases c) (simp_all)
    from one show ?thesis
    proof (cases rule: apply_one_cases)
      case same
      then have "b = False \<and> t' = t" using step by auto
      then show ?thesis unfolding p by (intro exI [of _ "[]"] exI [of _ "f # unapplied h fs"]) simp
    next
      case kept
      show ?thesis
      proof (cases c)
        case False
        then have "b = False \<and> t' = t1" using step by auto
        then show ?thesis unfolding p
          by (intro exI [of _ "[f]"] exI [of _ "unapplied h fs"]) (simp add: kept)
      next
        case True
        then have "apply_all exec (map (entry_of sha h) fs) (drop 1 outs) t1 = (b, t')" using step by simp
        from Cons.IH [OF this] obtain pre post where "unapplied h fs = pre @ post" "b \<longrightarrow> post = []"
            "run_sqls exec (map m_sql pre) (schema_state t1) = Some (schema_state t')"
            "journal t' = journal t1 @ map (recorded sha) pre" by blast
        then show ?thesis unfolding p
          by (intro exI [of _ "f # pre"] exI [of _ post]) (simp add: kept)
      qed
    qed
  qed
qed

lemma apply_all_undisturbed:
  assumes "distinct (map m_name fs)" and "fst ` set (journal t) \<inter> names (unapplied h fs) = {}"
    and "run_sqls exec (map m_sql (unapplied h fs)) (schema_state t) = Some s"
  shows "apply_all exec (map (entry_of sha h) fs) [] t =
     (True, t\<lparr>schema_state := s, journal := journal t @ map (recorded sha) (unapplied h fs)\<rparr>)"
  using assms
proof (induction fs arbitrary: t)
  case Nil
  then show ?case by (simp add: unapplied_def)
next
  case (Cons f fs)
  show ?case
  proof (cases "m_name f \<in> fst ` set h")
    case True
    then show ?thesis using Cons by (simp add: unapplied_def)
  next
    case False
    have p: "unapplied h (f # fs) = f # unapplied h fs" using False by (simp add: unapplied_def)
    obtain s1 where s1: "exec (m_sql f) (schema_state t) = Some s1" "run_sqls exec (map m_sql (unapplied h fs)) s1 = Some s"
      using Cons.prems(3) unfolding p by (auto split: option.splits)
    have free: "m_name f \<notin> fst ` set (journal t)" using Cons.prems(2) unfolding p by (auto simp: names_def)
    let ?t = "t\<lparr>schema_state := s1, journal := journal t @ [recorded sha f]\<rparr>"
    have "m_name f \<notin> names (unapplied h fs)" using Cons.prems(1) by (auto simp: names_def unapplied_def)
    then have "fst ` set (journal ?t) \<inter> names (unapplied h fs) = {}"
      using Cons.prems(2) unfolding p by (auto simp: names_def recorded_def)
    from Cons.IH [of ?t, OF _ this] s1(2) Cons.prems(1)
    have "apply_all exec (map (entry_of sha h) fs) [] ?t = (True, ?t\<lparr>schema_state := s,
        journal := journal ?t @ map (recorded sha) (unapplied h fs)\<rparr>)" by simp
    moreover have "apply_one exec (entry_of sha h f) Commits t = (True, ?t)"
      using s1(1) free by (simp add: apply_one_def  recorded_def)
    ultimately show ?thesis using False unfolding p by (simp)
  qed
qed

subsection \<open>Histories of runs\<close>

text \<open>
  What the job relies on in \<open>localeCompare\<close>: names of migrations are compared by their numbers
  first, which are digits.
\<close>

definition collates :: "(string \<Rightarrow> 'k::linorder) \<Rightarrow> bool" where
  "collates key \<longleftrightarrow> (\<forall>a b. migration_name a \<longrightarrow> migration_name b \<longrightarrow> take 4 a < take 4 b \<longrightarrow> key a < key b)"

text \<open>Any sequence of runs, on any directories, whatever becomes of their transactions.\<close>

inductive migrated ::
  "(string \<Rightarrow> string) \<Rightarrow> (string \<Rightarrow> 'k::linorder) \<Rightarrow> (string \<Rightarrow> 'db \<Rightarrow> 'db option) \<Rightarrow> 'db \<Rightarrow> 'db target \<Rightarrow> bool"
  for sha key exec s0 where
  fresh: "migrated sha key exec s0 \<lparr>schema_state = s0, journal = []\<rparr>"
| run: "migrated sha key exec s0 t \<Longrightarrow> distinct (map m_name directory) \<Longrightarrow>
    migrated sha key exec s0 (snd (migrate getenv connects sha key exec directory outs t))"

definition journal_ok :: "(string \<Rightarrow> string) \<Rightarrow> (string \<Rightarrow> 'db \<Rightarrow> 'db option) \<Rightarrow> 'db \<Rightarrow> 'db target \<Rightarrow> bool" where
  "journal_ok sha exec s0 t \<longleftrightarrow> distinct (map fst (journal t)) \<and> list_all migration_name (map fst (journal t)) \<and>
     sorted (map (\<lambda>v. take 4 (fst v)) (journal t)) \<and>
     (\<exists>sqls. map sha sqls = map snd (journal t) \<and> run_sqls exec sqls s0 = Some (schema_state t))"

lemma take_mono: "(a :: 'a::linorder list) \<le> b \<Longrightarrow> take n a \<le> take n b"
proof (induction n arbitrary: a b)
  case (Suc n)
  then show ?case by (cases a; cases b) auto
qed simp

definition ordered :: "(string \<Rightarrow> 'k::linorder) \<Rightarrow> migration_file list \<Rightarrow> migration_file list" where
  "ordered key directory = sort_key (\<lambda>f. key (m_name f)) (sql_files directory)"

lemma ordered_facts:
  "set (ordered key directory) = set (sql_files directory)"
  "distinct (map m_name directory) \<Longrightarrow> distinct (map m_name (sql_files directory))"
  "distinct (map m_name directory) \<Longrightarrow> distinct (map m_name (ordered key directory))"
  by (simp_all add: ordered_def sql_files_def distinct_map inj_on_def)

lemma ordered_sorted:
  assumes "collates key" and "\<forall>f \<in> set (sql_files directory). migration_name (m_name f)"
  shows "sorted (map (\<lambda>f. take 4 (m_name f)) (ordered key directory))"
proof -
  have "sorted_wrt (\<lambda>f g. key (m_name f) \<le> key (m_name g)) (ordered key directory)"
    using sorted_sort_key [of "\<lambda>f. key (m_name f)" "sql_files directory"] by (simp add: ordered_def sorted_map)
  moreover have "take 4 (m_name f) \<le> take 4 (m_name g)"
    if "f \<in> set (ordered key directory)" "g \<in> set (ordered key directory)" "key (m_name f) \<le> key (m_name g)" for f g
    using assms that unfolding collates_def ordered_facts(1) by (meson leD not_le)
  ultimately show ?thesis unfolding sorted_map by (rule sorted_wrt_mono_rel [rotated])
qed

lemma migrate_cases:
  assumes "distinct (map fst (journal t))" and "migrate getenv connects sha key exec directory outs t = (c, t')"
  obtains (kept) "c = 1" "t' = t"
  | (ran) pre post where "plannable sha (sql_files directory) (journal t)" "unapplied (journal t) (ordered key directory) = pre @ post"
      "c = 0 \<longrightarrow> post = []" "run_sqls exec (map m_sql pre) (schema_state t) = Some (schema_state t')"
      "journal t' = journal t @ map (recorded sha) pre"
proof (cases "list_ex (\<lambda>k. getenv k = []) [''PGHOST'', ''PGDATABASE'', ''PGUSER'', ''PGPASSWORD''] \<or> \<not> connects")
  case True
  then show ?thesis using assms(2) kept unfolding migrate_def by (simp only: if_True prod.inject)
next
  case False
  show ?thesis
  proof (cases "plan_migrations sha key (sql_files directory) (journal t)")
    case (Inl e)
    then show ?thesis using assms(2) kept False unfolding migrate_def by (simp only: if_False sum.case prod.inject)
  next
    case (Inr ms)
    obtain b t1 where all: "apply_all exec ms outs t = (b, t1)" by fastforce
    have out: "c = (if b then 0 else 1)" "t1 = t'" using assms(2) False Inr all unfolding migrate_def by simp_all
    from Inr have "plannable sha (sql_files directory) (journal t)" "ms = map (entry_of sha (journal t)) (ordered key directory)"
      unfolding plan_migrations_Inr [OF assms(1)] ordered_def by simp_all
    with apply_all_prefix [of exec sha "journal t" "ordered key directory" outs t b t1] all ran out show ?thesis by force
  qed
qed

lemma unapplied_of: "f \<in> set (unapplied h fs) \<longleftrightarrow> f \<in> set fs \<and> m_name f \<notin> fst ` set h"
  by (auto simp: unapplied_def)

lemma unapplied_new: "fst ` set h \<inter> names (unapplied h fs) = {}"
  by (force simp: names_def unapplied_def image_iff)

lemma migrate_keeps:
  assumes ok: "journal_ok sha exec s0 t" and "distinct (map m_name directory)" and "collates key"
    and m: "migrate getenv connects sha key exec directory outs t = (c, t')"
  shows "journal_ok sha exec s0 t'"
proof -
  have dist: "distinct (map fst (journal t))" using ok by (simp add: journal_ok_def)
  from dist m show ?thesis
  proof (cases rule: migrate_cases)
    case kept
    then show ?thesis using ok by simp
  next
    case (ran pre post)
    have valid: "\<forall>f \<in> set (sql_files directory). migration_name (m_name f)" using ran(1) by (auto simp: plannable_def)
    have pre: "f \<in> set (sql_files directory) \<and> m_name f \<notin> fst ` set (journal t)" if "f \<in> set pre" for f
    proof -
      have "f \<in> set (unapplied (journal t) (ordered key directory))" using ran(2) that by simp
      then show ?thesis unfolding unapplied_of ordered_facts(1) .
    qed
    have "distinct (map m_name (unapplied (journal t) (ordered key directory)))"
      unfolding unapplied_def using ordered_facts(3) [OF assms(2), of key] by (simp add: distinct_map_filter)
    then have d: "distinct (map m_name pre)" unfolding ran(2) by simp
    have "sorted (map (\<lambda>f. take 4 (m_name f)) (unapplied (journal t) (ordered key directory)))"
      unfolding unapplied_def using ordered_sorted [OF assms(3) valid] by (simp add: sorted_filter)
    then have s: "sorted (map (\<lambda>f. take 4 (m_name f)) pre)" unfolding ran(2) by (simp add: sorted_append)
    have "take 4 (fst v) \<le> take 4 (m_name f)" if "v \<in> set (journal t)" "f \<in> set pre" for v f
    proof -
      have "fst v \<le> m_name f" using ran(1) pre [OF that(2)] that(1) by (auto simp: plannable_def)
      then show ?thesis by (rule take_mono)
    qed
    then have "sorted (map (\<lambda>v. take 4 (fst v)) (journal t'))"
      using ok s unfolding ran(5) by (auto simp: journal_ok_def sorted_append recorded_def comp_def)
    moreover have "set (map fst (journal t)) \<inter> set (map m_name pre) = {}"
    proof -
      have "fst v \<noteq> m_name f" if "f \<in> set pre" "v \<in> set (journal t)" for f v using pre [OF that(1)] that(2) by force
      then show ?thesis by fastforce
    qed
    then have "distinct (map fst (journal t'))"
      using dist d unfolding ran(5) by (simp add: recorded_def comp_def del: set_map)
    moreover have "list_all migration_name (map fst (journal t'))"
      using ok valid pre unfolding ran(5) by (auto simp: journal_ok_def list_all_iff recorded_def)
    moreover obtain sqls where "map sha sqls = map snd (journal t)" "run_sqls exec sqls s0 = Some (schema_state t)"
      using ok by (auto simp: journal_ok_def)
    then have "map sha (sqls @ map m_sql pre) = map snd (journal t')" "run_sqls exec (sqls @ map m_sql pre) s0 = Some (schema_state t')"
      using ran(4) unfolding ran(5) by (simp_all add: run_sqls_append recorded_def)
    then have "\<exists>sqls. map sha sqls = map snd (journal t') \<and> run_sqls exec sqls s0 = Some (schema_state t')" by blast
    ultimately show ?thesis unfolding journal_ok_def by blast
  qed
qed

lemma migrated_ok: "migrated sha key exec s0 t \<Longrightarrow> collates key \<Longrightarrow> journal_ok sha exec s0 t"
proof (induction rule: migrated.induct)
  case fresh
  show ?case by (auto simp: journal_ok_def intro: exI [of _ "[]"])
next
  case (run t directory getenv connects outs)
  show ?case using migrate_keeps [OF run.IH [OF run.prems] run.hyps(2) run.prems] by (metis prod.collapse)
qed

subsection \<open>Properties\<close>

text \<open>
  The journal tells how the schema came about.  After any sequence of runs of the job, on any
  directories and with transactions that are refused or whose reply is lost, the schema is the
  initial one with the SQL of the recorded migrations executed in the recorded order; each is
  recorded once, under a valid name, with the checksum of the SQL that was executed, and in the
  order of the migrations' numbers.
\<close>

lemma migrations_are_recorded:
  assumes "migrated sha key exec s0 t" and "collates key"
  shows "(\<exists>sqls. map sha sqls = map snd (journal t) \<and> run_sqls exec sqls s0 = Some (schema_state t)) \<and>
     distinct (map fst (journal t)) \<and> list_all migration_name (map fst (journal t)) \<and>
     sorted (map (\<lambda>v. take 4 (fst v)) (journal t))"
  using migrated_ok [OF assms] by (simp add: journal_ok_def)

text \<open>The reply of the readiness probe's query (HealthRepository.cpp) on this table.\<close>

definition applied_reply :: "'db target \<Rightarrow> pg_reply" where
  "applied_reply t = Pg_Versions (filter (\<lambda>v. v = ''0003_catalog_write.sql'') (map fst (journal t)))"

lemma ready_iff:
  assumes "distinct (map fst (journal t))"
  shows "Reply (json_response ready_body) \<in> set (ready_route (applied_reply t) redis uid req) \<longleftrightarrow>
     ''0003_catalog_write.sql'' \<in> fst ` set (journal t) \<and> redis = Redis_String ''PONG''"
proof -
  have count: "length (filter (\<lambda>v. v = x) vs) = (if x \<in> set vs then 1 else 0)" if "distinct vs" for x :: string and vs
    using that by (induction vs) auto
  have "(length (filter (\<lambda>v. v = ''0003_catalog_write.sql'') (filter (\<lambda>v. v = ''0003_catalog_write.sql'') (map fst (journal t)))) = 1)
      \<longleftrightarrow> ''0003_catalog_write.sql'' \<in> fst ` set (journal t)"
    using count [OF assms, of "''0003_catalog_write.sql''"] by simp
  then show ?thesis
    by (cases redis) (auto simp: applied_reply_def ready_route_def service_ready_def check_postgres_def check_redis_def
        Let_def api_error_def json_response_def split: prod.splits)
qed

text \<open>
  C40. A job that exits with 0 has applied the directory, and the service it is deployed with
  becomes ready.  The recorded migrations are then exactly the .sql files, each with its checksum, and the
  earlier records are untouched; the readiness probe answers 200 if and only if the directory has
  the migration that the API was built for and Redis answers \<open>PONG\<close>.
\<close>

theorem migrated_is_ready:
  assumes "migrated sha key exec s0 t" and "collates key" and "distinct (map m_name directory)"
    and "migrate getenv connects sha key exec directory outs t = (0, t')"
  shows "set (journal t') = recorded sha ` set (sql_files directory) \<and> prefix (journal t) (journal t') \<and>
     (Reply (json_response ready_body) \<in> set (ready_route (applied_reply t') redis uid req) \<longleftrightarrow>
        ''0003_catalog_write.sql'' \<in> names directory \<and> redis = Redis_String ''PONG'')"
proof -
  have ok: "journal_ok sha exec s0 t" using migrated_ok [OF assms(1,2)] .
  then have dist: "distinct (map fst (journal t))" by (simp add: journal_ok_def)
  from dist assms(4) show ?thesis
  proof (cases rule: migrate_cases)
    case kept
    then show ?thesis by simp
  next
    case (ran pre post)
    let ?fs = "set (sql_files directory)"
    have pre: "set pre = {f \<in> ?fs. m_name f \<notin> fst ` set (journal t)}"
      using ran(2,3) unapplied_of [of _ "journal t" "ordered key directory"] unfolding ordered_facts(1) by auto
    have old: "set (journal t) = recorded sha ` {f \<in> ?fs. m_name f \<in> fst ` set (journal t)}"
    proof (rule set_eqI, clarify)
      fix v c
      have "(v, c) = recorded sha f" if "f \<in> ?fs" "m_name f = v" "(v, c) \<in> set (journal t)" for f
        using ran(1) that by (auto simp: plannable_def recorded_def)
      moreover have "\<exists>f \<in> ?fs. m_name f = v" if "(v, c) \<in> set (journal t)"
        using ran(1) that by (force simp: plannable_def names_def)
      moreover have "recorded sha f \<in> set (journal t)" if "f \<in> ?fs" "m_name f \<in> fst ` set (journal t)" for f
        using ran(1) that by (force simp: plannable_def recorded_def)
      ultimately show "(v, c) \<in> set (journal t) \<longleftrightarrow> (v, c) \<in> recorded sha ` {f \<in> ?fs. m_name f \<in> fst ` set (journal t)}"
        by (smt (verit, best) imageE image_eqI fst_conv mem_Collect_eq)
    qed
    have "set (journal t') = set (journal t) \<union> recorded sha ` set pre" unfolding ran(5) by simp
    also have "\<dots> = recorded sha ` ?fs" unfolding pre by (subst old) auto
    finally have all: "set (journal t') = recorded sha ` ?fs" .
    have "journal_ok sha exec s0 t'" using migrate_keeps [OF ok assms(3,2,4)] .
    then have dist': "distinct (map fst (journal t'))" by (simp add: journal_ok_def)
    have "ends_with ''0003_catalog_write.sql'' ''.sql''" by (simp add: ends_with_suffix suffix_def)
    then have "''0003_catalog_write.sql'' \<in> fst ` set (journal t') \<longleftrightarrow> ''0003_catalog_write.sql'' \<in> names directory"
      unfolding all names_def by (auto simp: recorded_def sql_files_def image_image image_iff)
    then show ?thesis using all unfolding ready_iff [OF dist'] ran(5) by simp
  qed
qed

lemma resumed_plannable:
  assumes "plannable sha fs h" and "unapplied h gs = pre @ post" and "set gs = set fs"
    and "distinct (map m_name gs)" and "distinct (map (\<lambda>f. take 4 (m_name f)) gs)" and "sorted (map (\<lambda>f. take 4 (m_name f)) gs)"
  shows "plannable sha fs (h @ map (recorded sha) pre)" "unapplied (h @ map (recorded sha) pre) gs = post"
proof -
  let ?h = "h @ map (recorded sha) pre"
  have names: "distinct (map m_name (pre @ post))"
    unfolding assms(2) [symmetric] unapplied_def using assms(4) by (simp only: distinct_map_filter)
  have "unapplied ?h gs = filter (\<lambda>f. m_name f \<notin> m_name ` set pre) (unapplied h gs)"
    by (simp add: unapplied_def recorded_def image_Un image_image conj_commute)
  also have "\<dots> = post"
    using names unfolding assms(2) by (auto simp: filter_empty_conv filter_id_conv)
  finally show post: "unapplied ?h gs = post" .
  have pre: "f \<in> set fs" if "f \<in> set pre" for f
    using that assms(2,3) unapplied_of [of f h gs] by auto
  have order: "m_name g \<le> m_name f" if "g \<in> set pre" "f \<in> set post" for f g
  proof -
    have "sorted (map (\<lambda>f. take 4 (m_name f)) (pre @ post))" "distinct (map (\<lambda>f. take 4 (m_name f)) (pre @ post))"
      unfolding assms(2) [symmetric] unapplied_def using assms(5,6) by (simp_all only: sorted_filter distinct_map_filter)
    then have "take 4 (m_name g) \<le> take 4 (m_name f)" "take 4 (m_name g) \<noteq> take 4 (m_name f)"
      using that by (auto simp: sorted_append)
    then show ?thesis using take_mono [of "m_name f" "m_name g" 4] by force
  qed
  have rest: "f \<in> set post" if "f \<in> set fs" "m_name f \<notin> fst ` set ?h" for f
    using that assms(3) post unapplied_of [of f ?h gs] by auto
  have sums: "c = sha (m_sql f)" if sel: "f \<in> set fs" "(m_name f, c) \<in> set ?h" for f c
  proof (cases "(m_name f, c) \<in> set h")
    case True
    then show ?thesis using assms(1) sel(1) by (simp add: plannable_def)
  next
    case False
    then obtain g where g: "g \<in> set pre" "(m_name f, c) = recorded sha g" using sel(2) by auto
    then have "g = f" using assms(3,4) pre [OF g(1)] sel(1) by (auto simp: recorded_def distinct_map inj_on_def)
    then show ?thesis using g(2) by (simp add: recorded_def)
  qed
  have known: "fst ` set ?h \<subseteq> names fs" using assms(1) pre by (auto simp: plannable_def names_def recorded_def)
  have old: "v \<le> m_name f" if sel: "f \<in> set fs" "m_name f \<notin> fst ` set ?h" "v \<in> fst ` set ?h" for f v
  proof (cases "v \<in> fst ` set h")
    case True
    then show ?thesis using assms(1) sel(1,2) unfolding plannable_def set_append image_Un by blast
  next
    case False
    then obtain g where "g \<in> set pre" "v = m_name g" using sel(3) by (auto simp: recorded_def)
    then show ?thesis using order [OF _ rest [OF sel(1,2)]] by simp
  qed
  have valid: "migration_name (m_name f)" if "f \<in> set fs" for f using assms(1) that by (simp add: plannable_def)
  show "plannable sha fs ?h"
    unfolding plannable_def by (intro conjI ballI allI impI known valid sums old; assumption)
qed

text \<open>
  C39. An interrupted run is resumed.  If the numbers of the migrations of a directory are distinct and a
  run on it would succeed, then a run on it that ends anywhere - in front of a migration, after
  the commit of one whose reply was lost, or without a connection - leaves a database on which
  the next undisturbed run succeeds, with the schema and the journal of the run that was not
  interrupted.
\<close>

theorem interrupted_run_resumes:
  assumes "migrated sha key exec s0 t" and "collates key" and "distinct (map m_name directory)"
    and "distinct (map (\<lambda>f. take 4 (m_name f)) (sql_files directory))"
    and "migrate getenv connects sha key exec directory [] t = (0, t1)"
    and "migrate getenv' connects' sha key exec directory outs t = (c, t2)"
  shows "migrate getenv connects sha key exec directory [] t2 = (0, t1)"
proof -
  let ?gs = "ordered key directory"
  have dist: "distinct (map fst (journal t))" using migrated_ok [OF assms(1,2)] by (simp add: journal_ok_def)
  have dist2: "distinct (map fst (journal t2))"
    using migrate_keeps [OF migrated_ok [OF assms(1,2)] assms(3,2,6)] by (simp add: journal_ok_def)
  from dist assms(5) obtain pre1 post1 where first: "unapplied (journal t) ?gs = pre1 @ post1" "post1 = []"
      "run_sqls exec (map m_sql pre1) (schema_state t) = Some (schema_state t1)" "journal t1 = journal t @ map (recorded sha) pre1"
    by (cases rule: migrate_cases) auto
  from dist assms(6) show ?thesis
  proof (cases rule: migrate_cases)
    case kept
    then show ?thesis using assms(5) by simp
  next
    case (ran pre post)
    have "distinct (map (\<lambda>f. take 4 (m_name f)) ?gs)" using assms(4) by (simp add: ordered_def distinct_map)
    moreover have "\<forall>f \<in> set (sql_files directory). migration_name (m_name f)" using ran(1) by (auto simp: plannable_def)
    ultimately have again: "plannable sha (sql_files directory) (journal t2)" "unapplied (journal t2) ?gs = post"
      using resumed_plannable [OF ran(1,2) ordered_facts(1) ordered_facts(3) [OF assms(3)] _ ordered_sorted [OF assms(2)]]
      unfolding ran(5) by blast+
    have "run_sqls exec (map m_sql post) (schema_state t2) = Some (schema_state t1)"
      using first(1-3) ran(2,4) by (auto simp: run_sqls_append)
    moreover have "fst ` set (journal t2) \<inter> names (unapplied (journal t2) ?gs) = {}"
      by (rule unapplied_new)
    ultimately have "apply_all exec (map (entry_of sha (journal t2)) ?gs) [] t2 =
        (True, t2\<lparr>schema_state := schema_state t1, journal := journal t2 @ map (recorded sha) post\<rparr>)"
      using apply_all_undisturbed [where fs = ?gs and t = t2 and h = "journal t2" and exec = exec
          and s = "schema_state t1" and sha = sha, OF ordered_facts(3) [OF assms(3)]] unfolding again(2) by blast
    moreover have "plan_migrations sha key (sql_files directory) (journal t2) = Inr (map (entry_of sha (journal t2)) ?gs)"
      using again(1) unfolding plan_migrations_Inr [OF dist2] ordered_def by simp
    moreover have "\<not> (list_ex (\<lambda>k. getenv k = []) [''PGHOST'', ''PGDATABASE'', ''PGUSER'', ''PGPASSWORD''] \<or> \<not> connects)"
      using assms(5) unfolding migrate_def by (auto split: if_splits)
    ultimately have "migrate getenv connects sha key exec directory [] t2 =
        (0, t2\<lparr>schema_state := schema_state t1, journal := journal t2 @ map (recorded sha) post\<rparr>)"
      unfolding migrate_def by (simp only: if_False sum.case prod.case if_True)
    moreover have "t2\<lparr>schema_state := schema_state t1, journal := journal t2 @ map (recorded sha) post\<rparr> = t1"
      using first ran(2,5) by (intro target.equality) auto
    ultimately show ?thesis by simp
  qed
qed

subsection \<open>Examples\<close>

definition sample_exec :: "string \<Rightarrow> string list \<Rightarrow> string list option" where
  "sample_exec q s = Some (s @ [q])"

definition sample_files :: "migration_file list" where
  "sample_files =
     [\<lparr>m_name = ''0003_catalog_write.sql'', m_sql = ''c''\<rparr>, \<lparr>m_name = ''0001_foundation.sql'', m_sql = ''a''\<rparr>,
      \<lparr>m_name = ''0002_catalog.sql'', m_sql = ''b''\<rparr>, \<lparr>m_name = ''README.md'', m_sql = ''r''\<rparr>]"

definition sample_target :: "string list target" where
  "sample_target = \<lparr>schema_state = [], journal = []\<rparr>"

definition sample_migrate :: "outcome list \<Rightarrow> string list target \<Rightarrow> int \<times> string list target" where
  "sample_migrate = migrate (\<lambda>_. ''x'') True id id sample_exec sample_files"

lemma sample_collates: "collates (id :: string \<Rightarrow> string)"
  unfolding collates_def using take_mono by (metis id_apply not_le)

lemma sample_files_distinct:
  "distinct (map m_name sample_files)" "distinct (map (\<lambda>f. take 4 (m_name f)) (sql_files sample_files))"
  by (code_simp, code_simp)

lemma sample_migrate_whole:
  "sample_migrate [] sample_target = (0, \<lparr>schema_state = [''a'', ''b'', ''c''],
     journal = [(''0001_foundation.sql'', ''a''), (''0002_catalog.sql'', ''b''), (''0003_catalog_write.sql'', ''c'')]\<rparr>)"
  by code_simp

lemma sample_migrate_broken:
  "sample_migrate [Commits, Unseen] sample_target = (1, \<lparr>schema_state = [''a'', ''b''],
     journal = [(''0001_foundation.sql'', ''a''), (''0002_catalog.sql'', ''b'')]\<rparr>)"
  by code_simp

lemma sample_fresh: "migrated id id sample_exec [] sample_target"
  unfolding sample_target_def by (rule migrated.fresh)

lemma migrations_are_recorded_witness:
  "\<exists>sqls. map id sqls = map snd (journal (snd (sample_migrate [Commits, Unseen] sample_target))) \<and>
     run_sqls sample_exec sqls [] = Some (schema_state (snd (sample_migrate [Commits, Unseen] sample_target)))"
proof -
  have "migrated id id sample_exec [] (snd (sample_migrate [Commits, Unseen] sample_target))"
    unfolding sample_migrate_def by (rule migrated.run [OF sample_fresh sample_files_distinct(1)])
  from migrations_are_recorded [OF this sample_collates] show ?thesis by (rule conjunct1)
qed

theorem migrated_is_ready_witness:
  "Reply (json_response ready_body) \<in> set (ready_route (applied_reply (snd (sample_migrate [] sample_target)))
     (Redis_String ''PONG'') ''u'' sample_request)"
proof -
  have "migrate (\<lambda>_. ''x'') True id id sample_exec sample_files [] sample_target = (0, snd (sample_migrate [] sample_target))"
    using sample_migrate_whole by (simp add: sample_migrate_def)
  moreover have "''0003_catalog_write.sql'' \<in> names sample_files" by (simp add: names_def sample_files_def)
  ultimately show ?thesis
    using migrated_is_ready [OF sample_fresh sample_collates sample_files_distinct(1)] by blast
qed

theorem interrupted_run_resumes_witness:
  "sample_migrate [] (snd (sample_migrate [Commits, Unseen] sample_target)) = sample_migrate [] sample_target"
proof -
  have "sample_migrate [] sample_target = (0, snd (sample_migrate [] sample_target))" using sample_migrate_whole by simp
  then show ?thesis
    using interrupted_run_resumes [OF sample_fresh sample_collates sample_files_distinct] unfolding sample_migrate_def
    by (metis prod.collapse)
qed

text \<open>
  Without distinct numbers a run may not be resumable: \<open>localeCompare\<close> may put \<open>0001_a_b.sql\<close> in front of
  \<open>0001_a.sql\<close>, which \<open><\<close> then reports as out of order.
\<close>

lemma same_number_stuck:
  "plan_migrations id (\<lambda>v. length v = 10) [\<lparr>m_name = ''0001_a.sql'', m_sql = ''x''\<rparr>, \<lparr>m_name = ''0001_a_b.sql'', m_sql = ''y''\<rparr>]
     [(''0001_a_b.sql'', ''y'')] = Inl ''Out-of-order migration: 0001_a.sql''"
  by code_simp

end
