(* ===== verification/Sitemap.thy ===== *)
theory Sitemap
  imports Documented Catalog_Service
begin

text \<open>
  The sitemap of the storefront: pages/sitemap.xml.ts and pages/sitemaps/[page].xml.ts, on top of
  the public search of the API.  The fetch client and \<open>URL\<close> are parameters; a client is given as
  the \<open>data\<close> it returns for a query, which is absent after an error reply, a timeout or a failure.
\<close>

subsection \<open>The pages\<close>

record site_response =
  site_status :: int
  site_type :: "string option"
  site_text :: string

definition plain :: "string \<Rightarrow> int \<Rightarrow> site_response" where
  "plain s st = \<lparr>site_status = st, site_type = None, site_text = s\<rparr>"

definition xml :: "string \<Rightarrow> site_response" where
  "xml s = \<lparr>site_status = 200, site_type = Some ''application/xml'', site_text = s\<rparr>"

type_synonym client = "(string \<times> string) list \<Rightarrow> json option"

text \<open>\<open>data.total\<close>, \<open>data.items\<close> and \<open>product.slug\<close> of a reply with the schema \<open>ProductPage\<close>.\<close>

definition total_of :: "json \<Rightarrow> int" where
  "total_of data = (case part data ''total'' of JInt n \<Rightarrow> n | _ \<Rightarrow> 0)"

definition slug_of :: "json \<Rightarrow> string" where
  "slug_of product = (case part product ''slug'' of JStr s \<Rightarrow> s | _ \<Rightarrow> [])"

text \<open>\<open>Math.max(1, Math.ceil(total / 48))\<close>\<close>

definition page_count :: "int \<Rightarrow> int" where
  "page_count n = max 1 ((n + 47) div 48)"

definition index_xml :: "string list \<Rightarrow> string" where
  "index_xml urls = ''<?xml version=\"1.0\" encoding=\"UTF-8\"?><sitemapindex xmlns=\"http://www.sitemaps.org/schemas/sitemap/0.9\">'' @
     concat (map (\<lambda>u. ''<sitemap><loc>'' @ u @ ''</loc></sitemap>'') urls) @ ''</sitemapindex>''"

definition urlset_xml :: "string list \<Rightarrow> string" where
  "urlset_xml urls = ''<?xml version=\"1.0\" encoding=\"UTF-8\"?><urlset xmlns=\"http://www.sitemaps.org/schemas/sitemap/0.9\">'' @
     concat (map (\<lambda>u. ''<url><loc>'' @ u @ ''</loc></url>'') urls) @ ''</urlset>''"

definition sitemap_index :: "(string \<Rightarrow> string) \<Rightarrow> (string \<Rightarrow> string) \<Rightarrow> client \<Rightarrow> site_response" where
  "sitemap_index getenv url api =
    (if getenv ''ENABLE_INDEXING'' \<noteq> ''true'' then plain ''Indexing disabled'' 404
     else case api [(''limit'', ''48'')] of
       None \<Rightarrow> plain ''Catalog unavailable'' 503
     | Some data \<Rightarrow> xml (index_xml (map (\<lambda>k. url (''/sitemaps/'' @ digits k @ ''.xml''))
         [1..<Suc (nat (page_count (total_of data)))])))"

definition product_paths :: "string \<Rightarrow> string list" where
  "product_paths s = map (\<lambda>l. ''/'' @ l @ ''/catalog/'' @ s @ ''/'') [''ru'', ''ro'']"

definition fixed_paths :: "string list" where
  "fixed_paths = [''/ru/'', ''/ro/'', ''/ru/catalog/'', ''/ro/catalog/'']"

text \<open>\<open>page\<close> is \<open>Number(params.page)\<close>, \<open>None\<close> when that is not an integer.\<close>

definition sitemap_page :: "(string \<Rightarrow> string) \<Rightarrow> (string \<Rightarrow> string) \<Rightarrow> client \<Rightarrow> int option \<Rightarrow> site_response" where
  "sitemap_page getenv url api page =
    (case page of None \<Rightarrow> plain ''Not found'' 404 | Some k \<Rightarrow>
     if getenv ''ENABLE_INDEXING'' \<noteq> ''true'' \<or> k < 1 \<or> 10000 < k then plain ''Not found'' 404
     else case api [(''page'', digits (nat k)), (''limit'', ''48'')] of
       None \<Rightarrow> plain ''Catalog unavailable'' 503
     | Some data \<Rightarrow>
         if page_count (total_of data) < k then plain ''Not found'' 404
         else xml (urlset_xml (map url ((if k = 1 then fixed_paths else []) @
           concat (map (product_paths \<circ> slug_of) (elements (part data ''items'')))))))"

subsection \<open>The client and the API\<close>

text \<open>The data a client returns is the body of the reply, when the API answers with 200.\<close>

definition query_request :: "request \<Rightarrow> (string \<times> string) list \<Rightarrow> request" where
  "query_request base q = base\<lparr>get_parameter := (\<lambda>k. case map_of q k of None \<Rightarrow> [] | Some v \<Rightarrow> v)\<rparr>"

definition reads_catalog :: "client \<Rightarrow> jsoncpp \<Rightarrow> postgres \<Rightarrow> sodium \<Rightarrow> world \<Rightarrow> bool" where
  "reads_catalog api J P S w \<longleftrightarrow> (\<forall>q. \<exists>uid base. \<forall>v.
     fst (dispatch_task uid (query_request base q) (products_route J P S False (query_request base q)) w) = json_response v \<longrightarrow>
     api q = Some v)"

definition default_filter :: "int \<Rightarrow> search_filter" where
  "default_filter k = \<lparr>f_locale = ''ru'', f_query = [], f_category = [], f_brand = [], f_sort = ''newest'',
     f_page = k, f_limit = 48, f_min_price = 0, f_max_price = 100000000\<rparr>"

lemma decimal_digits: "decimal (digits n) (int n)"
  by (simp add: decimal_def digits_numeral digits_value_digits)

lemma parse_default:
  "parse_filter (query_request base [(''limit'', ''48'')]) = Inr (default_filter 1)"
  "1 \<le> k \<Longrightarrow> k \<le> 10000 \<Longrightarrow> parse_filter (query_request base [(''page'', digits k), (''limit'', ''48'')]) = Inr (default_filter (int k))"
proof -
  have "digits 48 = ''48''" by code_simp
  then have "decimal ''48'' 48" using decimal_digits [of 48] by simp
  then show "parse_filter (query_request base [(''limit'', ''48'')]) = Inr (default_filter 1)"
    "1 \<le> k \<Longrightarrow> k \<le> 10000 \<Longrightarrow> parse_filter (query_request base [(''page'', digits k), (''limit'', ''48'')]) = Inr (default_filter (int k))"
    using decimal_digits [of k]
    by (simp_all add: parse_filter_Inr filter_texts_def filter_numbers_def in_bounds_def param_or_def query_request_def default_filter_def)
qed

lemma client_page:
  assumes "reads_catalog api J P S w" and "jsoncpp_ok J" and "postgres_ok J P" and "catalog_ok (w_db w)"
    and "countable_rows (w_db w)" and "w_fates w = []" and "\<And>base. parse_filter (query_request base q) = Inr f"
  shows "api q = Some (public_page P (w_db w) f)"
proof -
  have "fst (dispatch_task uid (query_request base q) (products_route J P S False (query_request base q)) w) =
      json_response (public_page P (w_db w) f)" for uid base
    using public_list_page [OF assms(2-5) assms(7) assms(6)]
    by (simp add: dispatch_task_def reply_of_def products_route_def require_if_def bind_act_simp assms(7))
  then show ?thesis using assms(1) unfolding reads_catalog_def by blast
qed

subsection \<open>What is listed\<close>

definition public_slugs :: "db \<Rightarrow> string list" where
  "public_slugs d = map p_slug (filter (visible_product d) (products d))"

definition catalog_rows :: "postgres \<Rightarrow> db \<Rightarrow> listed list" where
  "catalog_rows P d = listed_rows P d (default_filter 1) None None False"

definition row_slug :: "db \<Rightarrow> listed \<Rightarrow> string" where
  "row_slug d r = (case find_product d (li_id r) of Some p \<Rightarrow> p_slug p | None \<Rightarrow> [])"

lemma filtered_default: "filtered P d (default_filter k) None None False = filtered P d (default_filter 1) None None False"
  using filtered_page [where P = P and d = d and f = "default_filter 1" and k = k and category = None and brand = None and admin = False] by (simp add: default_filter_def)

lemma page_default: "listed_page P d (default_filter k) None None False = page_rows k 48 (catalog_rows P d)"
  unfolding listed_page_def listed_rows_def catalog_rows_def filtered_default [of P d k]
  by (simp add: default_filter_def)

lemma default_ids:
  assumes "documented d"
  shows "distinct (map li_id (catalog_rows P d))"
    "li_id ` set (catalog_rows P d) = p_id ` {p \<in> set (products d). visible_product d p}"
proof -
  have ok: "catalog_ok d" using assms by simp
  have same: "set (catalog_rows P d) = set (filtered P d (default_filter 1) None None False)"
    by (simp add: catalog_rows_def listed_rows_def)
  have "distinct (map li_id (filtered P d (default_filter 1) None None False))"
    using ok by (intro filtered_distinct) (simp_all add: catalog_ok_def products_ok_def texts_ok_def)
  then show "distinct (map li_id (catalog_rows P d))"
    unfolding catalog_rows_def listed_rows_def by (metis distinct_map distinct_sort set_sort)
  have priced: "priced_variants d (default_filter 1) False k \<noteq> [] \<longleftrightarrow> (\<exists>v \<in> set (variants d). v_product v = k \<and> v_active v)" for k
    using ok by (auto simp: priced_variants_def default_filter_def filter_empty_conv catalog_ok_def variants_ok_def variant_bounds_def)
  have shown: "\<exists>t \<in> set (product_texts d). t_product t = p_id p \<and> t_locale t = ''ru''" if "p \<in> set (products d)" for p
  proof -
    have "''ru'' \<in> locales_of d (p_id p)" using assms that by (simp add: documented_def)
    then show ?thesis by (auto simp: locales_of_def)
  qed
  have matches: "product_matches P d (default_filter 1) None None False p t \<longleftrightarrow>
      t_product t = p_id p \<and> t_locale t = ''ru'' \<and> p_status p = ''active''" for p t
    by (auto simp: product_matches_def default_filter_def text_matches_def)
  have listed: "k \<in> li_id ` set (filtered P d (default_filter 1) None None False) \<longleftrightarrow>
      (\<exists>p \<in> set (products d). \<exists>t \<in> set (product_texts d). product_matches P d (default_filter 1) None None False p t \<and>
        priced_variants d (default_filter 1) False (p_id p) \<noteq> [] \<and> k = p_id p)" for k
    by (force simp: filtered_iff image_iff)
  have "(\<exists>t \<in> set (product_texts d). product_matches P d (default_filter 1) None None False p t \<and>
      priced_variants d (default_filter 1) False (p_id p) \<noteq> [] \<and> k = p_id p) \<longleftrightarrow> visible_product d p \<and> k = p_id p"
    if "p \<in> set (products d)" for p k
    unfolding matches priced visible_product_def list_ex_iff using shown [OF that] by blast
  then have rows: "k \<in> li_id ` set (filtered P d (default_filter 1) None None False) \<longleftrightarrow>
      (\<exists>p \<in> set (products d). visible_product d p \<and> k = p_id p)" for k
    unfolding listed by (rule bex_cong [OF refl])
  have "k \<in> p_id ` {p \<in> set (products d). visible_product d p} \<longleftrightarrow>
      (\<exists>p \<in> set (products d). visible_product d p \<and> k = p_id p)" for k by auto
  then show "li_id ` set (catalog_rows P d) = p_id ` {p \<in> set (products d). visible_product d p}"
    unfolding same by (intro set_eqI) (simp only: rows)
qed

lemma public_slugs_distinct: "catalog_ok d \<Longrightarrow> distinct (public_slugs d)"
  by (simp add: public_slugs_def catalog_ok_def products_ok_def distinct_map inj_on_def)

lemma row_slugs:
  assumes "documented d"
  shows "distinct (map (row_slug d) (catalog_rows P d))" "set (map (row_slug d) (catalog_rows P d)) = set (public_slugs d)"
    "length (catalog_rows P d) = length (public_slugs d)"
proof -
  let ?vis = "{p \<in> set (products d). visible_product d p}"
  have ok: "distinct (map p_id (products d))" "distinct (map p_slug (products d))"
    using documented_ok [OF assms] by (simp_all add: catalog_ok_def products_ok_def)
  note ids = default_ids [OF assms, of P]
  have slug: "row_slug d r = p_slug p" if "p \<in> set (products d)" "li_id r = p_id p" for r p
    using find_product_unique [OF ok(1) that(1)] that(2) by (simp add: row_slug_def)
  have row: "\<exists>p \<in> ?vis. li_id r = p_id p" if "r \<in> set (catalog_rows P d)" for r
  proof -
    have "li_id r \<in> p_id ` ?vis" using that ids(2) by blast
    then show ?thesis by (rule imageE) blast
  qed
  have inj: "r = r'" if rows: "r \<in> set (catalog_rows P d)" "r' \<in> set (catalog_rows P d)" and eq: "row_slug d r = row_slug d r'" for r r'
  proof -
    obtain p p' where p: "p \<in> ?vis" "li_id r = p_id p" "p' \<in> ?vis" "li_id r' = p_id p'" using row rows by meson
    then have "p_slug p = p_slug p'" using eq slug [of p r] slug [of p' r'] by simp
    then have "p = p'" using ok(2) p(1,3) by (simp add: distinct_map inj_on_def)
    then have "li_id r = li_id r'" using p by simp
    then show ?thesis using ids(1) rows by (simp add: distinct_map inj_on_def)
  qed
  have "distinct (catalog_rows P d)" using ids(1) by (simp add: distinct_map)
  then show dist: "distinct (map (row_slug d) (catalog_rows P d))" using inj by (simp add: distinct_map inj_on_def)
  show set: "set (map (row_slug d) (catalog_rows P d)) = set (public_slugs d)"
  proof (rule set_eqI)
    fix s
    have "(\<exists>r \<in> set (catalog_rows P d). s = row_slug d r) \<longleftrightarrow> (\<exists>p \<in> ?vis. s = p_slug p)"
    proof
      assume "\<exists>p \<in> ?vis. s = p_slug p"
      then obtain p where p: "p \<in> ?vis" "s = p_slug p" by blast
      then have "p_id p \<in> li_id ` set (catalog_rows P d)" unfolding ids(2) by blast
      then obtain r where r: "r \<in> set (catalog_rows P d)" "li_id r = p_id p" by (metis imageE)
      then have "s = row_slug d r" using p slug [of p r] by simp
      then show "\<exists>r \<in> set (catalog_rows P d). s = row_slug d r" using r(1) by (rule bexI)
    qed (use row slug in force)
    then show "s \<in> set (map (row_slug d) (catalog_rows P d)) \<longleftrightarrow> s \<in> set (public_slugs d)"
      by (auto simp: public_slugs_def image_iff)
  qed
  show "length (catalog_rows P d) = length (public_slugs d)"
    using distinct_card [OF dist] distinct_card [OF public_slugs_distinct] set assms by simp
qed

lemma slug_of_shown:
  assumes "documented d" and "r \<in> set (catalog_rows P d)"
  shows "slug_of (shown_item P d r) = row_slug d r"
proof -
  have "li_id r \<in> p_id ` {p \<in> set (products d). visible_product d p}" using default_ids(2) [OF assms(1), of P] assms(2) by blast
  then obtain p where p: "p \<in> set (products d)" "li_id r = p_id p" by blast
  have "find_product d (p_id p) = Some p"
    using documented_ok [OF assms(1)] p(1) by (intro find_product_unique) (simp_all add: catalog_ok_def products_ok_def)
  then show ?thesis
    by (simp add: slug_of_def shown_item_def stored_item_def p(2) catalog_document_def row_slug_def json_or_null_def
        public_view_def part_def member_def)
qed

subsection \<open>Paths\<close>

lemma product_paths_simps [simp]:
  "set (product_paths s) = {''/ru/catalog/'' @ s @ ''/'', ''/ro/catalog/'' @ s @ ''/''}" "distinct (product_paths s)"
  by (auto simp: product_paths_def)

lemma paths_apart:
  "distinct ss \<Longrightarrow> distinct (concat (map product_paths ss))"
  "set fixed_paths \<inter> set (concat (map product_paths ss)) = {}" "distinct fixed_paths"
proof -
  have apart: "set (product_paths s) \<inter> set (product_paths t) = {}" if "s \<noteq> t" for s t using that by auto
  show "distinct ss \<Longrightarrow> distinct (concat (map product_paths ss))"
  proof (induction ss)
    case (Cons s ss)
    then have "set (product_paths s) \<inter> set (product_paths t) = {}" if "t \<in> set ss" for t using apart that by auto
    then have "set (product_paths s) \<inter> set (concat (map product_paths ss)) = {}"
      unfolding set_concat set_map by blast
    with Cons show ?case by (simp only: list.map concat.simps distinct_append product_paths_simps(2) distinct.simps simp_thms)
  qed simp
qed (auto simp: fixed_paths_def)

definition page_slugs :: "string list \<Rightarrow> nat \<Rightarrow> string list" where
  "page_slugs ss k = page_rows (int k) 48 ss"

definition page_paths :: "string list \<Rightarrow> nat \<Rightarrow> string list" where
  "page_paths ss k = (if k = 1 then fixed_paths else []) @ concat (map product_paths (page_slugs ss k))"

lemma all_pages:
  assumes "length ss \<le> n * 48"
  shows "concat (map (page_paths ss) [1..<Suc n]) = (if n = 0 then [] else fixed_paths) @ concat (map product_paths ss)"
proof -
  have "concat (map (page_paths ss) [1..<Suc m]) = (if m = 0 then [] else fixed_paths) @
      concat (map product_paths (concat (map (page_slugs ss) [1..<Suc m])))" for m
    by (induction m) (auto simp: page_paths_def)
  moreover have "concat (map (page_slugs ss) [1..<Suc n]) = ss"
    using pages_append [of 48 ss n] assms by (simp add: page_slugs_def [abs_def] del: upt_Suc)
  ultimately show ?thesis by simp
qed

lemma page_count_enough: "int n \<le> 48 * page_count (int n)" "n \<le> 480000 \<Longrightarrow> page_count (int n) \<le> 10000" "1 \<le> page_count n'"
  by (simp_all add: page_count_def max_def) linarith+

lemma public_page_parts:
  "total_of (public_page P d (default_filter k)) = int (length (catalog_rows P d))"
  "elements (part (public_page P d (default_filter k)) ''items'') = map (shown_item P d) (page_rows k 48 (catalog_rows P d))"
proof -
  have "filter_key (f_category (default_filter k)) = None" "filter_key (f_brand (default_filter k)) = None"
    by (simp_all add: filter_key_def default_filter_def)
  then have page: "public_page P d (default_filter k) = list_body (shown_item P d) P d (default_filter k) None None False"
    by (simp add: public_page_def)
  show "total_of (public_page P d (default_filter k)) = int (length (catalog_rows P d))"
    by (simp add: page list_body_def total_of_def part_def member_def filtered_default [of P d k] catalog_rows_def listed_rows_def)
  show "elements (part (public_page P d (default_filter k)) ''items'') = map (shown_item P d) (page_rows k 48 (catalog_rows P d))"
    by (simp add: page list_body_def part_def member_def page_default)
qed

lemma shown_slugs:
  assumes "documented d"
  shows "map (slug_of \<circ> shown_item P d) (page_rows (int k) 48 (catalog_rows P d)) = page_slugs (map (row_slug d) (catalog_rows P d)) k"
proof -
  have "set (page_rows (int k) 48 (catalog_rows P d)) \<subseteq> set (catalog_rows P d)"
    unfolding page_rows_def using set_take_subset set_drop_subset by fast
  then have "map (slug_of \<circ> shown_item P d) (page_rows (int k) 48 (catalog_rows P d)) = map (row_slug d) (page_rows (int k) 48 (catalog_rows P d))"
    using slug_of_shown [OF assms] by (intro map_cong) auto
  then show ?thesis by (simp add: page_slugs_def page_rows_def take_map drop_map)
qed

subsection \<open>Property\<close>

text \<open>
  C18. The sitemap lists the catalog.  While the API answers, the index names the pages that exist and no
  other page is found; over all pages together each of the fixed pages and, in both languages, the
  page of each product that the public can see is listed exactly once, and nothing else.  The
  bound is what 10000 pages of 48 products hold.
\<close>

theorem sitemap_lists_catalog:
  assumes "jsoncpp_ok J" and "postgres_ok J P" and "documented (w_db w)" and "countable_rows (w_db w)" and "w_fates w = []"
    and "reads_catalog api J P S w" and "getenv ''ENABLE_INDEXING'' = ''true''"
    and "length (public_slugs (w_db w)) \<le> 480000" and "n = page_count (int (length (public_slugs (w_db w))))"
  shows "\<exists>paths. sitemap_index getenv url api =
        xml (index_xml (map (\<lambda>k. url (''/sitemaps/'' @ digits k @ ''.xml'')) [1..<Suc (nat n)])) \<and>
     (\<forall>k. sitemap_page getenv url api (Some k) =
        (if 1 \<le> k \<and> k \<le> n then xml (urlset_xml (map url (paths (nat k)))) else plain ''Not found'' 404)) \<and>
     distinct (concat (map paths [1..<Suc (nat n)])) \<and>
     set (concat (map paths [1..<Suc (nat n)])) =
       set fixed_paths \<union> (\<Union>s \<in> set (public_slugs (w_db w)). set (product_paths s))"
proof -
  let ?d = "w_db w" and ?rows = "catalog_rows P (w_db w)"
  let ?ss = "map (row_slug ?d) ?rows"
  have ok: "catalog_ok ?d" using assms(3) by simp
  note slugs = row_slugs [OF assms(3), of P]
  have total: "page_count (total_of (public_page P ?d (default_filter k))) = n" for k
    by (simp add: public_page_parts(1) assms(9) slugs(3))
  have bounds: "1 \<le> n" "n \<le> 10000" "length ?ss \<le> nat n * 48"
    using page_count_enough(1) [of "length (public_slugs ?d)"] page_count_enough(2) [OF assms(8)]
      page_count_enough(3) [of "int (length (public_slugs ?d))"] slugs(3)
    by (auto simp: assms(9))
  have first: "api [(''limit'', ''48'')] = Some (public_page P ?d (default_filter 1))"
    by (rule client_page [OF assms(6,1,2) ok assms(4,5) parse_default(1)])
  have page: "api [(''page'', digits (nat k)), (''limit'', ''48'')] = Some (public_page P ?d (default_filter k))"
    if "1 \<le> k" "k \<le> 10000" for k
    using client_page [OF assms(6,1,2) ok assms(4,5) parse_default(2) [of "nat k"]] that by simp
  have "sitemap_page getenv url api (Some k) =
      (if 1 \<le> k \<and> k \<le> n then xml (urlset_xml (map url (page_paths ?ss (nat k)))) else plain ''Not found'' 404)" for k
  proof (cases "1 \<le> k \<and> k \<le> 10000")
    case True
    have "concat (map (product_paths \<circ> slug_of) (elements (part (public_page P ?d (default_filter k)) ''items''))) =
        concat (map product_paths (page_slugs ?ss (nat k)))"
      unfolding shown_slugs [OF assms(3), symmetric] public_page_parts(2) using True by (simp add: comp_assoc)
    with True show ?thesis
      by (simp add: sitemap_page_def assms(7) page total page_paths_def nat_eq_iff)
  qed (use bounds in \<open>auto simp: sitemap_page_def\<close>)
  moreover have "sitemap_index getenv url api = xml (index_xml (map (\<lambda>k. url (''/sitemaps/'' @ digits k @ ''.xml'')) [1..<Suc (nat n)]))"
    by (simp add: sitemap_index_def assms(7) first total del: upt_Suc)
  moreover have all: "concat (map (page_paths ?ss) [1..<Suc (nat n)]) = fixed_paths @ concat (map product_paths ?ss)"
    using all_pages [OF bounds(3)] bounds(1) by simp
  moreover have "distinct (fixed_paths @ concat (map product_paths ?ss))"
    using paths_apart(1) [OF slugs(1)] paths_apart(2) [of ?ss] paths_apart(3) unfolding distinct_append by blast
  moreover have "set (fixed_paths @ concat (map product_paths ?ss)) =
      set fixed_paths \<union> (\<Union>s \<in> set (public_slugs ?d). set (product_paths s))"
    unfolding set_append set_concat set_map slugs(2) [unfolded set_map, symmetric] by blast
  ultimately show ?thesis by (intro exI [of _ "page_paths ?ss"]) (simp only: simp_thms)
qed

subsection \<open>Examples\<close>

definition sample_client :: client where
  "sample_client q = (case resp_content (fst (dispatch_task ''u'' (query_request sample_request q)
       (products_route sample_jsoncpp sample_postgres sample_sodium False (query_request sample_request q)) sample_catalog_world)) of
     Json_Body v \<Rightarrow> Some v | _ \<Rightarrow> None)"

lemma sample_client_reads: "reads_catalog sample_client sample_jsoncpp sample_postgres sample_sodium sample_catalog_world"
  unfolding reads_catalog_def sample_client_def
  by (intro allI, rule exI [of _ "''u''"], rule exI [of _ sample_request]) (simp add: json_response_def)

lemma sample_public_slugs: "public_slugs sample_db1 = [''kettle'']"
  by (simp add: public_slugs_def visible_product_def sample_db1_def sample_rows_def)

theorem sitemap_lists_catalog_witness:
  "sitemap_index (\<lambda>_. ''true'') (\<lambda>p. ''https://bee.md'' @ p) sample_client = xml (index_xml [''https://bee.md/sitemaps/1.xml''])"
proof -
  have "digits 1 = ''1''" by code_simp
  moreover have "nat (page_count (int (length (public_slugs sample_db1)))) = 1" by (simp add: sample_public_slugs page_count_def)
  ultimately show ?thesis
    using sitemap_lists_catalog [OF sample_jsoncpp_ok sample_postgres_ok _ _ _ sample_client_reads _ _ refl,
        of "\<lambda>_. ''true''" "\<lambda>p. ''https://bee.md'' @ p"] sample_db1_documented
    by (auto simp: sample_catalog_world_facts sample_public_slugs)
qed

end
