(* ===== verification/Spec2Isabelle.thy ===== *)
theory Spec2Isabelle
  imports Api Startup Provisioning Outbox Editor Migrations Sitemap
begin

text \<open>
  A verification development of the bee-ecom services: the C++ API (services/api/src), its
  outbox worker (services/worker/src), the SQL they rest on (database/migrations) with the job that
  applies it (infra/scripts), what the product form of the admin application sends, and the sitemap of
  the storefront.

  \<^bold>\<open>The program.\<close>  A Drogon process serves HTTP.  Every handler is dispatched on a bounded executor
  and its exceptions become error bodies with the request's identifier.  The authentication
  module keeps sessions and attempt counters in PostgreSQL; the catalog module validates drafts
  and hands them to the SQL function catalog\_save, which writes a product with its categories,
  texts, variants, attributes and images in one transaction under optimistic locking; the media
  module checks and resizes images, stores them in S3 and records them; the health module probes
  PostgreSQL and Redis.  A separate worker parks the outbox events that no handler takes, and a
  command creates administrators.

  \<^bold>\<open>Conventions.\<close>  A C++ exception is a value of \<open>exn\<close>, a fallible function returns \<open>exn + 'a\<close>, and
  code with effects is an action on a \<open>world\<close>: the database, the S3 bucket, the random values
  drawn, and what will happen to the next statements and transfers (\<open>w_fates\<close>,
  \<open>w_transfers\<close>), so that refusals and lost replies are part of every run.  A SQL statement is
  a function from a database to a result and a new database, or to an error, after which nothing has
  changed.  JSON objects are association lists in the order of their members.

  \<^item> Bee\_Prelude: results, actions, strings.  Regex, Patterns: regular expressions by derivatives
    and the patterns of the program (UUID, slug, attribute code, bucket name).  Chars:
    \<open>std::from_chars\<close>.  Json: values and the accessors of jsoncpp with their exceptions
    (platform/Json.hpp).
  \<^item> Config: platform/Config.cpp; what loads, and that libpq reads the connection string back.
  \<^item> Executor: platform/Executor.hpp as a step relation (submit, a worker's turn, the destructor)
    with its queue as a locale (\<open>work_queue\<close>); every accepted task is executed once and in order, the destructor drains and ends.
  \<^item> Http: platform/Http.cpp, Endpoint.hpp, Logging.cpp, Errors.hpp; one reply for each request.
  \<^item> Database: the tables of migration 0002, PostgreSQL's errors and casts, statements and fates.
  \<^item> Catalog\_Validation: the checks of CatalogService.cpp against a declarative predicate
    (\<open>valid_draft\<close>), and the filter parser.
  \<^item> Catalog\_Store: catalog\_document and catalog\_save (migration 0003), one definition for each
    statement.  Catalog\_Invariant, Catalog\_Integrity, Catalog\_Save: what each step does, the
    integrity \<open>catalog_ok\<close> that all keep, and the committed write.  Catalog\_History: saves are all or
    nothing, audited, touch one product, and refine a counter of revisions (locale
    \<open>revisioned_store\<close>, interpreted on catalog\_save).
  \<^item> Catalog\_Query, Catalog\_Service: CatalogRepository.cpp, the service and
    CatalogController.cpp.  Catalog\_Views: what the public sees, paging, literal search.
    Catalog\_Rows, Catalog\_Readback: the rows a save leaves, and that they are the draft again.
    Catalog\_Progress: when a save succeeds.  Catalog\_Written: what is stored satisfies the checks
    of a draft (\<open>written\<close>).
  \<^item> Auth: Auth.cpp and AuthRepository.cpp.  Auth\_Throttle: the attempt counter as a windowed
    counter (locale \<open>windowed_counter\<close>).  Auth\_Sessions: sign-in, sessions as an abstract store
    (locale \<open>session_store\<close>).  Admin\_Guard: the guard of every writing route.
  \<^item> Storage: S3Storage.cpp and the class Storage as a locale (\<open>object_store\<close>).  Media,
    Media\_Integrity: Media.cpp; stored before known, who sees an image.
  \<^item> Contract: the schemas of packages/contracts.  Documented, Contract\_Documents: the invariant
    (\<open>documented\<close>) under which the documents of the database conform to them.  Requests: the
    table of the JSON routes, the statements they send (\<open>statement_step\<close>) and any interleaving of
    them.  Api: every history of requests (\<open>serves\<close>), and that each reply has its schema.
  \<^item> Editor: \<open>draftOf\<close> of apps/admin/src/lib/catalog.ts; an untouched form is accepted and changes
    nothing but the revision.  Migrations: migration-plan.mjs and migrate.mjs; the journal, an
    interrupted run, and when the deployed API becomes ready.  Sitemap: sitemap.xml.ts and
    sitemaps/[page].xml.ts of the storefront; the catalog is listed completely and once.
  \<^item> Health: the health module.  Outbox: OutboxRepository.cpp and the worker's main.cpp, with the
    table of migration 0001.  Startup: the API's main.cpp.  Provisioning: admin\_create.cpp.
  \<^item> Sample\_Json, Sample\_Catalog and the examples at the end of the theories: concrete instances of
    the parameters, which meet their hypotheses, and databases to evaluate the properties on.

  \<^bold>\<open>Parameters.\<close>  Code that is not in the repository is an argument: the JSON library
  (\<open>jsoncpp\<close>), PostgreSQL's input and output functions, collation, case folding, text search
  and random UUIDs (\<open>postgres\<close>), libsodium (\<open>sodium\<close>), libvips and Drogon's UUIDs
  (\<open>media_env\<close>), libcurl with the S3 service (\<open>s3_server\<close>), library initialisation and
  name resolution (\<open>platform\<close>).  What the code relies on is stated as \<open>jsoncpp_ok\<close>,
  \<open>postgres_ok\<close>, \<open>sodium_ok\<close>, \<open>media_ready\<close> and \<open>s3_ok\<close>, each met by a sample.  jsonb takes the
  text of every value except those with a NUL character (\<open>storable\<close>; Database lists the values for
  which this is more than PostgreSQL and JsonCpp promise); other text parameters end at their first
  NUL, as libpq sends them; generated UUIDs are
  canonical (\<open>uuids_ok\<close>), and where a property needs them to be new it says for which
  (\<open>new_uuids\<close>).  The migration job takes SHA-256, the effect of a migration's SQL and the sort keys
  of \<open>localeCompare\<close> (\<open>collates\<close>); the sitemap takes \<open>URL\<close> and the fetch client
  (\<open>reads_catalog\<close>).

  \<^bold>\<open>Bounds.\<close>  No definition uses fuel.  Recursion that is not structural (the conninfo reader, the
  worker's sleeps) has a measure; the executor and the outbox have explicit bounds on the steps
  they still need.

  \<^bold>\<open>Not modelled.\<close>  A statement, which here is a transaction, is atomic: requests interleave at their
  statements, transactions do not, as row locks and unique indexes would order them.  The order
  of rows that SQL leaves open (ties in ORDER BY, jsonb\_agg over an ordered subquery) is taken
  as the table's or the subquery's.  Statements take no time; the worker's signal comes during its
  sleeps and the write of its heartbeat file succeeds.  \<open>format\<close> in the contract is an annotation,
  except for UUIDs.  Timeouts appear only as refusals and lost replies; memory, threads below the
  executor's critical sections, Drogon's routing and event loop, TLS, vips and curl internals do
  not appear.  The pages of the TypeScript applications, the browser, nginx and the containers
  are not part of this development.
\<close>

end
